(* ===== verification/Prelude.thy ===== *)
theory Prelude
  imports Main "HOL-Library.Word" "HOL-Library.Char_ord"
begin

unbundle bit_operations_syntax

text \<open>
  Shared vocabulary of the development: names for the machine integers the C sources use, the
  error numbers they return, the collections of rewrite rules the component theories fill, and the
  generic facts on words, lists and shifted arrays that several components need.
\<close>

section \<open>Names for machine integers\<close>

type_synonym u8 = "8 word"
type_synonym u16 = "16 word"
type_synonym u32 = "32 word"
type_synonym u64 = "64 word"

text \<open>
  The allocator (\<open>malloc\<close>, \<open>calloc\<close>, \<open>realloc\<close>, \<open>strdup\<close>) is an argument of every operation
  that allocates: a predicate that says whether a request for that many bytes is granted.
\<close>

type_synonym allocator = "nat \<Rightarrow> bool"

section \<open>Error numbers\<close>

text \<open>The values of \<open>include/linux/errno.h\<close> the modelled code returns (negated) or stores.\<close>

abbreviation (input) EPERM :: int where "EPERM \<equiv> 1"
abbreviation (input) ENOENT :: int where "ENOENT \<equiv> 2"
abbreviation (input) ESRCH :: int where "ESRCH \<equiv> 3"
abbreviation (input) E2BIG :: int where "E2BIG \<equiv> 7"
abbreviation (input) ENOMEM :: int where "ENOMEM \<equiv> 12"
abbreviation (input) EEXIST :: int where "EEXIST \<equiv> 17"
abbreviation (input) EINVAL :: int where "EINVAL \<equiv> 22"
abbreviation (input) ENOSPC :: int where "ENOSPC \<equiv> 28"

section \<open>Collections\<close>

named_theorems alist_simps \<open>the effect of alist operations on the stored sequence\<close>
named_theorems lmb_simps \<open>the effect of region-list operations on the sequence of regions\<close>
named_theorems membuf_simps \<open>the effect of ring-buffer operations on the buffered bytes\<close>
named_theorems htab_simps \<open>the effect of hash-table operations on the stored map\<close>

section \<open>Words without wrap-around\<close>

lemma unat_add_less:
  fixes a b :: "'a::len word"
  assumes "unat a + unat b < 2 ^ LENGTH('a)"
  shows "unat (a + b) = unat a + unat b"
  using assms by (simp add: unat_add_lem)

lemma unat_add_64 [simp]:
  fixes a b :: u64
  assumes "unat a + unat b < 18446744073709551616"
  shows "unat (a + b) = unat a + unat b"
  using assms by (intro unat_add_less) simp

lemma unat_diff_le:
  fixes a b :: "'a::len word"
  assumes "unat b \<le> unat a"
  shows "unat (a - b) = unat a - unat b"
  using assms by (simp add: unat_sub word_le_nat_alt)

text \<open>The address of the last byte of a nonempty block that ends inside the address space.\<close>

lemma unat_last_byte:
  fixes a b :: u64
  assumes "unat a + unat b \<le> 18446744073709551616" and "b \<noteq> 0"
  shows "unat (a + b - 1) = unat a + unat b - 1"
proof -
  have b1: "1 \<le> unat b" using assms(2) by (simp add: Suc_leI unat_gt_0)
  then have "unat (b - 1) = unat b - 1" by (subst unat_diff_le) auto
  then have "unat (a + (b - 1)) = unat a + (unat b - 1)"
    using assms(1) b1 by (subst unat_add_less) auto
  then show ?thesis using b1 by (simp add: algebra_simps)
qed

lemma unat_ucast_mod:
  "unat (ucast (w :: 'a::len word) :: 'b::len word) = unat w mod 2 ^ LENGTH('b)"
  by (simp add: unsigned_ucast_eq take_bit_eq_mod)

lemma unat_ucast_small:
  "unat (w :: 'a::len word) < 2 ^ LENGTH('b) \<Longrightarrow> unat (ucast w :: 'b::len word) = unat w"
  by (simp add: unat_ucast_mod)

lemma unat_u16_less: "unat (w :: u16) < 65536"
  using unsigned_less [of w] by simp

lemma unat_u32_less: "unat (w :: u32) < 4294967296"
  using unsigned_less [of w] by simp

lemma unat_u64_less: "unat (w :: u64) < 18446744073709551616"
  using unsigned_less [of w] by simp

lemma unat_u16_to_u32 [simp]: "unat (ucast (w :: u16) :: u32) = unat w"
  using unat_u16_less [of w] by (intro unat_ucast_small) simp

lemma ucast_u16_u32_eq_0 [simp]: "(ucast (w :: u16) :: u32) = 0 \<longleftrightarrow> w = 0"
  by (metis unat_eq_0 unat_u16_to_u32)

lemma unat_pos_iff: "0 < unat (w :: 'a::len word) \<longleftrightarrow> w \<noteq> 0"
  by (simp add: unat_gt_0)

section \<open>Arrays that are shifted in place\<close>

text \<open>Deleting one element of a list by position, as a loop that shifts the tail down does.\<close>

definition remove_nth :: "nat \<Rightarrow> 'a list \<Rightarrow> 'a list" where
  "remove_nth i xs = take i xs @ drop (Suc i) xs"

text \<open>Inserting one element at a position, as a loop that shifts the tail up does.\<close>

definition insert_nth :: "nat \<Rightarrow> 'a \<Rightarrow> 'a list \<Rightarrow> 'a list" where
  "insert_nth i x xs = take i xs @ x # drop i xs"

lemma length_remove_nth [simp]: "i < length xs \<Longrightarrow> length (remove_nth i xs) = length xs - 1"
  by (simp add: remove_nth_def)

lemma set_remove_nth: "set (remove_nth i xs) \<subseteq> set xs"
  by (auto simp: remove_nth_def dest: in_set_takeD in_set_dropD)

lemma set_insert_nth: "set (insert_nth i x xs) = insert x (set xs)"
proof -
  have "set (take i xs) \<union> set (drop i xs) = set xs"
    by (metis append_take_drop_id set_append)
  then show ?thesis by (auto simp: insert_nth_def)
qed

lemma length_insert_nth [simp]: "length (insert_nth i x xs) = Suc (length xs)"
  by (simp add: insert_nth_def)

lemma nth_append_mid: "length xs = i \<Longrightarrow> (xs @ y # zs) ! i = y"
  by (auto simp: nth_append)

lemma list_update_mid: "length xs = i \<Longrightarrow> (xs @ y # zs)[i := v] = xs @ v # zs"
  by (auto simp: list_update_append)

lemma split_at_nth: "i < length xs \<Longrightarrow> xs = take i xs @ xs ! i # drop (Suc i) xs"
  by (rule id_take_nth_drop)

lemma split_at_two:
  "Suc i < length xs \<Longrightarrow> xs = take i xs @ xs ! i # xs ! Suc i # drop (Suc (Suc i)) xs"
  by (metis Cons_nth_drop_Suc Suc_lessD id_take_nth_drop)

end
