(* ===== verification/Alist.thy ===== *)
theory Alist
  imports Prelude
begin

text \<open>
  The growable object list of \<open>lib/alist.c\<close> and \<open>include/alist.h\<close>. The C structure keeps a block
  of \<open>alloc\<close> objects of \<open>obj_size\<close> bytes, the first \<open>count\<close> of which are in use, all three in
  16-bit fields. The model keeps the block as a list of objects (the empty list for a NULL
  \<open>data\<close> pointer) and the 16-bit fields as they are; a pointer into the block is its byte offset
  from \<open>data\<close>. \<open>zero\<close> stands for the object whose bytes are all zero.
\<close>

section \<open>Data\<close>

record 'a alist =
  al_data :: "'a list"
  al_obj_size :: u16
  al_count :: u16
  al_alloc :: u16
  al_flags :: u16

definition ALISTF_FAIL :: u16 where
  "ALISTF_FAIL = 1"

definition ALIST_INITIAL_SIZE :: u32 where
  "ALIST_INITIAL_SIZE = 4"

definition alist_zeroed :: "'a alist" where
  "alist_zeroed = \<lparr>al_data = [], al_obj_size = 0, al_count = 0, al_alloc = 0, al_flags = 0\<rparr>"

section \<open>Operations\<close>

definition alist_has :: "'a alist \<Rightarrow> u32 \<Rightarrow> bool" where
  "alist_has lst index \<longleftrightarrow> index < ucast (al_count lst)"

definition alist_err :: "'a alist \<Rightarrow> bool" where
  "alist_err lst \<longleftrightarrow> al_flags lst AND ALISTF_FAIL \<noteq> 0"

definition alist_full :: "'a alist \<Rightarrow> bool" where
  "alist_full lst \<longleftrightarrow> al_count lst = al_alloc lst"

definition alist_init :: "allocator \<Rightarrow> 'a \<Rightarrow> u32 \<Rightarrow> u32 \<Rightarrow> bool \<times> 'a alist" where
  "alist_init malloc zero obj_size start_size =
     (if start_size \<noteq> 0 then
        if \<not> malloc (unat obj_size * unat start_size)
        then (False, alist_zeroed\<lparr>al_flags := ALISTF_FAIL\<rparr>)
        else (True, alist_zeroed\<lparr>al_data := replicate (unat start_size) zero,
                                 al_alloc := ucast start_size,
                                 al_obj_size := ucast obj_size\<rparr>)
      else (True, alist_zeroed\<lparr>al_obj_size := ucast obj_size\<rparr>))"

definition alist_uninit :: "'a alist \<Rightarrow> 'a alist" where
  "alist_uninit lst = alist_zeroed"

definition alist_empty :: "'a alist \<Rightarrow> 'a alist" where
  "alist_empty lst = lst\<lparr>al_count := 0\<rparr>"

text \<open>
  The byte count \<open>obj_size * new_alloc\<close> is a 32-bit product, and the assignment to the 16-bit
  \<open>alloc\<close> field drops the upper half of \<open>new_alloc\<close>.
\<close>

definition alist_expand_to :: "allocator \<Rightarrow> 'a \<Rightarrow> 'a alist \<Rightarrow> u32 \<Rightarrow> bool \<times> 'a alist" where
  "alist_expand_to malloc zero lst new_alloc =
     (if al_flags lst AND ALISTF_FAIL \<noteq> 0 then (False, lst)
      else if \<not> malloc (unat (ucast (al_obj_size lst) * new_alloc))
      then (False, lst\<lparr>al_flags := al_flags lst OR ALISTF_FAIL\<rparr>)
      else (True, lst\<lparr>al_data := take (unat (al_alloc lst)) (al_data lst) @
                                replicate (unat new_alloc - unat (al_alloc lst)) zero,
                      al_alloc := ucast new_alloc\<rparr>))"

definition alist_expand_by :: "allocator \<Rightarrow> 'a \<Rightarrow> 'a alist \<Rightarrow> u32 \<Rightarrow> bool \<times> 'a alist" where
  "alist_expand_by malloc zero lst inc_by =
     alist_expand_to malloc zero lst (ucast (al_alloc lst) + inc_by)"

text \<open>The doubling loop of \<open>alist_expand_min\<close>; None when it never reaches the wanted size.\<close>

partial_function (option) alist_double :: "u32 \<Rightarrow> u32 \<Rightarrow> u32 option" where
  "alist_double new_alloc min_alloc =
     (if new_alloc < min_alloc then alist_double (new_alloc * 2) min_alloc else Some new_alloc)"

definition alist_expand_min ::
  "allocator \<Rightarrow> 'a \<Rightarrow> 'a alist \<Rightarrow> u32 \<Rightarrow> (bool \<times> 'a alist) option" where
  "alist_expand_min malloc zero lst min_alloc =
     map_option (alist_expand_to malloc zero lst)
       (alist_double (if al_alloc lst = 0 then ALIST_INITIAL_SIZE else ucast (al_alloc lst))
          min_alloc)"

definition alist_get_ptr :: "'a alist \<Rightarrow> u32 \<Rightarrow> int option" where
  "alist_get_ptr lst index =
     (if index \<ge> ucast (al_count lst) then None
      else Some (uint (index * ucast (al_obj_size lst))))"

definition alist_calc_index :: "'a alist \<Rightarrow> int \<Rightarrow> int" where
  "alist_calc_index lst ptr =
     (if al_count lst = 0 \<or> ptr < 0 then - 1
      else sint (word_of_int (ptr div uint (al_obj_size lst)) :: u32))"

definition alist_update_end :: "'a alist \<Rightarrow> int \<Rightarrow> 'a alist" where
  "alist_update_end lst ptr =
     (let index = alist_calc_index lst ptr
      in lst\<lparr>al_count := (if index = - 1 then 0 else word_of_int index)\<rparr>)"

definition alist_chk_ptr :: "'a alist \<Rightarrow> int \<Rightarrow> bool" where
  "alist_chk_ptr lst ptr \<longleftrightarrow>
     (let index = alist_calc_index lst ptr in 0 \<le> index \<and> index < uint (al_count lst))"

definition alist_next_ptrd :: "'a alist \<Rightarrow> int \<Rightarrow> int option" where
  "alist_next_ptrd lst ptr = alist_get_ptr lst (word_of_int (alist_calc_index lst ptr + 1))"

text \<open>
  \<open>alist_ensure_ptr\<close>: the outer option is None when the doubling loop does not end; the inner one
  is the returned pointer, NULL when memory ran out.
\<close>

definition alist_ensure_ptr ::
  "allocator \<Rightarrow> 'a \<Rightarrow> 'a alist \<Rightarrow> u32 \<Rightarrow> (int option \<times> 'a alist) option" where
  "alist_ensure_ptr malloc zero lst index =
     (let minsize = index + 1;
          expanded = (if index \<ge> ucast (al_alloc lst)
                      then alist_expand_min malloc zero lst minsize else Some (True, lst))
      in case expanded of
           None \<Rightarrow> None
         | Some (False, lst1) \<Rightarrow> Some (None, lst1)
         | Some (True, lst1) \<Rightarrow>
             Some (Some (uint (index * ucast (al_obj_size lst1))),
                   if minsize \<ge> ucast (al_count lst1)
                   then lst1\<lparr>al_count := ucast minsize\<rparr> else lst1))"

definition alist_add_placeholder ::
  "allocator \<Rightarrow> 'a \<Rightarrow> 'a alist \<Rightarrow> (int option \<times> 'a alist) option" where
  "alist_add_placeholder malloc zero lst = alist_ensure_ptr malloc zero lst (ucast (al_count lst))"

text \<open>
  \<open>alist_add_ptr\<close> copies the object over the one its pointer addresses: the object whose number
  is the pointer's byte offset divided by the object size.
\<close>

definition alist_add_ptr ::
  "allocator \<Rightarrow> 'a \<Rightarrow> 'a alist \<Rightarrow> 'a \<Rightarrow> (int option \<times> 'a alist) option" where
  "alist_add_ptr malloc zero lst obj =
     (case alist_add_placeholder malloc zero lst of
        None \<Rightarrow> None
      | Some (None, lst1) \<Rightarrow> Some (None, lst1)
      | Some (Some ptr, lst1) \<Rightarrow>
          Some (Some ptr, lst1\<lparr>al_data := (al_data lst1)[nat (ptr div uint (al_obj_size lst1)) := obj]\<rparr>))"

definition alist_uninit_move_ptr ::
  "allocator \<Rightarrow> 'a \<Rightarrow> 'a alist \<Rightarrow> 'a list option \<times> nat \<times> 'a alist" where
  "alist_uninit_move_ptr malloc zero lst =
     (if al_count lst = 0 then (None, unat (al_count lst), alist_uninit lst)
      else (Some (al_data lst), unat (al_count lst),
            snd (alist_init malloc zero (ucast (al_obj_size lst)) 0)))"

section \<open>The stored sequence and the invariant\<close>

definition alist_list :: "'a alist \<Rightarrow> 'a list" where
  "alist_list lst = take (unat (al_count lst)) (al_data lst)"

text \<open>The block holds exactly \<open>alloc\<close> objects and the objects in use are among them.\<close>

definition wf_alist :: "'a alist \<Rightarrow> bool" where
  "wf_alist lst \<longleftrightarrow> length (al_data lst) = unat (al_alloc lst) \<and>
     unat (al_count lst) \<le> unat (al_alloc lst)"

lemma length_alist_list [alist_simps]:
  "wf_alist lst \<Longrightarrow> length (alist_list lst) = unat (al_count lst)"
  by (simp add: alist_list_def wf_alist_def)

lemma wf_alist_init:
  assumes "alist_init malloc zero obj_size start_size = (True, lst)" and "unat start_size < 65536"
  shows "wf_alist lst \<and> alist_list lst = []"
  using assms
  by (auto simp: alist_init_def alist_zeroed_def wf_alist_def alist_list_def unat_ucast_mod
      split: if_splits)

subsection \<open>Growing\<close>

lemma alist_double_done: "min_alloc \<le> new_alloc \<Longrightarrow> alist_double new_alloc min_alloc = Some new_alloc"
  by (subst alist_double.simps) (simp add: leD)

text \<open>
  The doubling loop ends for every request of at most \<open>2 ^ 31\<close> objects, at the first doubling that
  is big enough.
\<close>

lemma alist_double_bound:
  assumes "new_alloc \<noteq> 0" and "unat min_alloc \<le> 2 ^ 31"
  shows "\<exists>r. alist_double new_alloc min_alloc = Some r \<and> min_alloc \<le> r \<and> new_alloc \<le> r \<and>
           (r = new_alloc \<or> unat r < 2 * unat min_alloc)"
  using assms
proof (induction "2 ^ 32 - unat new_alloc" arbitrary: new_alloc rule: less_induct)
  case less
  show ?case
  proof (cases "new_alloc < min_alloc")
    case True
    then have lt: "unat new_alloc < unat min_alloc" by (simp add: word_less_nat_alt)
    with less.prems have dbl: "unat (new_alloc * 2) = 2 * unat new_alloc"
      by (simp add: unat_word_ariths)
    have pos: "0 < unat new_alloc" using less.prems by (simp add: unat_gt_0)
    have "\<exists>r. alist_double (new_alloc * 2) min_alloc = Some r \<and> min_alloc \<le> r \<and>
        new_alloc * 2 \<le> r \<and> (r = new_alloc * 2 \<or> unat r < 2 * unat min_alloc)"
    proof (rule less.hyps)
      show "2 ^ 32 - unat (new_alloc * 2) < 2 ^ 32 - unat new_alloc"
        using dbl lt pos less.prems by simp
      show "new_alloc * 2 \<noteq> 0" using dbl pos by (metis mult_is_0 unat_0 zero_neq_numeral less_irrefl)
      show "unat min_alloc \<le> 2 ^ 31" using less.prems by simp
    qed
    then obtain r where r: "alist_double (new_alloc * 2) min_alloc = Some r" "min_alloc \<le> r"
      "new_alloc * 2 \<le> r" "r = new_alloc * 2 \<or> unat r < 2 * unat min_alloc" by blast
    have "new_alloc \<le> r" using r(3) dbl by (simp add: word_le_nat_alt)
    moreover have "unat r < 2 * unat min_alloc" using r(4) dbl lt by auto
    moreover have "alist_double new_alloc min_alloc = Some r"
      using True r(1) by (subst alist_double.simps) simp
    ultimately show ?thesis using r(2) by blast
  next
    case False
    then show ?thesis by (simp add: alist_double_done not_less)
  qed
qed

text \<open>An expansion that fits the 16-bit fields keeps the sequence and the invariant.\<close>

lemma alist_expand_to_ok:
  assumes "wf_alist lst" and "alist_expand_to malloc zero lst new_alloc = (ok, lst1)"
    and "unat (al_alloc lst) \<le> unat new_alloc" and "unat new_alloc < 65536"
  shows "wf_alist lst1 \<and> alist_list lst1 = alist_list lst \<and> al_count lst1 = al_count lst \<and>
    al_obj_size lst1 = al_obj_size lst \<and>
    (ok \<longrightarrow> unat (al_alloc lst1) = unat new_alloc \<and> al_flags lst1 = al_flags lst \<and>
       take (unat (al_alloc lst)) (al_data lst1) = al_data lst) \<and>
    (\<not> ok \<longrightarrow> alist_err lst1)"
proof (cases ok)
  case True
  then have l1: "lst1 = lst\<lparr>al_data := take (unat (al_alloc lst)) (al_data lst) @
      replicate (unat new_alloc - unat (al_alloc lst)) zero, al_alloc := ucast new_alloc\<rparr>"
    using assms(2) by (auto simp: alist_expand_to_def split: if_splits)
  have u: "unat (ucast new_alloc :: u16) = unat new_alloc"
    using assms(4) by (simp add: unat_ucast_small)
  show ?thesis using True assms(1,3) by (auto simp: l1 u wf_alist_def alist_list_def)
next
  case False
  have "(al_flags lst OR 1) AND 1 = (1 :: u16)" by (auto simp: bit_eq_iff bit_simps)
  then have fail: "(al_flags lst OR ALISTF_FAIL) AND ALISTF_FAIL \<noteq> 0" by (simp add: ALISTF_FAIL_def)
  show ?thesis using False assms(1,2) fail
    by (auto simp: alist_expand_to_def wf_alist_def alist_list_def alist_err_def split: if_splits)
qed

subsection \<open>The contract the clients rely on\<close>

text \<open>
  A client that fills the block itself (as the region lists of \<open>lib/lmb.c\<close> do) only needs this:
  growing keeps the stored sequence, and a grown list is not full.
\<close>

locale growable =
  fixes view :: "'s \<Rightarrow> 'a list"
    and inv :: "'s \<Rightarrow> bool"
    and full :: "'s \<Rightarrow> bool"
    and grow :: "'s \<Rightarrow> bool \<times> 's"
    and limit :: nat
  assumes grow_keeps: "inv s \<Longrightarrow> length (view s) < limit \<Longrightarrow> full s \<Longrightarrow> grow s = (ok, s') \<Longrightarrow>
      view s' = view s \<and> inv s'"
    and grow_room: "inv s \<Longrightarrow> length (view s) < limit \<Longrightarrow> full s \<Longrightarrow> grow s = (True, s') \<Longrightarrow> \<not> full s'"
begin

definition room :: "'s \<Rightarrow> 's" where
  "room s = (if full s then snd (grow s) else s)"

lemma room_ok:
  assumes "inv s" and "length (view s) < limit" and "full s \<Longrightarrow> fst (grow s)"
  shows "inv (room s) \<and> view (room s) = view s \<and> \<not> full (room s)"
proof (cases "full s")
  case True
  obtain ok s' where g: "grow s = (ok, s')" by fastforce
  with True assms(3) have ok by simp
  with g True show ?thesis
    using grow_keeps [OF assms(1,2) True g] grow_room [OF assms(1,2) True, of s'] by (simp add: room_def)
next
  case False
  with assms show ?thesis by (simp add: room_def)
qed

end

lemma alist_expand_by_self:
  assumes "wf_alist lst" and "al_alloc lst \<noteq> 0" and "unat (al_alloc lst) < 32768"
    and "alist_expand_by malloc zero lst (ucast (al_alloc lst)) = (ok, lst1)"
  shows "wf_alist lst1 \<and> alist_list lst1 = alist_list lst \<and> al_count lst1 = al_count lst \<and>
    al_alloc lst1 \<noteq> 0 \<and> (ok \<longrightarrow> unat (al_alloc lst1) = 2 * unat (al_alloc lst) \<and> al_flags lst1 = al_flags lst)"
proof -
  let ?n = "ucast (al_alloc lst) + ucast (al_alloc lst) :: u32"
  have u: "unat (ucast (al_alloc lst) :: u32) = unat (al_alloc lst)"
    by simp
  have n: "unat ?n = 2 * unat (al_alloc lst)" using assms(3) u by (subst unat_add_less) auto
  have e: "alist_expand_to malloc zero lst ?n = (ok, lst1)"
    using assms(4) by (simp add: alist_expand_by_def)
  have r: "wf_alist lst1 \<and> alist_list lst1 = alist_list lst \<and> al_count lst1 = al_count lst \<and>
      (ok \<longrightarrow> unat (al_alloc lst1) = unat ?n \<and> al_flags lst1 = al_flags lst)"
    using alist_expand_to_ok [OF assms(1) e] n assms(3) by simp
  have "al_alloc lst1 \<noteq> 0"
  proof (cases ok)
    case True
    then have "unat (al_alloc lst1) = 2 * unat (al_alloc lst)" using r n by simp
    moreover have "0 < unat (al_alloc lst)" using assms(2) by (simp add: unat_gt_0)
    ultimately show ?thesis by auto
  next
    case False
    then show ?thesis using e assms(2) by (auto simp: alist_expand_to_def split: if_splits)
  qed
  with r n show ?thesis by simp
qed

interpretation al: growable alist_list "\<lambda>lst. wf_alist lst \<and> al_alloc lst \<noteq> 0" alist_full
  "\<lambda>lst. alist_expand_by malloc zero lst (ucast (al_alloc lst))" 32768
  for malloc zero
proof (unfold_locales, goal_cases)
  case (1 s ok s')
  then have "unat (al_alloc s) < 32768" by (simp add: alist_full_def length_alist_list)
  with 1 show ?case using alist_expand_by_self [of s malloc zero ok s'] by simp
next
  case (2 s s')
  then have lt: "unat (al_alloc s) < 32768" by (simp add: alist_full_def length_alist_list)
  have pos: "0 < unat (al_alloc s)" using 2 by (simp add: unat_gt_0)
  have "al_count s' = al_count s" and dbl: "unat (al_alloc s') = 2 * unat (al_alloc s)"
    using alist_expand_by_self [of s malloc zero True s'] 2 lt by auto
  then have "unat (al_count s') = unat (al_alloc s)" using 2(3) by (simp add: alist_full_def)
  then have "unat (al_count s') \<noteq> unat (al_alloc s')" using dbl pos by linarith
  then show ?case by (auto simp: alist_full_def)
qed

section \<open>Addressing and adding objects\<close>

lemma alist_expand_min_ok:
  assumes "wf_alist lst" and "unat min_alloc \<le> 32768"
  shows "\<exists>ok lst1. alist_expand_min malloc zero lst min_alloc = Some (ok, lst1) \<and> wf_alist lst1 \<and>
    alist_list lst1 = alist_list lst \<and> al_count lst1 = al_count lst \<and>
    al_obj_size lst1 = al_obj_size lst \<and> (ok \<longrightarrow> unat min_alloc \<le> unat (al_alloc lst1) \<and>
      take (unat (al_alloc lst)) (al_data lst1) = al_data lst) \<and>
    (\<not> ok \<longrightarrow> alist_err lst1) \<and> ((\<forall>n. malloc n) \<and> \<not> alist_err lst \<longrightarrow> ok)"
proof -
  let ?start = "if al_alloc lst = 0 then ALIST_INITIAL_SIZE else ucast (al_alloc lst)"
  have u: "unat (ucast (al_alloc lst) :: u32) = unat (al_alloc lst)"
    by simp
  have pos: "?start \<noteq> 0"
    by (simp add: ALIST_INITIAL_SIZE_def)
  have start_ge: "unat (al_alloc lst) \<le> unat ?start" using u by simp
  have start_lt: "unat ?start < 65536"
    using u unat_u16_less [of "al_alloc lst"] by (simp add: ALIST_INITIAL_SIZE_def)
  obtain r where r: "alist_double ?start min_alloc = Some r" "min_alloc \<le> r" "?start \<le> r"
    "r = ?start \<or> unat r < 2 * unat min_alloc"
    using alist_double_bound [OF pos, of min_alloc] assms(2) by auto
  have r_lt: "unat r < 65536"
  proof (cases "r = ?start")
    case False
    then have "unat r < 2 * unat min_alloc" using r(4) by blast
    with assms(2) show ?thesis by linarith
  qed (use start_lt in simp)
  have r_ge: "unat (al_alloc lst) \<le> unat r"
    using start_ge r(3) unfolding word_le_nat_alt by linarith
  obtain ok lst1 where e: "alist_expand_to malloc zero lst r = (ok, lst1)" by fastforce
  have "alist_expand_min malloc zero lst min_alloc = Some (ok, lst1)"
    using r(1) e by (simp add: alist_expand_min_def)
  moreover have "(\<forall>n. malloc n) \<and> \<not> alist_err lst \<longrightarrow> ok"
    using e by (auto simp: alist_expand_to_def alist_err_def)
  moreover have "unat min_alloc \<le> unat r" using r(2) by (simp add: word_le_nat_alt)
  ultimately show ?thesis using alist_expand_to_ok [OF assms(1) e r_ge r_lt] by simp
qed

lemma alist_ensure_count:
  fixes index :: u32
  assumes "wf_alist lst1" and "unat index < unat (al_alloc lst1)" and "unat index < 32768"
  shows "wf_alist (if index + 1 \<ge> ucast (al_count lst1) then lst1\<lparr>al_count := ucast (index + 1)\<rparr> else lst1) \<and>
    unat (al_count (if index + 1 \<ge> ucast (al_count lst1) then lst1\<lparr>al_count := ucast (index + 1)\<rparr> else lst1)) =
      max (unat (al_count lst1)) (Suc (unat index))"
proof -
  have i: "unat (index + 1 :: u32) = Suc (unat index)"
    using assms(3) by (subst unat_add_less) auto
  have c: "unat (ucast (al_count lst1) :: u32) = unat (al_count lst1)"
    by simp
  have ic: "unat (ucast (index + 1) :: u16) = Suc (unat index)"
    using i assms(3) by (subst unat_ucast_small) auto
  show ?thesis using assms(1,2) by (auto simp: wf_alist_def word_le_nat_alt i c ic)
qed

text \<open>
  For every index below 32768, \<open>alist_ensure_ptr\<close> returns: either the pointer to the object with
  that index in a well-formed list that now reaches it and still holds every object it held, or NULL
  with the list marked as failed and its objects untouched.
\<close>

lemma alist_ensure_ptr_ok:
  assumes "wf_alist lst" and "unat index < 32768"
  shows "\<exists>p lst1. alist_ensure_ptr malloc zero lst index = Some (p, lst1) \<and> wf_alist lst1 \<and>
    (case p of
       None \<Rightarrow> alist_err lst1 \<and> alist_list lst1 = alist_list lst
     | Some ptr \<Rightarrow> ptr = uint (index * ucast (al_obj_size lst)) \<and>
         length (alist_list lst1) = max (unat (al_count lst)) (Suc (unat index)) \<and>
         take (unat (al_count lst)) (alist_list lst1) = alist_list lst) \<and>
    ((\<forall>n. malloc n) \<and> \<not> alist_err lst \<longrightarrow> p \<noteq> None)"
proof -
  have i: "unat (index + 1 :: u32) = Suc (unat index)"
    using assms(2) by (subst unat_add_less) auto
  have a: "unat (ucast (al_alloc lst) :: u32) = unat (al_alloc lst)"
    by simp
  let ?upd = "\<lambda>l. if index + 1 \<ge> ucast (al_count l) then l\<lparr>al_count := ucast (index + 1)\<rparr> else l"
  have got: "length (alist_list (?upd l)) = max (unat (al_count lst)) (Suc (unat index)) \<and>
      take (unat (al_count lst)) (alist_list (?upd l)) = alist_list lst \<and> wf_alist (?upd l)"
    if "wf_alist l" "unat index < unat (al_alloc l)" "al_count l = al_count lst"
      "alist_list l = alist_list lst" for l
    using alist_ensure_count [OF that(1,2) assms(2)] that
    by (auto simp: length_alist_list) (auto simp: alist_list_def min_def)
  show ?thesis
  proof (cases "index \<ge> ucast (al_alloc lst)")
    case True
    obtain ok l where l: "alist_expand_min malloc zero lst (index + 1) = Some (ok, l)" "wf_alist l"
      "alist_list l = alist_list lst" "al_count l = al_count lst" "al_obj_size l = al_obj_size lst"
      "ok \<Longrightarrow> Suc (unat index) \<le> unat (al_alloc l)" "\<not> ok \<Longrightarrow> alist_err l"
      "(\<forall>n. malloc n) \<and> \<not> alist_err lst \<Longrightarrow> ok"
      using alist_expand_min_ok [OF assms(1), of "index + 1" malloc zero] i assms(2) by auto
    show ?thesis
    proof (cases ok)
      case True
      then show ?thesis using l got [of l] \<open>index \<ge> ucast (al_alloc lst)\<close>
        by (simp add: alist_ensure_ptr_def Let_def)
    next
      case False
      then show ?thesis using l \<open>index \<ge> ucast (al_alloc lst)\<close>
        by (auto simp: alist_ensure_ptr_def Let_def)
    qed
  next
    case False
    then have "unat index < unat (al_alloc lst)" using a by (simp add: word_le_nat_alt)
    then show ?thesis using got [of lst] assms(1) False by (simp add: alist_ensure_ptr_def Let_def)
  qed
qed

lemma uint_index_times:
  assumes "unat count < 32768"
  shows "uint (ucast (count :: u16) * ucast (sz :: u16) :: u32) = int (unat count * unat sz)"
proof -
  have "unat count * unat sz \<le> 32768 * 65536"
    using assms unat_u16_less [of sz] by (intro mult_le_mono) auto
  then have "unat (ucast count * ucast sz :: u32) = unat count * unat sz"
    by (simp add: unat_word_ariths)
  then show ?thesis by (metis uint_nat)
qed

lemma alist_add_ptr_via_ensure:
  assumes "alist_ensure_ptr malloc zero lst (ucast (al_count lst)) = Some (Some ptr, lst1)"
  shows "alist_add_ptr malloc zero lst obj =
    Some (Some ptr, lst1\<lparr>al_data := (al_data lst1)[nat (ptr div uint (al_obj_size lst1)) := obj]\<rparr>)"
  using assms by (simp add: alist_add_ptr_def alist_add_placeholder_def)

lemma alist_ensure_obj_size:
  "alist_ensure_ptr malloc zero lst index = Some (p, lst1) \<Longrightarrow> al_obj_size lst1 = al_obj_size lst"
  by (auto simp: alist_ensure_ptr_def alist_expand_min_def alist_expand_to_def Let_def
      split: if_splits option.splits bool.splits)

text \<open>
  Adding an object to a well-formed list of fewer than 32768 objects always returns, keeps the
  list well-formed, and either appends exactly that object to the stored sequence and returns the
  pointer of its slot, or returns NULL, leaves the sequence as it was and marks the list as failed.
  NULL is not returned when the allocator grants the request and no earlier request failed.
\<close>

theorem alist_add_ptr_appends:
  assumes "wf_alist lst" and "unat (al_count lst) < 32768" and "al_obj_size lst \<noteq> 0"
  shows "\<exists>p lst1. alist_add_ptr malloc zero lst obj = Some (p, lst1) \<and> wf_alist lst1 \<and>
    (case p of
       None \<Rightarrow> alist_err lst1 \<and> alist_list lst1 = alist_list lst
     | Some ptr \<Rightarrow> ptr = int (unat (al_count lst) * unat (al_obj_size lst)) \<and>
         alist_list lst1 = alist_list lst @ [obj]) \<and>
    ((\<forall>n. malloc n) \<and> \<not> alist_err lst \<longrightarrow> p \<noteq> None)"
proof -
  have lt: "unat (ucast (al_count lst) :: u32) < 32768" using assms(2) by simp
  obtain p lst1 where e: "alist_ensure_ptr malloc zero lst (ucast (al_count lst)) = Some (p, lst1)"
    and wf: "wf_alist lst1"
    and p: "case p of None \<Rightarrow> alist_err lst1 \<and> alist_list lst1 = alist_list lst
      | Some ptr \<Rightarrow> ptr = uint (ucast (al_count lst) * ucast (al_obj_size lst) :: u32) \<and>
          length (alist_list lst1) = max (unat (al_count lst)) (Suc (unat (al_count lst))) \<and>
          take (unat (al_count lst)) (alist_list lst1) = alist_list lst"
    and g: "(\<forall>n. malloc n) \<and> \<not> alist_err lst \<longrightarrow> p \<noteq> None"
    using alist_ensure_ptr_ok [OF assms(1) lt, of malloc zero] unfolding unat_u16_to_u32 by blast
  show ?thesis
  proof (cases p)
    case None
    then show ?thesis using e wf p g by (auto simp: alist_add_ptr_def alist_add_placeholder_def)
  next
    case (Some ptr)
    have ptr: "ptr = int (unat (al_count lst) * unat (al_obj_size lst))"
      using p Some uint_index_times [OF assms(2)] by simp
    have sz: "al_obj_size lst1 = al_obj_size lst" by (rule alist_ensure_obj_size [OF e])
    have "uint (al_obj_size lst) \<noteq> 0" using assms(3) by (simp add: uint_0_iff)
    then have slot: "nat (ptr div uint (al_obj_size lst1)) = unat (al_count lst)"
      by (simp add: ptr sz)
    have len: "unat (al_count lst1) = Suc (unat (al_count lst))"
      using p Some wf by (simp add: length_alist_list)
    have "take (Suc (unat (al_count lst))) ((al_data lst1)[unat (al_count lst) := obj]) =
        alist_list lst @ [obj]"
      using p Some wf len by (auto simp: alist_list_def wf_alist_def take_Suc_conv_app_nth min_def)
    then show ?thesis
      using e wf g Some ptr slot len alist_add_ptr_via_ensure [of malloc zero lst ptr lst1 obj]
      by (auto simp: wf_alist_def alist_list_def)
  qed
qed

definition alist_example :: "nat alist" where
  "alist_example = \<lparr>al_data = [7, 8], al_obj_size = 4, al_count = 2, al_alloc = 2, al_flags = 0\<rparr>"

theorem alist_add_ptr_appends_witness:
  "wf_alist alist_example \<and> unat (al_count alist_example) < 32768 \<and> al_obj_size alist_example \<noteq> 0 \<and>
   (\<exists>ptr lst1. alist_add_ptr (\<lambda>n. True) 0 alist_example 9 = Some (Some ptr, lst1) \<and>
      alist_list lst1 = [7, 8, 9])"
proof -
  have h: "wf_alist alist_example" "unat (al_count alist_example) < 32768"
    "al_obj_size alist_example \<noteq> 0" "\<not> alist_err alist_example" "alist_list alist_example = [7, 8]"
    by (simp_all add: wf_alist_def alist_example_def alist_err_def alist_list_def)
  show ?thesis
    using alist_add_ptr_appends [OF h(1,2,3), of "\<lambda>n. True" 0 9] h by auto
qed

text \<open>
  Beyond 32768 objects the 16-bit \<open>alloc\<close> field loses the capacity: adding to a full list of
  32768 objects doubles the block to 65536 objects but records a capacity of 0, so the list is no
  longer well-formed.
\<close>

theorem alist_add_ptr_capacity_lost:
  assumes "wf_alist lst" and "unat (al_count lst) = 32768" and "alist_full lst"
    and "\<not> alist_err lst" and "\<forall>n. malloc n"
  shows "\<exists>ptr lst1. alist_add_ptr malloc zero lst obj = Some (Some ptr, lst1) \<and>
    length (al_data lst1) = 65536 \<and> al_alloc lst1 = 0 \<and> unat (al_count lst1) = 32769 \<and> \<not> wf_alist lst1"
proof -
  have c: "al_count lst = 32768" using assms(2) by (simp add: word_unat_eq_iff)
  then have a: "al_alloc lst = 32768" using assms(3) by (simp add: alist_full_def)
  have d: "alist_double 32768 32769 = Some (65536 :: u32)"
    by (subst alist_double.simps) (simp add: alist_double_done)
  have len: "length (al_data lst) = 32768" using assms(1) a by (simp add: wf_alist_def)
  have ex: "alist_expand_to malloc zero lst 65536 =
      (True, lst\<lparr>al_data := al_data lst @ replicate 32768 zero, al_alloc := 0\<rparr>)"
    using assms(4,5) a len by (simp add: alist_expand_to_def alist_err_def)
  have e: "alist_ensure_ptr malloc zero lst 32768 =
      Some (Some (uint (32768 * ucast (al_obj_size lst) :: u32)),
        lst\<lparr>al_data := al_data lst @ replicate 32768 zero, al_alloc := 0, al_count := 32769\<rparr>)"
    using a c d ex by (simp add: alist_ensure_ptr_def alist_expand_min_def)
  show ?thesis
    using e c len by (simp add: alist_add_ptr_def alist_add_placeholder_def wf_alist_def)
qed

text \<open>The witness: a full list of 32768 zero bytes.\<close>

definition alist_32k :: "nat \<Rightarrow> nat alist" where
  "alist_32k n = \<lparr>al_data = replicate n 0, al_obj_size = 1, al_count = 32768, al_alloc = 32768, al_flags = 0\<rparr>"

theorem alist_add_ptr_capacity_lost_witness:
  "wf_alist (alist_32k 32768) \<and>
   (\<exists>ptr lst1. alist_add_ptr (\<lambda>n. True) 0 (alist_32k 32768) 1 = Some (Some ptr, lst1) \<and> al_alloc lst1 = 0)"
proof -
  have h: "wf_alist (alist_32k 32768)" "unat (al_count (alist_32k 32768)) = 32768"
    "alist_full (alist_32k 32768)" "\<not> alist_err (alist_32k 32768)"
    by (simp_all add: wf_alist_def alist_32k_def alist_full_def alist_err_def)
  show ?thesis
    using alist_add_ptr_capacity_lost [OF h, of "\<lambda>n. True" 0 1] h(1) by auto
qed

lemma alist_calc_index_of_offset:
  assumes "al_count lst \<noteq> 0" and "al_obj_size lst \<noteq> 0" and "n < 65536"
  shows "alist_calc_index lst (int (n * unat (al_obj_size lst))) = int n"
proof -
  have "uint (al_obj_size lst) \<noteq> 0" using assms(2) by (simp add: uint_0_iff)
  then have "int (n * unat (al_obj_size lst)) div uint (al_obj_size lst) = int n" by simp
  moreover have "sint (word_of_int (int n) :: u32) = int n"
    using assms(3) by (subst sint_sbintrunc') (simp add: signed_take_bit_int_eq_self)
  moreover have "\<not> int (n * unat (al_obj_size lst)) < 0" by linarith
  ultimately show ?thesis using assms(1) unfolding alist_calc_index_def by presburger
qed

lemma alist_get_ptr_offset:
  assumes "unat index < unat (al_count lst)"
  shows "alist_get_ptr lst index = Some (int (unat index * unat (al_obj_size lst)))"
proof -
  have "unat index * unat (al_obj_size lst) \<le> 65535 * 65535"
    using assms unat_u16_less [of "al_count lst"] unat_u16_less [of "al_obj_size lst"]
    by (intro mult_le_mono) auto
  then have "unat (index * ucast (al_obj_size lst)) = unat index * unat (al_obj_size lst)"
    by (simp add: unat_word_ariths)
  then have "uint (index * ucast (al_obj_size lst)) = int (unat index * unat (al_obj_size lst))"
    by (metis uint_nat)
  with assms show ?thesis by (simp add: alist_get_ptr_def word_le_nat_alt)
qed

text \<open>
  The pointers a loop over the list uses agree with its indices: the pointer of an index in use
  passes \<open>alist_chk_ptr\<close>, is turned back into that index, its successor is the pointer of the next
  index (NULL at the end), and ending the list there keeps exactly the objects before it; the pointer
  just behind the last object fails the check.
\<close>

theorem alist_pointer_index_agree:
  assumes "wf_alist lst" and "al_obj_size lst \<noteq> 0" and "unat index < unat (al_count lst)"
  shows "\<exists>p. alist_get_ptr lst index = Some p \<and> alist_calc_index lst p = uint index \<and>
    alist_chk_ptr lst p \<and> alist_next_ptrd lst p = alist_get_ptr lst (index + 1) \<and>
    alist_list (alist_update_end lst p) = take (unat index) (alist_list lst) \<and>
    \<not> alist_chk_ptr lst (int (unat (al_count lst) * unat (al_obj_size lst)))"
proof -
  let ?p = "int (unat index * unat (al_obj_size lst))"
  have c: "al_count lst \<noteq> 0" using assms(3) by auto
  have i: "unat index < 65536" using assms(3) unat_u16_less [of "al_count lst"] by linarith
  have calc: "alist_calc_index lst ?p = int (unat index)"
    by (rule alist_calc_index_of_offset [OF c assms(2) i])
  have last: "alist_calc_index lst (int (unat (al_count lst) * unat (al_obj_size lst))) =
      int (unat (al_count lst))"
    by (rule alist_calc_index_of_offset [OF c assms(2) unat_u16_less])
  have "word_of_int (int (unat index) + 1) = index + 1"
    by simp
  then have nxt: "alist_next_ptrd lst ?p = alist_get_ptr lst (index + 1)"
    unfolding alist_next_ptrd_def calc by simp
  have "unat (word_of_int (int (unat index)) :: u16) = unat index"
    using i by (simp add: unat_ucast_small)
  moreover have "int (unat index) \<noteq> - 1" by linarith
  ultimately have upd: "alist_list (alist_update_end lst ?p) = take (unat index) (alist_list lst)"
    using assms(3) unfolding alist_update_end_def calc Let_def by (simp add: alist_list_def min_def)
  have chk: "alist_chk_ptr lst ?p"
    using assms(3) unfolding alist_chk_ptr_def calc Let_def uint_nat by linarith
  have chk_end: "\<not> alist_chk_ptr lst (int (unat (al_count lst) * unat (al_obj_size lst)))"
    unfolding alist_chk_ptr_def last Let_def uint_nat by linarith
  show ?thesis
    using alist_get_ptr_offset [OF assms(3)] calc [folded uint_nat] chk nxt upd chk_end by blast
qed

theorem alist_pointer_index_agree_witness:
  "wf_alist alist_example \<and> unat (1 :: u32) < unat (al_count alist_example) \<and>
   (\<exists>p. alist_get_ptr alist_example 1 = Some p \<and> alist_list (alist_update_end alist_example p) = [7])"
proof -
  have h: "wf_alist alist_example" "al_obj_size alist_example \<noteq> 0"
    "unat (1 :: u32) < unat (al_count alist_example)" "alist_list alist_example = [7, 8]"
    by (simp_all add: wf_alist_def alist_example_def alist_list_def)
  show ?thesis using alist_pointer_index_agree [OF h(1-3)] h by auto
qed

end
