(* ===== verification/Lmb_Regions.thy ===== *)
theory Lmb_Regions
  imports Alist
begin

text \<open>
  The region lists of the logical memory block allocator: the first part of \<open>lib/lmb.c\<close> (up to
  \<open>lmb_overlaps_region\<close>), on the growable list of \<^theory_text>\<open>Alist\<close>. Physical addresses and
  sizes are 64-bit words (\<open>CONFIG_PHYS_64BIT\<close>) with the source's wrap-around; array indices, which
  the source keeps in \<open>unsigned long\<close>, are natural numbers.
\<close>

section \<open>Data\<close>

type_synonym phys_addr = u64
type_synonym phys_size = u64

record lmb_region =
  lr_base :: phys_addr
  lr_size :: phys_size
  lr_flags :: u32

type_synonym lmb_regions = "lmb_region alist"

definition LMB_NONE :: u32 where "LMB_NONE = 0"
definition LMB_NOMAP :: u32 where "LMB_NOMAP = 2"
definition LMB_NOOVERWRITE :: u32 where "LMB_NOOVERWRITE = 4"
definition LMB_NONOTIFY :: u32 where "LMB_NONOTIFY = 8"

definition LMB_RGN_OVERLAP :: int where "LMB_RGN_OVERLAP = 1"
definition LMB_RGN_ADJACENT :: int where "LMB_RGN_ADJACENT = 2"

definition lmb_region_zero :: lmb_region where
  "lmb_region_zero = \<lparr>lr_base = 0, lr_size = 0, lr_flags = 0\<rparr>"

section \<open>Operations on the region array\<close>

definition lmb_addrs_overlap :: "phys_addr \<Rightarrow> phys_size \<Rightarrow> phys_addr \<Rightarrow> phys_size \<Rightarrow> bool" where
  "lmb_addrs_overlap base1 size1 base2 size2 \<longleftrightarrow>
     (let base1_end = base1 + size1 - 1;
          base2_end = base2 + size2 - 1
      in base1 \<le> base2_end \<and> base2 \<le> base1_end)"

definition lmb_addrs_adjacent :: "phys_addr \<Rightarrow> phys_size \<Rightarrow> phys_addr \<Rightarrow> phys_size \<Rightarrow> int" where
  "lmb_addrs_adjacent base1 size1 base2 size2 =
     (if base2 = base1 + size1 then 1
      else if base1 = base2 + size2 then - 1
      else 0)"

definition lmb_regions_check :: "lmb_regions \<Rightarrow> nat \<Rightarrow> nat \<Rightarrow> int" where
  "lmb_regions_check lmb_rgn_lst r1 r2 =
     (let rgn = al_data lmb_rgn_lst;
          base1 = lr_base (rgn ! r1); size1 = lr_size (rgn ! r1);
          base2 = lr_base (rgn ! r2); size2 = lr_size (rgn ! r2)
      in if lr_flags (rgn ! r1) \<noteq> lr_flags (rgn ! r2) then 0
         else if lmb_addrs_overlap base1 size1 base2 size2 then LMB_RGN_OVERLAP
         else if lmb_addrs_adjacent base1 size1 base2 size2 \<noteq> 0 then LMB_RGN_ADJACENT
         else 0)"

text \<open>
  The loop of \<open>lmb_remove_region\<close> from \<open>i\<close> up to \<open>count - 1\<close>. The function is only called with a
  nonempty list; the model does not run the loop on an empty one.
\<close>

function lmb_remove_loop :: "lmb_region list \<Rightarrow> nat \<Rightarrow> nat \<Rightarrow> lmb_region list" where
  "lmb_remove_loop rgn i n =
     (if i < n then lmb_remove_loop (rgn[i := rgn ! (i + 1)]) (i + 1) n else rgn)"
  by pat_completeness auto
termination
  by (relation "measure (\<lambda>(rgn, i, n). n - i)") auto

definition lmb_remove_region :: "lmb_regions \<Rightarrow> nat \<Rightarrow> lmb_regions" where
  "lmb_remove_region lmb_rgn_lst r =
     lmb_rgn_lst\<lparr>al_data := lmb_remove_loop (al_data lmb_rgn_lst) r (unat (al_count lmb_rgn_lst) - 1),
                 al_count := al_count lmb_rgn_lst - 1\<rparr>"

definition lmb_coalesce_regions :: "lmb_regions \<Rightarrow> nat \<Rightarrow> nat \<Rightarrow> lmb_regions" where
  "lmb_coalesce_regions lmb_rgn_lst r1 r2 =
     (let rgn = al_data lmb_rgn_lst
      in lmb_remove_region
           (lmb_rgn_lst\<lparr>al_data :=
              rgn[r1 := (rgn ! r1)\<lparr>lr_size := lr_size (rgn ! r1) + lr_size (rgn ! r2)\<rparr>]\<rparr>) r2)"

text \<open>
  The scan of \<open>lmb_resize_regions\<close>: how many regions from \<open>idx\<close> on overlap the request and which is
  the last; None when one of them has flags.
\<close>

function lmb_resize_scan ::
  "lmb_region list \<Rightarrow> nat \<Rightarrow> phys_addr \<Rightarrow> phys_size \<Rightarrow> nat \<Rightarrow> nat \<Rightarrow> nat \<Rightarrow> (nat \<times> nat) option" where
  "lmb_resize_scan rgn count base sz idx rgn_cnt idx_end =
     (if idx < count then
        if lmb_addrs_overlap base sz (lr_base (rgn ! idx)) (lr_size (rgn ! idx)) then
          if lr_flags (rgn ! idx) \<noteq> LMB_NONE then None
          else lmb_resize_scan rgn count base sz (idx + 1) (rgn_cnt + 1) idx
        else lmb_resize_scan rgn count base sz (idx + 1) rgn_cnt idx_end
      else Some (rgn_cnt, idx_end))"
  by pat_completeness auto
termination
  by (relation "measure (\<lambda>(rgn, count, base, sz, idx, rgn_cnt, idx_end). count - idx)") auto

text \<open>
  The removal loop of \<open>lmb_resize_regions\<close> for \<open>n\<close> regions. The source counts down with
  \<open>while (--rgn_cnt)\<close>; its callers pass the index of an overlapping region, so \<open>rgn_cnt\<close> is at
  least 1 there and the loop runs \<open>rgn_cnt - 1\<close> times.
\<close>

primrec lmb_remove_times :: "nat \<Rightarrow> lmb_regions \<Rightarrow> nat \<Rightarrow> lmb_regions" where
  "lmb_remove_times 0 lmb_rgn_lst r = lmb_rgn_lst"
| "lmb_remove_times (Suc n) lmb_rgn_lst r = lmb_remove_times n (lmb_remove_region lmb_rgn_lst r) r"

definition lmb_resize_regions ::
  "lmb_regions \<Rightarrow> nat \<Rightarrow> phys_addr \<Rightarrow> phys_size \<Rightarrow> int \<times> lmb_regions" where
  "lmb_resize_regions lmb_rgn_lst idx_start base sz =
     (let rgn = al_data lmb_rgn_lst
      in case lmb_resize_scan rgn (unat (al_count lmb_rgn_lst)) base sz idx_start 0 idx_start of
           None \<Rightarrow> (- 1, lmb_rgn_lst)
         | Some (rgn_cnt, idx_end) \<Rightarrow>
             (let rgnbase = lr_base (rgn ! idx_start);
                  mergebase = min base rgnbase;
                  rgnend = lr_base (rgn ! idx_end) + lr_size (rgn ! idx_end);
                  mergeend = max rgnend (base + sz);
                  rgn1 = rgn[idx_start := (rgn ! idx_start)\<lparr>lr_base := mergebase,
                                                             lr_size := mergeend - mergebase\<rparr>]
              in (0, lmb_remove_times (rgn_cnt - 1) (lmb_rgn_lst\<lparr>al_data := rgn1\<rparr>) (idx_start + 1))))"

text \<open>
  The first loop of \<open>lmb_add_region_flags\<close>: the index it stops at, how often it coalesced, and the
  list; None when \<open>lmb_resize_regions\<close> failed.
\<close>

function lmb_add_scan ::
  "lmb_regions \<Rightarrow> phys_addr \<Rightarrow> phys_size \<Rightarrow> u32 \<Rightarrow> nat \<Rightarrow> (nat \<times> nat \<times> lmb_regions) option" where
  "lmb_add_scan lmb_rgn_lst base sz flags i =
     (if i < unat (al_count lmb_rgn_lst) then
        let rgn = al_data lmb_rgn_lst;
            rgnbase = lr_base (rgn ! i);
            rgnsize = lr_size (rgn ! i);
            rgnflags = lr_flags (rgn ! i);
            ret = lmb_addrs_adjacent base sz rgnbase rgnsize
        in if ret > 0 then
             if flags \<noteq> rgnflags then Some (i, 0, lmb_rgn_lst)
             else Some (i, 1, lmb_rgn_lst\<lparr>al_data :=
                    rgn[i := (rgn ! i)\<lparr>lr_base := rgnbase - sz, lr_size := rgnsize + sz\<rparr>]\<rparr>)
           else if ret < 0 then
             if flags \<noteq> rgnflags then lmb_add_scan lmb_rgn_lst base sz flags (i + 1)
             else Some (i, 1, lmb_rgn_lst\<lparr>al_data :=
                    rgn[i := (rgn ! i)\<lparr>lr_size := rgnsize + sz\<rparr>]\<rparr>)
           else if lmb_addrs_overlap base sz rgnbase rgnsize then
             (case lmb_resize_regions lmb_rgn_lst i base sz of
                (r, lst1) \<Rightarrow> if r < 0 then None else Some (i, 1, lst1))
           else lmb_add_scan lmb_rgn_lst base sz flags (i + 1)
      else Some (i, 0, lmb_rgn_lst))"
  by pat_completeness auto
termination
  by (relation "measure (\<lambda>(lst, base, sz, flags, i). unat (al_count lst) - i)") auto

text \<open>The insertion loop, which shifts the regions above the new one up by one slot.\<close>

fun lmb_insert_loop :: "lmb_region list \<Rightarrow> nat \<Rightarrow> lmb_region \<Rightarrow> lmb_region list" where
  "lmb_insert_loop rgn 0 new = rgn[0 := new]"
| "lmb_insert_loop rgn (Suc j) new =
     (if lr_base new < lr_base (rgn ! j) then lmb_insert_loop (rgn[Suc j := rgn ! j]) j new
      else rgn[Suc j := new])"

definition lmb_add_region_flags ::
  "allocator \<Rightarrow> lmb_regions \<Rightarrow> phys_addr \<Rightarrow> phys_size \<Rightarrow> u32 \<Rightarrow> int \<times> lmb_regions" where
  "lmb_add_region_flags malloc lmb_rgn_lst base sz flags =
     (if alist_err lmb_rgn_lst then (- 1, lmb_rgn_lst)
      else case lmb_add_scan lmb_rgn_lst base sz flags 0 of
        None \<Rightarrow> (- 1, lmb_rgn_lst)
      | Some (i, coalesced, lst1) \<Rightarrow>
          let second =
            (if al_count lst1 \<noteq> 0 \<and> i + 1 < unat (al_count lst1) then
               let ret = lmb_regions_check lst1 i (i + 1)
               in if ret = LMB_RGN_ADJACENT then (0, coalesced + 1, lmb_coalesce_regions lst1 i (i + 1))
                  else if ret = LMB_RGN_OVERLAP then
                    case lmb_resize_regions lst1 i (lr_base (al_data lst1 ! i)) (lr_size (al_data lst1 ! i)) of
                      (r, lst2) \<Rightarrow> (r, coalesced + 1, lst2)
                  else (0, coalesced, lst1)
             else (0, coalesced, lst1))
          in case second of (r, coalesced1, lst2) \<Rightarrow>
               if r < 0 then (- 1, lst2)
               else if coalesced1 \<noteq> 0 then (0, lst2)
               else case (if alist_full lst2
                          then alist_expand_by malloc lmb_region_zero lst2 (ucast (al_alloc lst2))
                          else (True, lst2)) of
                      (ok, lst3) \<Rightarrow>
                        if \<not> ok then (- 1, lst3)
                        else (0, lst3\<lparr>al_data := lmb_insert_loop (al_data lst3) (unat (al_count lst3))
                                        \<lparr>lr_base = base, lr_size = sz, lr_flags = flags\<rparr>,
                                      al_count := al_count lst3 + 1\<rparr>))"

text \<open>The index of the first region that contains the whole block, as the search of \<open>_lmb_free\<close> finds it.\<close>

function lmb_free_find :: "lmb_region list \<Rightarrow> nat \<Rightarrow> phys_addr \<Rightarrow> phys_addr \<Rightarrow> nat \<Rightarrow> nat" where
  "lmb_free_find rgn count base end_addr i =
     (if i < count then
        let rgnbegin = lr_base (rgn ! i);
            rgnend = rgnbegin + lr_size (rgn ! i) - 1
        in if rgnbegin \<le> base \<and> end_addr \<le> rgnend then i
           else lmb_free_find rgn count base end_addr (i + 1)
      else i)"
  by pat_completeness auto
termination
  by (relation "measure (\<lambda>(rgn, count, base, end_addr, i). count - i)") auto

definition lmb_free_region ::
  "allocator \<Rightarrow> lmb_regions \<Rightarrow> phys_addr \<Rightarrow> phys_size \<Rightarrow> int \<times> lmb_regions" where
  "lmb_free_region malloc lmb_rgn_lst base sz =
     (let rgn = al_data lmb_rgn_lst;
          end_addr = base + sz - 1;
          i = lmb_free_find rgn (unat (al_count lmb_rgn_lst)) base end_addr 0;
          rgnbegin = lr_base (rgn ! i);
          rgnend = rgnbegin + lr_size (rgn ! i) - 1
      in if i = unat (al_count lmb_rgn_lst) then (- 1, lmb_rgn_lst)
         else if rgnbegin = base \<and> rgnend = end_addr then (0, lmb_remove_region lmb_rgn_lst i)
         else if rgnbegin = base then
           (0, lmb_rgn_lst\<lparr>al_data := rgn[i := (rgn ! i)\<lparr>lr_base := end_addr + 1,
                                                           lr_size := lr_size (rgn ! i) - sz\<rparr>]\<rparr>)
         else if rgnend = end_addr then
           (0, lmb_rgn_lst\<lparr>al_data := rgn[i := (rgn ! i)\<lparr>lr_size := lr_size (rgn ! i) - sz\<rparr>]\<rparr>)
         else lmb_add_region_flags malloc
                (lmb_rgn_lst\<lparr>al_data := rgn[i := (rgn ! i)\<lparr>lr_size := base - lr_base (rgn ! i)\<rparr>]\<rparr>)
                (end_addr + 1) (rgnend - end_addr) (lr_flags (rgn ! i)))"

text \<open>The index of the first region that overlaps the block; None stands for \<open>-1\<close>.\<close>

function lmb_overlaps_loop :: "lmb_region list \<Rightarrow> nat \<Rightarrow> phys_addr \<Rightarrow> phys_size \<Rightarrow> nat \<Rightarrow> nat" where
  "lmb_overlaps_loop rgn count base sz i =
     (if i < count then
        if lmb_addrs_overlap base sz (lr_base (rgn ! i)) (lr_size (rgn ! i)) then i
        else lmb_overlaps_loop rgn count base sz (i + 1)
      else i)"
  by pat_completeness auto
termination
  by (relation "measure (\<lambda>(rgn, count, base, sz, i). count - i)") auto

definition lmb_overlaps_region :: "lmb_regions \<Rightarrow> phys_addr \<Rightarrow> phys_size \<Rightarrow> nat option" where
  "lmb_overlaps_region lmb_rgn_lst base sz =
     (let i = lmb_overlaps_loop (al_data lmb_rgn_lst) (unat (al_count lmb_rgn_lst)) base sz 0
      in if i < unat (al_count lmb_rgn_lst) then Some i else None)"

declare lmb_remove_loop.simps [simp del] lmb_resize_scan.simps [simp del]
  lmb_add_scan.simps [simp del] lmb_free_find.simps [simp del] lmb_overlaps_loop.simps [simp del]

end
