(* ===== verification/Lmb_Effects.thy ===== *)
theory Lmb_Effects
  imports Lmb_Regions
begin

text \<open>
  What the region-array operations of \<^theory_text>\<open>Lmb_Regions\<close> do to the sequence of regions in
  use, and what that sequence means: the invariant of a region list, and the map from addresses to
  flags it stands for.
\<close>

section \<open>Meaning of a region list\<close>

definition region_end :: "lmb_region \<Rightarrow> nat" where
  "region_end r = unat (lr_base r) + unat (lr_size r)"

text \<open>A region is not empty and ends below the top of the address space.\<close>

definition wf_region :: "lmb_region \<Rightarrow> bool" where
  "wf_region r \<longleftrightarrow> lr_size r \<noteq> 0 \<and> region_end r < 2 ^ 64"

definition in_region :: "lmb_region \<Rightarrow> nat \<Rightarrow> bool" where
  "in_region r a \<longleftrightarrow> unat (lr_base r) \<le> a \<and> a < region_end r"

text \<open>The regions are well-formed, disjoint and sorted by address.\<close>

definition wf_regions :: "lmb_region list \<Rightarrow> bool" where
  "wf_regions rs \<longleftrightarrow> (\<forall>r \<in> set rs. wf_region r) \<and>
     sorted_wrt (\<lambda>r s. region_end r \<le> unat (lr_base s)) rs"

text \<open>No two regions with the same flags touch.\<close>

definition coalesced :: "lmb_region list \<Rightarrow> bool" where
  "coalesced rs \<longleftrightarrow>
     sorted_wrt (\<lambda>r s. region_end r = unat (lr_base s) \<longrightarrow> lr_flags r \<noteq> lr_flags s) rs"

text \<open>The map from addresses to flags that a region list stands for.\<close>

primrec flags_at :: "lmb_region list \<Rightarrow> nat \<Rightarrow> u32 option" where
  "flags_at [] a = None"
| "flags_at (r # rs) a = (if in_region r a then Some (lr_flags r) else flags_at rs a)"

text \<open>The map after a block has been given flags, and after it has been taken out.\<close>

definition cover :: "nat \<Rightarrow> nat \<Rightarrow> u32 \<Rightarrow> (nat \<Rightarrow> u32 option) \<Rightarrow> nat \<Rightarrow> u32 option" where
  "cover lo hi f m = (\<lambda>a. if lo \<le> a \<and> a < hi then Some f else m a)"

definition uncover :: "nat \<Rightarrow> nat \<Rightarrow> (nat \<Rightarrow> u32 option) \<Rightarrow> nat \<Rightarrow> u32 option" where
  "uncover lo hi m = (\<lambda>a. if lo \<le> a \<and> a < hi then None else m a)"

subsection \<open>Facts on the meaning\<close>

lemma flags_at_append:
  "flags_at (xs @ ys) a = (case flags_at xs a of None \<Rightarrow> flags_at ys a | Some f \<Rightarrow> Some f)"
  by (induction xs) auto

lemma flags_at_None_iff: "flags_at rs a = None \<longleftrightarrow> (\<forall>r \<in> set rs. \<not> in_region r a)"
  by (induction rs) auto

lemma wf_region_end: "wf_region r \<Longrightarrow> unat (lr_base r) < region_end r"
  by (simp add: wf_region_def region_end_def unat_gt_0)

lemma below_base: "wf_region r \<Longrightarrow> region_end r \<le> n \<Longrightarrow> unat (lr_base r) < n"
  using wf_region_end [of r] by linarith

lemma above_end: "wf_region r \<Longrightarrow> n \<le> unat (lr_base r) \<Longrightarrow> n < region_end r"
  using wf_region_end [of r] by linarith

lemma wf_regions_append:
  "wf_regions (xs @ ys) \<longleftrightarrow> wf_regions xs \<and> wf_regions ys \<and>
     (\<forall>x \<in> set xs. \<forall>y \<in> set ys. region_end x \<le> unat (lr_base y))"
  by (auto simp: wf_regions_def sorted_wrt_append)

lemma wf_regions_Cons:
  "wf_regions (x # ys) \<longleftrightarrow> wf_region x \<and> wf_regions ys \<and>
     (\<forall>y \<in> set ys. region_end x \<le> unat (lr_base y))"
  by (auto simp: wf_regions_def)

lemma wf_regions_Nil [simp]: "wf_regions []"
  by (simp add: wf_regions_def)

lemma coalesced_append:
  "coalesced (xs @ ys) \<longleftrightarrow> coalesced xs \<and> coalesced ys \<and>
     (\<forall>x \<in> set xs. \<forall>y \<in> set ys. region_end x = unat (lr_base y) \<longrightarrow> lr_flags x \<noteq> lr_flags y)"
  by (auto simp: coalesced_def sorted_wrt_append)

lemma coalesced_Cons:
  "coalesced (x # ys) \<longleftrightarrow> coalesced ys \<and>
     (\<forall>y \<in> set ys. region_end x = unat (lr_base y) \<longrightarrow> lr_flags x \<noteq> lr_flags y)"
  by (auto simp: coalesced_def)

lemma coalesced_Nil [simp]: "coalesced []"
  by (simp add: coalesced_def)

lemmas regions_append = wf_regions_append coalesced_append wf_regions_Cons coalesced_Cons

lemma wf_regions_set: "wf_regions rs \<Longrightarrow> r \<in> set rs \<Longrightarrow> wf_region r"
  by (simp add: wf_regions_def)

lemma flags_at_in:
  "wf_regions rs \<Longrightarrow> r \<in> set rs \<Longrightarrow> in_region r a \<Longrightarrow> flags_at rs a = Some (lr_flags r)"
proof (induction rs)
  case (Cons x xs)
  show ?case
  proof (cases "r = x")
    case False
    with Cons.prems have "r \<in> set xs" "region_end x \<le> unat (lr_base r)"
      by (auto simp: wf_regions_Cons)
    with Cons show ?thesis by (auto simp: in_region_def wf_regions_Cons)
  qed (use Cons.prems in simp)
qed simp

section \<open>Machine tests against the meaning\<close>

lemma lmb_addrs_overlap_iff:
  assumes "wf_region r" and "sz \<noteq> 0" and "unat base + unat sz \<le> 2 ^ 64"
  shows "lmb_addrs_overlap base sz (lr_base r) (lr_size r) \<longleftrightarrow>
    unat base < region_end r \<and> unat (lr_base r) < unat base + unat sz"
proof -
  have r: "unat (lr_base r + lr_size r - 1) = region_end r - 1"
    using assms(1) by (subst unat_last_byte) (auto simp: wf_region_def region_end_def)
  have n: "unat (base + sz - 1) = unat base + unat sz - 1"
    using assms(2,3) by (subst unat_last_byte) auto
  have pos: "0 < region_end r" "0 < unat sz"
    using wf_region_end [OF assms(1)] assms(2) unat_gt_0 [of sz] by (linarith, blast)
  show ?thesis unfolding lmb_addrs_overlap_def Let_def word_le_nat_alt r n using pos by auto
qed

lemma lmb_addrs_adjacent_cases:
  assumes "wf_region r" and "sz \<noteq> 0" and "unat base + unat sz < 2 ^ 64"
  shows "lmb_addrs_adjacent base sz (lr_base r) (lr_size r) =
    (if unat (lr_base r) = unat base + unat sz then 1
     else if unat base = region_end r then - 1 else 0)"
proof -
  have "unat (base + sz) = unat base + unat sz" using assms(3) by simp
  moreover have "unat (lr_base r + lr_size r) = region_end r"
    using assms(1) by (simp add: wf_region_def region_end_def)
  ultimately show ?thesis by (simp add: lmb_addrs_adjacent_def word_unat_eq_iff)
qed

section \<open>Operations on the sequence of regions\<close>

lemma lmb_remove_loop_eq:
  assumes "i \<le> n" and "n < length rgn"
  shows "lmb_remove_loop rgn i n = take i rgn @ take (n - i) (drop (Suc i) rgn) @ drop n rgn"
  using assms
proof (induction rgn i n rule: lmb_remove_loop.induct)
  case (1 rgn i n)
  show ?case
  proof (cases "i < n")
    case True
    let ?rgn = "rgn[i := rgn ! (i + 1)]"
    have "lmb_remove_loop rgn i n = lmb_remove_loop ?rgn (i + 1) n"
      using True by (subst lmb_remove_loop.simps) simp
    also have "\<dots> = take (i + 1) ?rgn @ take (n - (i + 1)) (drop (Suc (i + 1)) ?rgn) @ drop n ?rgn"
      using 1 True by simp
    also have "take (i + 1) ?rgn = take i rgn @ [rgn ! Suc i]"
      using True 1(3) by (simp add: take_Suc_conv_app_nth)
    also have "drop n ?rgn = drop n rgn" using True by simp
    also have "drop (Suc (i + 1)) ?rgn = drop (Suc (Suc i)) rgn" by simp
    finally have "lmb_remove_loop rgn i n =
        take i rgn @ rgn ! Suc i # take (n - Suc i) (drop (Suc (Suc i)) rgn) @ drop n rgn" by simp
    moreover have "take (n - i) (drop (Suc i) rgn) =
        rgn ! Suc i # take (n - Suc i) (drop (Suc (Suc i)) rgn)"
      using True 1(3) by (metis Cons_nth_drop_Suc Suc_diff_Suc Suc_lessI less_trans take_Suc_Cons)
    ultimately show ?thesis by simp
  next
    case False
    with 1 show ?thesis by (subst lmb_remove_loop.simps) simp
  qed
qed

lemma unat_minus_1_u16: "(c :: u16) \<noteq> 0 \<Longrightarrow> unat (c - 1) = unat c - 1"
  by (simp add: unat_diff_le unat_gt_0 Suc_leI)

text \<open>What one operation keeps of the list besides its regions.\<close>

definition same_store :: "lmb_regions \<Rightarrow> lmb_regions \<Rightarrow> bool" where
  "same_store lst1 lst \<longleftrightarrow> al_alloc lst1 = al_alloc lst \<and> al_flags lst1 = al_flags lst \<and>
     al_obj_size lst1 = al_obj_size lst \<and> wf_alist lst1"

lemma same_store_trans: "same_store c b \<Longrightarrow> same_store b a \<Longrightarrow> same_store c a"
  by (simp add: same_store_def)

lemma same_store_wf [simp]: "same_store lst1 lst \<Longrightarrow> wf_alist lst1"
  by (simp add: same_store_def)

lemma lmb_remove_region_effect [lmb_simps]:
  assumes "wf_alist lst" and "r < length (alist_list lst)"
  shows "alist_list (lmb_remove_region lst r) = remove_nth r (alist_list lst) \<and>
    same_store (lmb_remove_region lst r) lst"
proof -
  let ?n = "unat (al_count lst) - 1"
  have len: "length (alist_list lst) = unat (al_count lst)" by (rule length_alist_list [OF assms(1)])
  with assms(2) have c0: "al_count lst \<noteq> 0" and rn: "r \<le> ?n" by auto
  have n: "?n < length (al_data lst)" using assms(1) c0 unat_gt_0 [of "al_count lst"] by (auto simp: wf_alist_def)
  have loop: "lmb_remove_loop (al_data lst) r ?n =
      take r (al_data lst) @ take (?n - r) (drop (Suc r) (al_data lst)) @ drop ?n (al_data lst)"
    by (rule lmb_remove_loop_eq [OF rn n])
  have cnt: "unat (al_count lst - 1) = ?n" using c0 by (rule unat_minus_1_u16)
  have "take ?n (lmb_remove_loop (al_data lst) r ?n) = remove_nth r (alist_list lst)"
    using rn n unfolding loop remove_nth_def alist_list_def by (auto simp: min_def drop_take)
  then have "alist_list (lmb_remove_region lst r) = remove_nth r (alist_list lst)"
    by (simp add: lmb_remove_region_def alist_list_def cnt)
  moreover have "length (lmb_remove_loop (al_data lst) r ?n) = length (al_data lst)"
    unfolding loop using rn n by auto
  ultimately show ?thesis
    using assms(1) cnt by (auto simp: same_store_def lmb_remove_region_def wf_alist_def)
qed

text \<open>Overwriting a region in use.\<close>

lemma alist_list_update [lmb_simps]:
  assumes "wf_alist lst"
  shows "alist_list (lst\<lparr>al_data := (al_data lst)[i := x]\<rparr>) = (alist_list lst)[i := x] \<and>
    same_store (lst\<lparr>al_data := (al_data lst)[i := x]\<rparr>) lst"
  using assms by (simp add: alist_list_def same_store_def wf_alist_def take_update_swap)

lemma alist_nth [lmb_simps]: "i < length (alist_list lst) \<Longrightarrow> al_data lst ! i = alist_list lst ! i"
  by (simp add: alist_list_def)

lemma lmb_coalesce_regions_effect [lmb_simps]:
  assumes "wf_alist lst" and "r1 < length (alist_list lst)" and "r2 < length (alist_list lst)"
  shows "alist_list (lmb_coalesce_regions lst r1 r2) = remove_nth r2 ((alist_list lst)[r1 :=
      (alist_list lst ! r1)\<lparr>lr_size := lr_size (alist_list lst ! r1) + lr_size (alist_list lst ! r2)\<rparr>]) \<and>
    same_store (lmb_coalesce_regions lst r1 r2) lst"
proof -
  let ?r = "(al_data lst ! r1)\<lparr>lr_size := lr_size (al_data lst ! r1) + lr_size (al_data lst ! r2)\<rparr>"
  let ?lst = "lst\<lparr>al_data := (al_data lst)[r1 := ?r]\<rparr>"
  have u: "alist_list ?lst = (alist_list lst)[r1 := ?r]" "same_store ?lst lst"
    using alist_list_update [OF assms(1)] by auto
  have "alist_list (lmb_remove_region ?lst r2) = remove_nth r2 (alist_list ?lst) \<and>
      same_store (lmb_remove_region ?lst r2) ?lst"
    using u assms(3) by (intro lmb_remove_region_effect) auto
  moreover have "lmb_coalesce_regions lst r1 r2 = lmb_remove_region ?lst r2"
    by (simp add: lmb_coalesce_regions_def Let_def)
  ultimately show ?thesis using u assms(2,3) by (auto simp: alist_nth intro: same_store_trans)
qed

lemma lmb_remove_times_effect [lmb_simps]:
  assumes "wf_alist lst" and "r + n \<le> length (alist_list lst)"
  shows "alist_list (lmb_remove_times n lst r) =
      take r (alist_list lst) @ drop (r + n) (alist_list lst) \<and> same_store (lmb_remove_times n lst r) lst"
  using assms
proof (induction n arbitrary: lst)
  case 0
  then show ?case by (simp add: same_store_def)
next
  case (Suc n)
  have one: "alist_list (lmb_remove_region lst r) = remove_nth r (alist_list lst)"
    "same_store (lmb_remove_region lst r) lst"
    using lmb_remove_region_effect [of lst r] Suc.prems by auto
  have ih: "alist_list (lmb_remove_times n (lmb_remove_region lst r) r) =
      take r (remove_nth r (alist_list lst)) @ drop (r + n) (remove_nth r (alist_list lst)) \<and>
      same_store (lmb_remove_times n (lmb_remove_region lst r) r) (lmb_remove_region lst r)"
    using Suc.IH [of "lmb_remove_region lst r"] one Suc.prems by simp
  have "take r (remove_nth r (alist_list lst)) = take r (alist_list lst)"
    "drop (r + n) (remove_nth r (alist_list lst)) = drop (r + Suc n) (alist_list lst)"
    using Suc.prems by (auto simp: remove_nth_def add.commute)
  with ih one show ?case by (auto intro: same_store_trans)
qed

lemma lmb_insert_loop_eq:
  assumes "i < length rgn"
  shows "\<exists>k \<le> i. lmb_insert_loop rgn i new = take k rgn @ new # drop k (take i rgn) @ drop (Suc i) rgn \<and>
    (\<forall>j. k \<le> j \<and> j < i \<longrightarrow> lr_base new < lr_base (rgn ! j)) \<and>
    (0 < k \<longrightarrow> \<not> lr_base new < lr_base (rgn ! (k - 1)))"
  using assms
proof (induction rgn i new rule: lmb_insert_loop.induct)
  case (1 rgn new)
  then show ?case by (cases rgn) auto
next
  case (2 rgn j new)
  show ?case
  proof (cases "lr_base new < lr_base (rgn ! j)")
    case True
    let ?rgn = "rgn[Suc j := rgn ! j]"
    have "\<exists>k \<le> j. lmb_insert_loop ?rgn j new = take k ?rgn @ new # drop k (take j ?rgn) @ drop (Suc j) ?rgn \<and>
        (\<forall>i. k \<le> i \<and> i < j \<longrightarrow> lr_base new < lr_base (?rgn ! i)) \<and>
        (0 < k \<longrightarrow> \<not> lr_base new < lr_base (?rgn ! (k - 1)))"
      using 2 True by simp
    then obtain k where k: "k \<le> j"
      "lmb_insert_loop ?rgn j new = take k ?rgn @ new # drop k (take j ?rgn) @ drop (Suc j) ?rgn"
      "\<forall>i. k \<le> i \<and> i < j \<longrightarrow> lr_base new < lr_base (?rgn ! i)"
      "0 < k \<longrightarrow> \<not> lr_base new < lr_base (?rgn ! (k - 1))" by blast
    have d: "drop (Suc j) ?rgn = rgn ! j # drop (Suc (Suc j)) rgn"
      using 2(2) by (metis Cons_nth_drop_Suc drop_update_cancel length_list_update lessI nth_list_update_eq)
    have t: "drop k (take (Suc j) rgn) = drop k (take j rgn) @ [rgn ! j]"
      using 2(2) k(1) by (simp add: take_Suc_conv_app_nth)
    have "lmb_insert_loop rgn (Suc j) new =
        take k rgn @ new # drop k (take (Suc j) rgn) @ drop (Suc (Suc j)) rgn"
      using True k(1,2) d t by simp
    moreover have "\<forall>i. k \<le> i \<and> i < Suc j \<longrightarrow> lr_base new < lr_base (rgn ! i)"
      using k(3) True by (auto simp: less_Suc_eq nth_list_update)
    moreover have "0 < k \<longrightarrow> \<not> lr_base new < lr_base (rgn ! (k - 1))"
      using k(1,4) by (auto simp: nth_list_update)
    ultimately show ?thesis using k(1) by (intro exI [of _ k]) auto
  next
    case False
    then show ?thesis using 2(2)
      by (intro exI [of _ "Suc j"]) (auto simp: upd_conv_take_nth_drop)
  qed
qed

section \<open>Merging overlapping regions\<close>

lemma lmb_resize_scan_eq:
  assumes "idx + m \<le> count"
    and "\<And>j. idx \<le> j \<Longrightarrow> j < idx + m \<Longrightarrow>
      lmb_addrs_overlap base sz (lr_base (rgn ! j)) (lr_size (rgn ! j)) \<and> lr_flags (rgn ! j) = LMB_NONE"
    and "\<And>j. idx + m \<le> j \<Longrightarrow> j < count \<Longrightarrow>
      \<not> lmb_addrs_overlap base sz (lr_base (rgn ! j)) (lr_size (rgn ! j))"
  shows "lmb_resize_scan rgn count base sz idx c e =
    Some (c + m, if m = 0 then e else idx + m - 1)"
  using assms
proof (induction "count - idx" arbitrary: idx m c e)
  case 0
  then have "idx = count" "m = 0" by auto
  then show ?case by (subst lmb_resize_scan.simps) simp
next
  case (Suc d)
  have lt: "idx < count" using Suc.hyps by simp
  have d: "d = count - Suc idx" using Suc.hyps by simp
  show ?case
  proof (cases m)
    case 0
    have "lmb_resize_scan rgn count base sz (Suc idx) c e = Some (c + 0, if (0::nat) = 0 then e else Suc idx + 0 - 1)"
      by (rule Suc.hyps(1) [OF d]) (use Suc.prems 0 lt in auto)
    moreover have "\<not> lmb_addrs_overlap base sz (lr_base (rgn ! idx)) (lr_size (rgn ! idx))"
      using Suc.prems(3) [of idx] 0 lt by simp
    ultimately show ?thesis using 0 lt by (subst lmb_resize_scan.simps) simp
  next
    case (Suc m')
    have "lmb_resize_scan rgn count base sz (Suc idx) (c + 1) idx =
        Some (c + 1 + m', if m' = 0 then idx else Suc idx + m' - 1)"
      by (rule Suc.hyps(1) [OF d]) (use Suc.prems Suc in auto)
    moreover have "lmb_addrs_overlap base sz (lr_base (rgn ! idx)) (lr_size (rgn ! idx))"
      "lr_flags (rgn ! idx) = LMB_NONE"
      using Suc.prems(2) [of idx] Suc by auto
    ultimately show ?thesis using Suc lt by (subst lmb_resize_scan.simps) auto
  qed
qed

text \<open>The region that replaces the merged ones.\<close>

definition merged_region :: "phys_addr \<Rightarrow> phys_size \<Rightarrow> lmb_region \<Rightarrow> lmb_region \<Rightarrow> lmb_region" where
  "merged_region base sz r1 r2 =
     r1\<lparr>lr_base := min base (lr_base r1),
           lr_size := max (lr_base r2 + lr_size r2) (base + sz) - min base (lr_base r1)\<rparr>"

lemma merged_region_bounds:
  assumes "wf_region r1" and "wf_region r2" and "sz \<noteq> 0" and "unat base + unat sz < 2 ^ 64"
    and "unat (lr_base r1) < unat base + unat sz"
  shows "unat (lr_base (merged_region base sz r1 r2)) = min (unat base) (unat (lr_base r1)) \<and>
    region_end (merged_region base sz r1 r2) = max (region_end r2) (unat base + unat sz) \<and>
    lr_flags (merged_region base sz r1 r2) = lr_flags r1 \<and>
    wf_region (merged_region base sz r1 r2)"
proof -
  let ?lo = "min base (lr_base r1)"
  let ?hi = "max (lr_base r2 + lr_size r2) (base + sz)"
  have lo: "unat ?lo = min (unat base) (unat (lr_base r1))"
    by (simp add: min_def word_le_nat_alt)
  have e1: "unat (lr_base r2 + lr_size r2) = region_end r2"
    using assms(2) by (simp add: wf_region_def region_end_def)
  have e2: "unat (base + sz) = unat base + unat sz" using assms(4) by simp
  have hi: "unat ?hi = max (region_end r2) (unat base + unat sz)"
    using e1 e2 by (simp add: max_def word_le_nat_alt)
  have pos: "0 < unat sz" using assms(3) by (simp add: unat_gt_0)
  have lt: "unat ?lo < unat ?hi" using lo hi pos by auto
  have diff: "unat (?hi - ?lo) = unat ?hi - unat ?lo" using lt by (intro unat_diff_le) simp
  have ne: "?hi - ?lo \<noteq> 0" using diff lt by (metis unat_0 zero_less_diff less_irrefl)
  have "region_end r2 < 2 ^ 64" using assms(2) by (simp add: wf_region_def)
  then have top: "unat ?hi < 2 ^ 64" using hi assms(4) by simp
  have re: "region_end (merged_region base sz r1 r2) = unat ?hi"
    using diff lt by (simp add: merged_region_def region_end_def)
  show ?thesis
    using lo hi re ne top by (simp add: merged_region_def wf_region_def)
qed

lemma lmb_resize_regions_effect:
  assumes "wf_alist lst" and "0 < m" and "idx + m \<le> length (alist_list lst)"
    and "\<And>j. idx \<le> j \<Longrightarrow> j < idx + m \<Longrightarrow>
      lmb_addrs_overlap base sz (lr_base (alist_list lst ! j)) (lr_size (alist_list lst ! j)) \<and>
      lr_flags (alist_list lst ! j) = LMB_NONE"
    and "\<And>j. idx + m \<le> j \<Longrightarrow> j < length (alist_list lst) \<Longrightarrow>
      \<not> lmb_addrs_overlap base sz (lr_base (alist_list lst ! j)) (lr_size (alist_list lst ! j))"
  shows "\<exists>lst1. lmb_resize_regions lst idx base sz = (0, lst1) \<and> same_store lst1 lst \<and>
    alist_list lst1 = take idx (alist_list lst) @
      merged_region base sz (alist_list lst ! idx) (alist_list lst ! (idx + m - 1)) #
      drop (idx + m) (alist_list lst)"
proof -
  let ?rs = "alist_list lst"
  let ?X = "merged_region base sz (?rs ! idx) (?rs ! (idx + m - 1))"
  have len: "length ?rs = unat (al_count lst)" by (rule length_alist_list [OF assms(1)])
  have scan: "lmb_resize_scan (al_data lst) (unat (al_count lst)) base sz idx 0 idx =
      Some (0 + m, if m = 0 then idx else idx + m - 1)"
    by (rule lmb_resize_scan_eq) (use assms(3-5) len in \<open>auto simp: alist_nth\<close>)
  let ?lst = "lst\<lparr>al_data := (al_data lst)[idx := ?X]\<rparr>"
  have u: "alist_list ?lst = ?rs[idx := ?X]" "same_store ?lst lst"
    using alist_list_update [OF assms(1)] by auto
  have i: "idx < length ?rs" "idx + m - 1 < length ?rs" using assms(2,3) by auto
  have "lmb_resize_regions lst idx base sz = (0, lmb_remove_times (m - 1) ?lst (idx + 1))"
    using scan assms(2) alist_nth [OF i(1)] alist_nth [OF i(2)]
    by (simp add: lmb_resize_regions_def Let_def merged_region_def)
  moreover have "alist_list (lmb_remove_times (m - 1) ?lst (idx + 1)) =
      take (idx + 1) (alist_list ?lst) @ drop (idx + 1 + (m - 1)) (alist_list ?lst) \<and>
      same_store (lmb_remove_times (m - 1) ?lst (idx + 1)) ?lst"
    using u assms(2,3) by (intro lmb_remove_times_effect) auto
  moreover have "take (idx + 1) (?rs[idx := ?X]) = take idx ?rs @ [?X]"
    using i(1) by (simp add: take_Suc_conv_app_nth)
  moreover have "drop (idx + 1 + (m - 1)) (?rs[idx := ?X]) = drop (idx + m) ?rs" using assms(2) by simp
  ultimately show ?thesis using u by (auto intro: same_store_trans)
qed

lemma wf_regions_hd: "wf_regions M \<Longrightarrow> r \<in> set M \<Longrightarrow> unat (lr_base (hd M)) \<le> unat (lr_base r)"
  by (cases M) (auto simp: wf_regions_Cons intro: less_imp_le below_base)

lemma wf_regions_last: "wf_regions M \<Longrightarrow> r \<in> set M \<Longrightarrow> region_end r \<le> region_end (last M)"
  by (cases M rule: rev_cases)
    (auto simp: wf_regions_append wf_regions_Cons intro: less_imp_le above_end)

text \<open>The meaning of a merge, for a list split into the regions below, overlapping and above the block.\<close>

lemma merge_meaning:
  assumes wf: "wf_regions (L @ M @ R)" and "M \<noteq> []"
    and M: "\<forall>r \<in> set M. lo < region_end r \<and> unat (lr_base r) < hi \<and> lr_flags r = f"
    and L: "\<forall>r \<in> set L. region_end r \<le> lo" and R: "\<forall>r \<in> set R. hi \<le> unat (lr_base r)"
    and X: "wf_region X" "lr_flags X = f" "unat (lr_base X) = min lo (unat (lr_base (hd M)))"
      "region_end X = max (region_end (last M)) hi"
  shows "wf_regions (L @ X # R) \<and> flags_at (L @ X # R) = cover lo hi f (flags_at (L @ M @ R))"
proof
  have hdM: "hd M \<in> set M" and lastM: "last M \<in> set M" using assms(2) by auto
  have wfM: "wf_regions M" using wf by (simp add: wf_regions_append)
  have LX: "region_end r \<le> unat (lr_base X)" if "r \<in> set L" for r
    using wf hdM L X(3) that by (auto simp: wf_regions_append)
  have XR: "region_end X \<le> unat (lr_base r)" if "r \<in> set R" for r
    using wf lastM R X(4) that by (auto simp: wf_regions_append)
  show wf': "wf_regions (L @ X # R)"
    using wf X(1) LX XR by (auto simp: wf_regions_append wf_regions_Cons)
  have inX: "in_region X a" if "r \<in> set M" "in_region r a" for r a
    using wf_regions_hd [OF wfM that(1)] wf_regions_last [OF wfM that(1)] X(3,4) that(2)
    by (auto simp: in_region_def)
  have Xin: "(lo \<le> a \<and> a < hi) \<or> in_region (hd M) a \<or> in_region (last M) a" if "in_region X a" for a
    using that M hdM lastM X(3,4) by (fastforce simp: in_region_def)
  show "flags_at (L @ X # R) = cover lo hi f (flags_at (L @ M @ R))"
  proof
    fix a
    show "flags_at (L @ X # R) a = cover lo hi f (flags_at (L @ M @ R)) a"
    proof (cases "in_region X a")
      case True
      have "flags_at (L @ X # R) a = Some f"
        using flags_at_in [OF wf' _ True] X(2) by simp
      moreover have "flags_at (L @ M @ R) a = Some f" if "\<not> (lo \<le> a \<and> a < hi)"
        using Xin [OF True] that flags_at_in [OF wf, of "hd M" a] flags_at_in [OF wf, of "last M" a]
          hdM lastM M by auto
      ultimately show ?thesis by (auto simp: cover_def)
    next
      case False
      have "lo < region_end (last M)" "unat (lr_base (hd M)) < hi" using M hdM lastM by auto
      with False have "\<not> (lo \<le> a \<and> a < hi)" using X(3,4) by (auto simp: in_region_def)
      moreover have "flags_at M a = None" using False inX by (auto simp: flags_at_None_iff)
      ultimately show ?thesis using False by (auto simp: cover_def flags_at_append split: option.split)
    qed
  qed
qed

lemma split_regions:
  assumes "wf_regions rs" and "lo < hi"
  shows "\<exists>L M R. rs = L @ M @ R \<and> (\<forall>r \<in> set L. region_end r \<le> lo) \<and>
    (\<forall>r \<in> set M. lo < region_end r \<and> unat (lr_base r) < hi) \<and> (\<forall>r \<in> set R. hi \<le> unat (lr_base r))"
  using assms(1)
proof (induction rs)
  case Nil
  then show ?case by simp
next
  case (Cons x xs)
  then obtain L M R where xs: "xs = L @ M @ R" "\<forall>r \<in> set L. region_end r \<le> lo"
    "\<forall>r \<in> set M. lo < region_end r \<and> unat (lr_base r) < hi" "\<forall>r \<in> set R. hi \<le> unat (lr_base r)"
    by (auto simp: wf_regions_Cons)
  consider "region_end x \<le> lo" | "hi \<le> unat (lr_base x)"
    | "lo < region_end x" "unat (lr_base x) < hi" by linarith
  then show ?case
  proof cases
    case 1
    with xs show ?thesis by (intro exI [of _ "x # L"] exI [of _ M] exI [of _ R]) auto
  next
    case 2
    have "\<forall>r \<in> set xs. hi \<le> unat (lr_base r)"
      using 2 Cons.prems above_end [of x hi] by (auto simp: wf_regions_Cons intro: less_imp_le less_le_trans)
    with 2 show ?thesis by (intro exI [of _ "[]"] exI [of _ "x # xs"]) auto
  next
    case 3
    have "L = []"
    proof (rule ccontr)
      assume "L \<noteq> []"
      then have "hd L \<in> set xs" "region_end (hd L) \<le> lo" using xs by auto
      moreover have "wf_region (hd L)" "region_end x \<le> unat (lr_base (hd L))"
        using Cons.prems calculation(1) by (auto simp: wf_regions_Cons wf_regions_set)
      ultimately show False using 3 below_base [of "hd L" lo] by linarith
    qed
    with 3 xs show ?thesis by (intro exI [of _ "[]"] exI [of _ "x # M"] exI [of _ R]) auto
  qed
qed

end
