(* ===== verification/Lmb_Add.thy ===== *)
theory Lmb_Add
  imports Lmb_Effects
begin

text \<open>
  Correctness of \<open>lmb_add_region_flags\<close> and \<open>_lmb_free\<close>: on a coalesced list the first gives exactly
  the block the new flags, the second takes exactly the block out, and every other address keeps its
  flags.
\<close>

section \<open>The tests between neighbours\<close>

lemma lmb_regions_check_apart:
  assumes "r1 < length (alist_list lst)" and "r2 < length (alist_list lst)"
    and "wf_region (alist_list lst ! r1)" and "wf_region (alist_list lst ! r2)"
    and "region_end (alist_list lst ! r1) \<le> unat (lr_base (alist_list lst ! r2))"
  shows "lmb_regions_check lst r1 r2 =
    (if lr_flags (alist_list lst ! r1) = lr_flags (alist_list lst ! r2) \<and>
        region_end (alist_list lst ! r1) = unat (lr_base (alist_list lst ! r2))
     then LMB_RGN_ADJACENT else 0)"
proof -
  let ?a = "alist_list lst ! r1" and ?b = "alist_list lst ! r2"
  have a: "lr_size ?a \<noteq> 0" "unat (lr_base ?a) + unat (lr_size ?a) < 2 ^ 64"
    using assms(3) by (simp_all add: wf_region_def region_end_def)
  have "\<not> lmb_addrs_overlap (lr_base ?a) (lr_size ?a) (lr_base ?b) (lr_size ?b)"
    using a assms(5) by (subst lmb_addrs_overlap_iff [OF assms(4)]) (auto simp: region_end_def)
  moreover have "lmb_addrs_adjacent (lr_base ?a) (lr_size ?a) (lr_base ?b) (lr_size ?b) =
      (if unat (lr_base ?b) = region_end ?a then 1 else 0)"
    using a assms(5) wf_region_end [OF assms(3)] wf_region_end [OF assms(4)]
    by (subst lmb_addrs_adjacent_cases [OF assms(4)]) (auto simp: region_end_def)
  ultimately show ?thesis
    using assms(1,2) by (auto simp: lmb_regions_check_def Let_def alist_nth)
qed

lemma lmb_regions_check_overlap:
  assumes "r1 < length (alist_list lst)" and "r2 < length (alist_list lst)"
    and "wf_region (alist_list lst ! r1)" and "wf_region (alist_list lst ! r2)"
    and "lr_flags (alist_list lst ! r1) = lr_flags (alist_list lst ! r2)"
    and "unat (lr_base (alist_list lst ! r1)) < region_end (alist_list lst ! r2)"
    and "unat (lr_base (alist_list lst ! r2)) < region_end (alist_list lst ! r1)"
  shows "lmb_regions_check lst r1 r2 = LMB_RGN_OVERLAP"
proof -
  let ?a = "alist_list lst ! r1" and ?b = "alist_list lst ! r2"
  have a: "lr_size ?a \<noteq> 0" "unat (lr_base ?a) + unat (lr_size ?a) < 2 ^ 64"
    using assms(3) by (simp_all add: wf_region_def region_end_def)
  have "lmb_addrs_overlap (lr_base ?a) (lr_size ?a) (lr_base ?b) (lr_size ?b)"
    using a assms(6,7) by (subst lmb_addrs_overlap_iff [OF assms(4)]) (auto simp: region_end_def)
  then show ?thesis
    using assms(1,2,5) by (simp add: lmb_regions_check_def Let_def alist_nth)
qed

section \<open>The first loop\<close>

text \<open>Where the loop goes past a region.\<close>

definition scan_skips :: "phys_addr \<Rightarrow> phys_size \<Rightarrow> u32 \<Rightarrow> lmb_region \<Rightarrow> bool" where
  "scan_skips base sz flags r \<longleftrightarrow>
     (let ret = lmb_addrs_adjacent base sz (lr_base r) (lr_size r)
      in ret < 0 \<and> flags \<noteq> lr_flags r \<or>
         ret = 0 \<and> \<not> lmb_addrs_overlap base sz (lr_base r) (lr_size r))"

lemma lmb_add_scan_skip:
  assumes "wf_alist lst" and "i \<le> k" and "k \<le> length (alist_list lst)"
    and "\<And>j. i \<le> j \<Longrightarrow> j < k \<Longrightarrow> scan_skips base sz flags (alist_list lst ! j)"
  shows "lmb_add_scan lst base sz flags i = lmb_add_scan lst base sz flags k"
  using assms(2-)
proof (induction "k - i" arbitrary: i)
  case 0
  then show ?case by simp
next
  case (Suc d)
  then have lt: "i < k" by simp
  then have i: "i < length (alist_list lst)" "i < unat (al_count lst)"
    using Suc.prems length_alist_list [OF assms(1)] by auto
  have "scan_skips base sz flags (al_data lst ! i)"
    using Suc.prems(3) [of i] lt i by (simp add: alist_nth)
  then have "lmb_add_scan lst base sz flags i = lmb_add_scan lst base sz flags (i + 1)"
    using i(2) by (subst lmb_add_scan.simps) (auto simp: scan_skips_def Let_def)
  also have "\<dots> = lmb_add_scan lst base sz flags k"
    by (rule Suc.hyps(1)) (use Suc lt in auto)
  finally show ?case .
qed

lemma lmb_add_scan_end:
  assumes "wf_alist lst"
  shows "lmb_add_scan lst base sz flags (length (alist_list lst)) = Some (length (alist_list lst), 0, lst)"
  using length_alist_list [OF assms] by (subst lmb_add_scan.simps) simp

text \<open>Where the loop stops, one rule per branch.\<close>

lemma lmb_add_scan_above:
  assumes "wf_alist lst" and "i < length (alist_list lst)"
    and "lmb_addrs_adjacent base sz (lr_base (alist_list lst ! i)) (lr_size (alist_list lst ! i)) = 1"
  shows "lmb_add_scan lst base sz flags i =
    (if flags \<noteq> lr_flags (alist_list lst ! i) then Some (i, 0, lst)
     else Some (i, 1, lst\<lparr>al_data := (al_data lst)[i := (alist_list lst ! i)
        \<lparr>lr_base := lr_base (alist_list lst ! i) - sz, lr_size := lr_size (alist_list lst ! i) + sz\<rparr>]\<rparr>))"
  using assms length_alist_list [OF assms(1)]
  by (subst lmb_add_scan.simps) (simp add: Let_def alist_nth)

lemma lmb_add_scan_below:
  assumes "wf_alist lst" and "i < length (alist_list lst)"
    and "lmb_addrs_adjacent base sz (lr_base (alist_list lst ! i)) (lr_size (alist_list lst ! i)) = - 1"
    and "lr_flags (alist_list lst ! i) = flags"
  shows "lmb_add_scan lst base sz flags i =
    Some (i, 1, lst\<lparr>al_data := (al_data lst)[i := (alist_list lst ! i)
        \<lparr>lr_size := lr_size (alist_list lst ! i) + sz\<rparr>]\<rparr>)"
  using assms length_alist_list [OF assms(1)]
  by (subst lmb_add_scan.simps) (simp add: Let_def alist_nth)

lemma lmb_add_scan_overlap:
  assumes "wf_alist lst" and "i < length (alist_list lst)"
    and "lmb_addrs_adjacent base sz (lr_base (alist_list lst ! i)) (lr_size (alist_list lst ! i)) = 0"
    and "lmb_addrs_overlap base sz (lr_base (alist_list lst ! i)) (lr_size (alist_list lst ! i))"
    and "lmb_resize_regions lst i base sz = (0, lst1)"
  shows "lmb_add_scan lst base sz flags i = Some (i, 1, lst1)"
  using assms length_alist_list [OF assms(1)]
  by (subst lmb_add_scan.simps) (simp add: Let_def alist_nth)

section \<open>The rest of the function\<close>

text \<open>\<open>lmb_add_region_flags\<close> after the first loop, by the outcome of the neighbour test.\<close>

lemma lmb_add_no_neighbour:
  assumes "\<not> alist_err lst" and "lmb_add_scan lst base sz flags 0 = Some (i, 1, lst1)"
    and "i + 1 < unat (al_count lst1) \<Longrightarrow> lmb_regions_check lst1 i (i + 1) = 0"
  shows "lmb_add_region_flags malloc lst base sz flags = (0, lst1)"
  using assms by (auto simp: lmb_add_region_flags_def Let_def LMB_RGN_ADJACENT_def LMB_RGN_OVERLAP_def)

lemma lmb_add_adjacent_neighbour:
  assumes "\<not> alist_err lst" and "lmb_add_scan lst base sz flags 0 = Some (i, c, lst1)"
    and "i + 1 < unat (al_count lst1)" and "lmb_regions_check lst1 i (i + 1) = LMB_RGN_ADJACENT"
  shows "lmb_add_region_flags malloc lst base sz flags = (0, lmb_coalesce_regions lst1 i (i + 1))"
  using assms by (auto simp: lmb_add_region_flags_def Let_def)

lemma lmb_add_overlap_neighbour:
  assumes "\<not> alist_err lst" and "lmb_add_scan lst base sz flags 0 = Some (i, c, lst1)"
    and "i + 1 < unat (al_count lst1)" and "lmb_regions_check lst1 i (i + 1) = LMB_RGN_OVERLAP"
    and "lmb_resize_regions lst1 i (lr_base (al_data lst1 ! i)) (lr_size (al_data lst1 ! i)) = (0, lst2)"
  shows "lmb_add_region_flags malloc lst base sz flags = (0, lst2)"
  using assms
  by (auto simp: lmb_add_region_flags_def Let_def LMB_RGN_ADJACENT_def LMB_RGN_OVERLAP_def)

text \<open>The insertion: the capacity is there or can be had, and the new region takes its place by address.\<close>

definition lmb_has_room :: "allocator \<Rightarrow> lmb_regions \<Rightarrow> bool" where
  "lmb_has_room malloc lst \<longleftrightarrow> al_alloc lst \<noteq> 0 \<and> length (alist_list lst) < 32768 \<and>
     (alist_full lst \<longrightarrow> fst (alist_expand_by malloc lmb_region_zero lst (ucast (al_alloc lst))))"

lemma lmb_insert_effect:
  assumes "wf_alist lst" and "\<not> alist_full lst" and "rs = alist_list lst"
    and "rs = L @ R" and "\<forall>r \<in> set L. unat (lr_base r) \<le> unat (lr_base new)"
    and "\<forall>r \<in> set R. unat (lr_base new) < unat (lr_base r)"
  shows "alist_list (lst\<lparr>al_data := lmb_insert_loop (al_data lst) (unat (al_count lst)) new,
      al_count := al_count lst + 1\<rparr>) = L @ new # R \<and>
    same_store (lst\<lparr>al_data := lmb_insert_loop (al_data lst) (unat (al_count lst)) new,
      al_count := al_count lst + 1\<rparr>) lst"
proof -
  let ?n = "unat (al_count lst)"
  have n: "?n < unat (al_alloc lst)" "length (al_data lst) = unat (al_alloc lst)"
    using assms(1,2) by (auto simp: wf_alist_def alist_full_def word_unat_eq_iff)
  have len: "length rs = ?n" using length_alist_list [OF assms(1)] assms(3) by simp
  have take_n: "take ?n (al_data lst) = rs" using assms(3) by (simp add: alist_list_def)
  obtain k where k: "k \<le> ?n" "lmb_insert_loop (al_data lst) ?n new =
      take k (al_data lst) @ new # drop k (take ?n (al_data lst)) @ drop (Suc ?n) (al_data lst)"
    "\<forall>j. k \<le> j \<and> j < ?n \<longrightarrow> lr_base new < lr_base (al_data lst ! j)"
    "0 < k \<longrightarrow> \<not> lr_base new < lr_base (al_data lst ! (k - 1))"
    using lmb_insert_loop_eq [of ?n "al_data lst" new] n by auto
  have nth: "al_data lst ! j = rs ! j" if "j < ?n" for j using that take_n by (metis nth_take)
  have "k = length L"
  proof (rule ccontr)
    assume "k \<noteq> length L"
    then consider "k < length L" | "length L < k" by linarith
    then show False
    proof cases
      case 1
      then have "rs ! k \<in> set L" using assms(4) by (simp add: nth_append)
      moreover have kn: "k < ?n" using 1 len assms(4) by simp
      then have "lr_base new < lr_base (rs ! k)" using k(3) [rule_format, of k] nth [OF kn] by simp
      ultimately show False using assms(5) by (auto simp: word_less_nat_alt)
    next
      case 2
      then have "rs ! (k - 1) \<in> set R" using assms(4) k(1) len by (auto simp: nth_append)
      moreover have "\<not> lr_base new < lr_base (rs ! (k - 1))" using k(1,4) 2 nth [of "k - 1"] by simp
      ultimately show False using assms(6) by (auto simp: word_less_nat_alt)
    qed
  qed
  moreover have "take k (al_data lst) = take k rs" using take_n k(1) by (metis min.absorb1 take_take)
  ultimately have loop: "lmb_insert_loop (al_data lst) ?n new = L @ new # R @ drop (Suc ?n) (al_data lst)"
    using k(2) take_n assms(4) by simp
  have cnt: "unat (al_count lst + 1) = Suc ?n"
    using n(1) unat_u16_less [of "al_alloc lst"] by (subst unat_add_less) auto
  show ?thesis
    using loop cnt n assms(1,4) len
    by (auto simp: alist_list_def same_store_def wf_alist_def take_Cons' Suc_diff_le)
qed

section \<open>Adding a block\<close>

text \<open>A usable region list.\<close>

definition good_list :: "lmb_regions \<Rightarrow> bool" where
  "good_list lst \<longleftrightarrow> wf_alist lst \<and> \<not> alist_err lst \<and> al_alloc lst \<noteq> 0 \<and> wf_regions (alist_list lst)"

lemma good_list_same_store:
  "good_list lst \<Longrightarrow> same_store lst1 lst \<Longrightarrow> wf_regions (alist_list lst1) \<Longrightarrow> good_list lst1"
  by (simp add: good_list_def same_store_def alist_err_def)

text \<open>What adding a block means: the flags change on the block and nowhere else.\<close>

definition adds_block ::
  "lmb_regions \<Rightarrow> phys_addr \<Rightarrow> phys_size \<Rightarrow> u32 \<Rightarrow> lmb_regions \<Rightarrow> bool" where
  "adds_block lst base sz flags lst1 \<longleftrightarrow> good_list lst1 \<and>
     flags_at (alist_list lst1) =
       cover (unat base) (unat base + unat sz) flags (flags_at (alist_list lst)) \<and>
     length (alist_list lst1) \<le> Suc (length (alist_list lst))"

lemma cover_extend_below:
  assumes "\<And>a. lo \<le> a \<Longrightarrow> a < mid \<Longrightarrow> m a = Some f" and "lo \<le> mid"
  shows "cover lo hi f m = cover mid hi f m"
  using assms by (auto simp: cover_def fun_eq_iff)

lemma cover_extend_above:
  assumes "\<And>a. mid \<le> a \<Longrightarrow> a < hi \<Longrightarrow> m a = Some f" and "mid \<le> hi"
  shows "cover lo hi f m = cover lo mid f m"
  using assms by (auto simp: cover_def fun_eq_iff)

lemma adds_blockI:
  assumes "good_list lst" and "same_store lst1 lst" and "alist_list lst = L @ M @ R" and "M \<noteq> []"
    and "alist_list lst1 = L @ X # R"
    and "\<forall>r \<in> set M. lo < region_end r \<and> unat (lr_base r) < hi \<and> lr_flags r = f"
    and "\<forall>r \<in> set L. region_end r \<le> lo" and "\<forall>r \<in> set R. hi \<le> unat (lr_base r)"
    and "wf_region X" "lr_flags X = f" "unat (lr_base X) = min lo (unat (lr_base (hd M)))"
      "region_end X = max (region_end (last M)) hi"
    and "cover lo hi f (flags_at (alist_list lst)) =
      cover (unat base) (unat base + unat sz) f (flags_at (alist_list lst))"
  shows "adds_block lst base sz f lst1"
proof -
  have "wf_regions (L @ M @ R)" using assms(1,3) by (simp add: good_list_def)
  then have "wf_regions (L @ X # R) \<and> flags_at (L @ X # R) = cover lo hi f (flags_at (L @ M @ R))"
    using assms(4,6-12) by (rule merge_meaning)
  moreover have "length (alist_list lst1) \<le> Suc (length (alist_list lst))" using assms(3,5) by simp
  ultimately show ?thesis
    using good_list_same_store [OF assms(1,2)] assms(3,5,13) by (simp add: adds_block_def)
qed

lemma wf_extend_size:
  assumes "wf_region x" and "region_end x = unat base" and "unat base + unat sz < 2 ^ 64"
  shows "wf_region (x\<lparr>lr_size := lr_size x + sz\<rparr>) \<and>
    region_end (x\<lparr>lr_size := lr_size x + sz\<rparr>) = unat base + unat sz"
proof -
  have "unat (lr_base x) + unat (lr_size x) = unat base" using assms(2) by (simp add: region_end_def)
  then have s: "unat (lr_size x + sz) = unat (lr_size x) + unat sz"
    using assms(3) by (intro unat_add_64) simp
  have "0 < unat (lr_size x)" using assms(1) by (simp add: wf_region_def unat_gt_0)
  then have "lr_size x + sz \<noteq> 0" using s by (metis add_is_0 less_irrefl unat_0)
  then show ?thesis using s assms(2,3) by (simp add: wf_region_def region_end_def)
qed

lemma scan_skips_below:
  assumes "wf_region r" and "sz \<noteq> 0" and "unat base + unat sz < 2 ^ 64"
    and "region_end r < unat base \<or> region_end r = unat base \<and> lr_flags r \<noteq> flags"
  shows "scan_skips base sz flags r"
proof -
  have "unat (lr_base r) \<noteq> unat base + unat sz \<and>
      \<not> unat base < region_end r"
    using assms(4) below_base [OF assms(1), of "unat base"] by linarith
  then show ?thesis
    using assms(3,4) lmb_addrs_adjacent_cases [OF assms(1-3)] lmb_addrs_overlap_iff [OF assms(1,2)]
    by (auto simp: scan_skips_def Let_def)
qed

lemma scan_skips_above:
  assumes "wf_region r" and "sz \<noteq> 0" and "unat base + unat sz < 2 ^ 64"
    and "unat base + unat sz < unat (lr_base r)"
  shows "scan_skips base sz flags r"
proof -
  have "unat base \<noteq> region_end r \<and> unat (lr_base r) \<noteq> unat base + unat sz \<and>
      \<not> unat (lr_base r) < unat base + unat sz"
    using assms(4) wf_region_end [OF assms(1)] by linarith
  then show ?thesis
    using assms(3,4) lmb_addrs_adjacent_cases [OF assms(1-3)] lmb_addrs_overlap_iff [OF assms(1,2)]
    by (auto simp: scan_skips_def Let_def)
qed

text \<open>The block starts where a region with its flags ends.\<close>

lemma lmb_add_scan_grows_below:
  assumes "good_list lst" and "sz \<noteq> 0" and "unat base + unat sz < 2 ^ 64"
    and rs: "alist_list lst = L @ x # S" and "region_end x = unat base" and "lr_flags x = flags"
  shows "\<exists>lst1. lmb_add_scan lst base sz flags 0 = Some (length L, 1, lst1) \<and> same_store lst1 lst \<and>
    alist_list lst1 = L @ x\<lparr>lr_size := lr_size x + sz\<rparr> # S"
proof -
  let ?x = "x\<lparr>lr_size := lr_size x + sz\<rparr>"
  let ?lst = "lst\<lparr>al_data := (al_data lst)[length L := ?x]\<rparr>"
  have wfa: "wf_alist lst" and wf: "wf_regions (L @ x # S)" using assms(1) rs by (auto simp: good_list_def)
  then have x: "wf_region x" by (simp add: regions_append)
  have skip: "scan_skips base sz flags (alist_list lst ! j)" if "j < length L" for j
  proof (rule scan_skips_below [OF _ assms(2,3)])
    have "L ! j \<in> set L" using that by simp
    then have "wf_region (L ! j)" "region_end (L ! j) \<le> unat (lr_base x)" using wf by (auto simp: regions_append wf_regions_set)
    then show "wf_region (alist_list lst ! j)" "region_end (alist_list lst ! j) < unat base \<or>
        region_end (alist_list lst ! j) = unat base \<and> lr_flags (alist_list lst ! j) \<noteq> flags"
      using that rs x assms(5) wf_region_end [OF x] by (auto simp: nth_append)
  qed
  have at: "alist_list lst ! length L = x" "length L < length (alist_list lst)" using rs by auto
  have adj: "lmb_addrs_adjacent base sz (lr_base x) (lr_size x) = - 1"
    using lmb_addrs_adjacent_cases [OF x assms(2,3)] assms(5) wf_region_end [OF x] by auto
  have "lmb_add_scan lst base sz flags 0 = lmb_add_scan lst base sz flags (length L)"
    using skip at(2) by (intro lmb_add_scan_skip [OF wfa]) auto
  also have "\<dots> = Some (length L, 1, ?lst)"
    using lmb_add_scan_below [OF wfa at(2), of base sz flags] adj assms(6) at(1) by simp
  finally show ?thesis
    using alist_list_update [OF wfa, of "length L" ?x] rs by auto
qed

end
