(* ===== verification/Lmb_Cases.thy ===== *)
theory Lmb_Cases
  imports Lmb_Add
begin

text \<open>
  The cases of adding a block to a region list, by what the block touches and overlaps, and their
  combination.
\<close>

lemma resize_effect_split:
  assumes "wf_alist lst" and "alist_list lst = L @ M @ R" and "M \<noteq> []"
    and "sz \<noteq> 0" and "unat base + unat sz < 2 ^ 64"
    and "\<forall>r \<in> set M. wf_region r \<and> unat base < region_end r \<and>
      unat (lr_base r) < unat base + unat sz \<and> lr_flags r = LMB_NONE"
    and "\<forall>r \<in> set R. wf_region r \<and> unat base + unat sz \<le> unat (lr_base r)"
  shows "\<exists>lst1. lmb_resize_regions lst (length L) base sz = (0, lst1) \<and> same_store lst1 lst \<and>
    alist_list lst1 = L @ merged_region base sz (hd M) (last M) # R"
proof -
  have M: "alist_list lst ! j \<in> set M" if "length L \<le> j" "j < length L + length M" for j
    using that assms(2) by (auto simp: nth_append)
  have R: "alist_list lst ! j \<in> set R" if "length L + length M \<le> j" "j < length (alist_list lst)" for j
    using that assms(2) by (auto simp: nth_append)
  have "\<exists>lst1. lmb_resize_regions lst (length L) base sz = (0, lst1) \<and> same_store lst1 lst \<and>
      alist_list lst1 = take (length L) (alist_list lst) @
        merged_region base sz (alist_list lst ! length L) (alist_list lst ! (length L + length M - 1)) #
        drop (length L + length M) (alist_list lst)"
  proof (rule lmb_resize_regions_effect [OF assms(1)])
    show "0 < length M" "length L + length M \<le> length (alist_list lst)" using assms(2,3) by auto
    show "lmb_addrs_overlap base sz (lr_base (alist_list lst ! j)) (lr_size (alist_list lst ! j)) \<and>
        lr_flags (alist_list lst ! j) = LMB_NONE" if "length L \<le> j" "j < length L + length M" for j
      using M [OF that] assms(4-6) by (auto simp: lmb_addrs_overlap_iff)
    show "\<not> lmb_addrs_overlap base sz (lr_base (alist_list lst ! j)) (lr_size (alist_list lst ! j))"
      if "length L + length M \<le> j" "j < length (alist_list lst)" for j
      using R [OF that] assms(4,5,7) by (fastforce simp: lmb_addrs_overlap_iff)
  qed
  moreover have "alist_list lst ! length L = hd M"
    using assms(2,3) by (simp add: nth_append hd_conv_nth)
  moreover have "length L + length M - 1 = length L + (length M - 1)" "length M - 1 < length M"
    using assms(3) by (cases M; simp)+
  then have "alist_list lst ! (length L + length M - 1) = (M @ R) ! (length M - 1)"
    using assms(2) by (metis nth_append_length_plus)
  then have "alist_list lst ! (length L + length M - 1) = last M"
    using assms(3) by (simp add: nth_append last_conv_nth)
  ultimately show ?thesis using assms(2) by simp
qed

lemma wf_regions_covers:
  assumes "wf_regions rs" and "r \<in> set rs" and "lo = unat (lr_base r)" and "hi = region_end r"
    and "lo \<le> a" and "a < hi"
  shows "flags_at rs a = Some (lr_flags r)"
  using assms by (intro flags_at_in) (auto simp: in_region_def)

section \<open>The block continues a region with its flags\<close>

lemma lmb_add_below_overlap:
  assumes "good_list lst" and "sz \<noteq> 0" and "unat base + unat sz < 2 ^ 64"
    and rs: "alist_list lst = L @ x # M @ R" and "region_end x = unat base" and "lr_flags x = LMB_NONE"
    and "M \<noteq> []" and M: "\<forall>r \<in> set M. unat base < region_end r \<and>
      unat (lr_base r) < unat base + unat sz \<and> lr_flags r = LMB_NONE"
    and R: "\<forall>r \<in> set R. unat base + unat sz \<le> unat (lr_base r)"
  shows "\<exists>lst1. lmb_add_region_flags malloc lst base sz LMB_NONE = (0, lst1) \<and>
    adds_block lst base sz LMB_NONE lst1"
proof -
  let ?x = "x\<lparr>lr_size := lr_size x + sz\<rparr>"
  have wf: "wf_regions (L @ x # M @ R)" and ne: "\<not> alist_err lst"
    using assms(1) rs by (auto simp: good_list_def)
  have x: "wf_region x" and wfM: "\<forall>r \<in> set M. wf_region r" and wfR: "\<forall>r \<in> set R. wf_region r"
    using wf by (auto simp: regions_append wf_regions_set)
  obtain lst1 where scan: "lmb_add_scan lst base sz LMB_NONE 0 = Some (length L, 1, lst1)"
    and st1: "same_store lst1 lst" and l1: "alist_list lst1 = L @ ?x # M @ R"
    using lmb_add_scan_grows_below [OF assms(1-3) rs assms(5,6)] by auto
  have x': "wf_region ?x" "region_end ?x = unat base + unat sz"
    using wf_extend_size [OF x assms(5,3)] by auto
  have xb: "unat (lr_base x) < unat base" using wf_region_end [OF x] assms(5) by simp
  have hdM: "hd M \<in> set M" and lastM: "last M \<in> set M" using assms(7) by auto
  have i: "length L + 1 < length (alist_list lst1)" "alist_list lst1 ! length L = ?x"
    "alist_list lst1 ! (length L + 1) = hd M"
    using l1 assms(7) by (auto simp: nth_append hd_conv_nth)
  have chk: "lmb_regions_check lst1 (length L) (length L + 1) = LMB_RGN_OVERLAP"
  proof (rule lmb_regions_check_overlap)
    show "unat (lr_base (alist_list lst1 ! length L)) < region_end (alist_list lst1 ! (length L + 1))"
      using i xb M hdM by fastforce
  qed (use i x' M hdM wfM assms(6) in auto)
  have e: "unat (lr_base ?x) + unat (lr_size ?x) = unat base + unat sz"
    using x'(2) by (simp add: region_end_def)
  have wl1: "wf_alist lst1" using st1 by simp
  obtain lst2 where rz: "lmb_resize_regions lst1 (length L) (lr_base ?x) (lr_size ?x) = (0, lst2)"
    and st2: "same_store lst2 lst1"
    and l2: "alist_list lst2 = L @ merged_region (lr_base ?x) (lr_size ?x) ?x (last (?x # M)) # R"
  proof (atomize_elim, rule resize_effect_split [OF wl1, of L "?x # M" R, simplified list.sel])
    show "alist_list lst1 = L @ (?x # M) @ R" using l1 by simp
    show "lr_size ?x \<noteq> 0" using x'(1) by (simp add: wf_region_def)
    show "unat (lr_base ?x) + unat (lr_size ?x) < 2 ^ 64" using e assms(3) by simp
    show "\<forall>r \<in> set (?x # M). wf_region r \<and> unat (lr_base ?x) < region_end r \<and>
        unat (lr_base r) < unat (lr_base ?x) + unat (lr_size ?x) \<and> lr_flags r = LMB_NONE"
      unfolding e using x' wfM M xb assms(6) by auto
    show "\<forall>r \<in> set R. wf_region r \<and> unat (lr_base ?x) + unat (lr_size ?x) \<le> unat (lr_base r)"
      unfolding e using wfR R by auto
  qed simp
  have cnt: "length L + 1 < unat (al_count lst1)"
    using i(1) length_alist_list [OF wl1] by simp
  have add: "lmb_add_region_flags malloc lst base sz LMB_NONE = (0, lst2)"
    using lmb_add_overlap_neighbour [OF ne scan cnt chk, of lst2] rz i(2) alist_nth [of "length L" lst1] i(1)
    by simp
  let ?X = "merged_region (lr_base ?x) (lr_size ?x) ?x (last M)"
  have X: "unat (lr_base ?X) = unat (lr_base x)" "region_end ?X = max (region_end (last M)) (unat base + unat sz)"
    "lr_flags ?X = LMB_NONE" "wf_region ?X"
    using merged_region_bounds [OF x'(1), of "last M" "lr_size ?x" "lr_base ?x"] e assms(3,6) wfM lastM x' xb
    by (auto simp: wf_region_def)
  have "adds_block lst base sz LMB_NONE lst2"
  proof (rule adds_blockI [where L = L and M = "x # M" and R = R and X = ?X and lo = "unat (lr_base x)"
        and hi = "unat base + unat sz"])
    show "same_store lst2 lst" by (rule same_store_trans [OF st2 st1])
    show "alist_list lst2 = L @ ?X # R" using l2 assms(7) by simp
    show "\<forall>r \<in> set (x # M). unat (lr_base x) < region_end r \<and>
        unat (lr_base r) < unat base + unat sz \<and> lr_flags r = LMB_NONE"
      using xb M assms(2,5,6) by auto
    show "\<forall>r \<in> set L. region_end r \<le> unat (lr_base x)" using wf by (auto simp: regions_append)
    show "cover (unat (lr_base x)) (unat base + unat sz) LMB_NONE (flags_at (alist_list lst)) =
        cover (unat base) (unat base + unat sz) LMB_NONE (flags_at (alist_list lst))"
      using wf_regions_covers [OF wf, of x] assms(5,6) xb rs
      by (intro cover_extend_below) auto
  qed (use assms(1,7) rs R X in auto)
  with add show ?thesis by blast
qed

lemma lmb_add_below_gap:
  assumes "good_list lst" and "sz \<noteq> 0" and "unat base + unat sz < 2 ^ 64"
    and rs: "alist_list lst = L @ x # R" and "region_end x = unat base" and "lr_flags x = flags"
    and R: "\<forall>r \<in> set R. unat base + unat sz \<le> unat (lr_base r)"
    and gap: "R \<noteq> [] \<Longrightarrow> unat (lr_base (hd R)) \<noteq> unat base + unat sz \<or> lr_flags (hd R) \<noteq> flags"
  shows "\<exists>lst1. lmb_add_region_flags malloc lst base sz flags = (0, lst1) \<and>
    adds_block lst base sz flags lst1 \<and> (coalesced (alist_list lst) \<longrightarrow> coalesced (alist_list lst1))"
proof -
  let ?x = "x\<lparr>lr_size := lr_size x + sz\<rparr>"
  have wf: "wf_regions (L @ x # R)" and ne: "\<not> alist_err lst"
    using assms(1) rs by (auto simp: good_list_def)
  have x: "wf_region x" and wfR: "\<forall>r \<in> set R. wf_region r"
    using wf by (auto simp: regions_append wf_regions_set)
  obtain lst1 where scan: "lmb_add_scan lst base sz flags 0 = Some (length L, 1, lst1)"
    and st1: "same_store lst1 lst" and l1: "alist_list lst1 = L @ ?x # R"
    using lmb_add_scan_grows_below [OF assms(1-3) rs assms(5,6)] by auto
  have x': "wf_region ?x" "region_end ?x = unat base + unat sz"
    using wf_extend_size [OF x assms(5,3)] by auto
  have xb: "unat (lr_base x) < unat base" using wf_region_end [OF x] assms(5) by simp
  have "lmb_regions_check lst1 (length L) (length L + 1) = 0" if "length L + 1 < unat (al_count lst1)"
  proof -
    have "R \<noteq> []" using that l1 length_alist_list [of lst1] st1 by auto
    then show ?thesis
      using lmb_regions_check_apart [of "length L" lst1 "length L + 1"] l1 x' wfR R gap assms(6)
      by (auto simp: nth_append hd_conv_nth)
  qed
  then have add: "lmb_add_region_flags malloc lst base sz flags = (0, lst1)"
    using lmb_add_no_neighbour [OF ne scan] by simp
  have "adds_block lst base sz flags lst1"
  proof (rule adds_blockI [where L = L and M = "[x]" and R = R and X = ?x and lo = "unat (lr_base x)"
        and hi = "unat base + unat sz"])
    show "cover (unat (lr_base x)) (unat base + unat sz) flags (flags_at (alist_list lst)) =
        cover (unat base) (unat base + unat sz) flags (flags_at (alist_list lst))"
      using wf_regions_covers [OF wf, of x] assms(5,6) xb rs
      by (intro cover_extend_below) auto
  qed (use assms(1,2,5,6) rs R x' st1 l1 xb wf in \<open>auto simp: regions_append wf_region_end\<close>)
  moreover have "coalesced (L @ ?x # R)" if "coalesced (L @ x # R)"
  proof -
    have "unat base + unat sz = unat (lr_base r) \<longrightarrow> flags \<noteq> lr_flags r" if r: "r \<in> set R" for r
    proof -
      obtain y S where R': "R = y # S" using r by (cases R) auto
      then show ?thesis using r gap R wf wf_region_end [of y]
        by (fastforce simp: regions_append)
    qed
    then show ?thesis using that x'(2) assms(6) by (auto simp: regions_append)
  qed
  ultimately show ?thesis using add rs l1 by auto
qed

lemma remove_nth_mid: "remove_nth (Suc (length L)) (L @ x # y # R) = L @ x # R"
  by (simp add: remove_nth_def)

lemma lmb_add_below_bridge:
  assumes "good_list lst" and "sz \<noteq> 0" and "unat base + unat sz < 2 ^ 64"
    and rs: "alist_list lst = L @ x # y # R" and "region_end x = unat base" and "lr_flags x = flags"
    and "unat (lr_base y) = unat base + unat sz" and "lr_flags y = flags"
  shows "\<exists>lst1. lmb_add_region_flags malloc lst base sz flags = (0, lst1) \<and>
    adds_block lst base sz flags lst1 \<and> (coalesced (alist_list lst) \<longrightarrow> coalesced (alist_list lst1))"
proof -
  let ?x = "x\<lparr>lr_size := lr_size x + sz\<rparr>"
  let ?z = "?x\<lparr>lr_size := lr_size ?x + lr_size y\<rparr>"
  have wf: "wf_regions (L @ x # y # R)" and ne: "\<not> alist_err lst"
    using assms(1) rs by (auto simp: good_list_def)
  have x: "wf_region x" and y: "wf_region y" using wf by (auto simp: regions_append)
  obtain lst1 where scan: "lmb_add_scan lst base sz flags 0 = Some (length L, 1, lst1)"
    and st1: "same_store lst1 lst" and l1: "alist_list lst1 = L @ ?x # y # R"
    using lmb_add_scan_grows_below [OF assms(1-3) rs assms(5,6)] by auto
  have x': "wf_region ?x" "region_end ?x = unat (lr_base y)"
    using wf_extend_size [OF x assms(5,3)] assms(7) by auto
  have z: "wf_region ?z" "region_end ?z = region_end y"
    using wf_extend_size [OF x', of "lr_size y"] y by (auto simp: wf_region_def region_end_def)
  have xb: "unat (lr_base x) < unat base" using wf_region_end [OF x] assms(5) by simp
  have yb: "unat (lr_base y) < region_end y" by (rule wf_region_end [OF y])
  have wl1: "wf_alist lst1" using st1 by simp
  have cnt: "length L + 1 < unat (al_count lst1)" using l1 length_alist_list [OF wl1] by simp
  have "lmb_regions_check lst1 (length L) (length L + 1) = LMB_RGN_ADJACENT"
    using lmb_regions_check_apart [of "length L" lst1 "length L + 1"] l1 x' y assms(6,8)
    by (simp add: nth_append)
  then have add: "lmb_add_region_flags malloc lst base sz flags =
      (0, lmb_coalesce_regions lst1 (length L) (length L + 1))"
    by (rule lmb_add_adjacent_neighbour [OF ne scan cnt])
  have l2: "alist_list (lmb_coalesce_regions lst1 (length L) (length L + 1)) = L @ ?z # R"
    and st2: "same_store (lmb_coalesce_regions lst1 (length L) (length L + 1)) lst1"
    using lmb_coalesce_regions_effect [OF wl1, of "length L" "length L + 1"] l1
    by (simp_all add: nth_append remove_nth_mid)
  have "adds_block lst base sz flags (lmb_coalesce_regions lst1 (length L) (length L + 1))"
  proof (rule adds_blockI [where L = L and M = "[x, y]" and R = R and X = ?z and lo = "unat (lr_base x)"
        and hi = "region_end y"])
    have "cover (unat (lr_base x)) (region_end y) flags (flags_at (alist_list lst)) =
        cover (unat base) (region_end y) flags (flags_at (alist_list lst))"
      using wf_regions_covers [OF wf, of x] assms(5,6) xb rs by (intro cover_extend_below) auto
    also have "\<dots> = cover (unat base) (unat base + unat sz) flags (flags_at (alist_list lst))"
      using wf_regions_covers [OF wf, of y] assms(7,8) yb rs by (intro cover_extend_above) auto
    finally show "cover (unat (lr_base x)) (region_end y) flags (flags_at (alist_list lst)) =
        cover (unat base) (unat base + unat sz) flags (flags_at (alist_list lst))" .
    show "same_store (lmb_coalesce_regions lst1 (length L) (length L + 1)) lst"
      by (rule same_store_trans [OF st2 st1])
  qed (use assms(1,5,6,7,8) rs z l2 xb yb wf wf_region_end [OF x] in \<open>auto simp: regions_append\<close>)
  moreover have "coalesced (L @ ?z # R)" if "coalesced (L @ x # y # R)"
    using that z(2) assms(6,8) by (auto simp: regions_append)
  ultimately show ?thesis using add rs l2 by auto
qed

section \<open>The block continues no region below it\<close>

lemma lmb_add_scan_past:
  assumes "good_list lst" and "sz \<noteq> 0" and "unat base + unat sz < 2 ^ 64" and rs: "alist_list lst = L @ S"
    and L: "\<forall>r \<in> set L. region_end r < unat base \<or> region_end r = unat base \<and> lr_flags r \<noteq> flags"
  shows "lmb_add_scan lst base sz flags 0 = lmb_add_scan lst base sz flags (length L)"
proof (rule lmb_add_scan_skip)
  show "wf_alist lst" using assms(1) by (simp add: good_list_def)
  fix j assume "j < length L"
  then have j: "alist_list lst ! j \<in> set L" using rs by (simp add: nth_append)
  moreover have "\<forall>r \<in> set L. wf_region r"
    using assms(1) rs by (auto simp: good_list_def regions_append wf_regions_set)
  ultimately show "scan_skips base sz flags (alist_list lst ! j)"
    using L by (intro scan_skips_below [OF _ assms(2,3)]) auto
qed (use rs in auto)

text \<open>Joining two touching regions with the same flags changes no address.\<close>

lemma coalesce_touching:
  assumes "wf_alist lst" and rs: "alist_list lst = L @ x # y # S" and wf: "wf_regions (L @ x # y # S)"
    and "region_end x = unat (lr_base y)" and "lr_flags x = lr_flags y"
  shows "lmb_regions_check lst (length L) (length L + 1) = LMB_RGN_ADJACENT \<and>
    same_store (lmb_coalesce_regions lst (length L) (length L + 1)) lst \<and>
    wf_regions (alist_list (lmb_coalesce_regions lst (length L) (length L + 1))) \<and>
    flags_at (alist_list (lmb_coalesce_regions lst (length L) (length L + 1))) = flags_at (alist_list lst) \<and>
    length (alist_list (lmb_coalesce_regions lst (length L) (length L + 1))) \<le> length (alist_list lst)"
proof -
  let ?z = "x\<lparr>lr_size := lr_size x + lr_size y\<rparr>"
  have x: "wf_region x" and y: "wf_region y" using wf by (auto simp: regions_append)
  have z: "wf_region ?z" "region_end ?z = region_end y"
    using wf_extend_size [OF x assms(4), of "lr_size y"] y by (auto simp: wf_region_def region_end_def)
  have l2: "alist_list (lmb_coalesce_regions lst (length L) (length L + 1)) = L @ ?z # S"
    and st2: "same_store (lmb_coalesce_regions lst (length L) (length L + 1)) lst"
    using lmb_coalesce_regions_effect [OF assms(1), of "length L" "length L + 1"] rs
    by (simp_all add: nth_append remove_nth_mid)
  have chk: "lmb_regions_check lst (length L) (length L + 1) = LMB_RGN_ADJACENT"
    using lmb_regions_check_apart [of "length L" lst "length L + 1"] rs x y assms(4,5)
    by (simp add: nth_append)
  have "wf_regions (L @ ?z # S) \<and> flags_at (L @ ?z # S) =
      cover (unat (lr_base x)) (region_end y) (lr_flags x) (flags_at (L @ [x, y] @ S))"
    using wf x y z assms(4,5) wf_region_end [OF x] wf_region_end [OF y]
    by (intro merge_meaning) (auto simp: regions_append)
  moreover have "flags_at (L @ x # y # S) a = Some (lr_flags x)"
    if "unat (lr_base x) \<le> a" "a < region_end y" for a
    using flags_at_in [OF wf, of x a] flags_at_in [OF wf, of y a] that assms(4,5)
    by (cases "a < region_end x") (auto simp: in_region_def)
  then have "cover (unat (lr_base x)) (region_end y) (lr_flags x) (flags_at (L @ [x, y] @ S)) =
      flags_at (L @ [x, y] @ S)"
    by (auto simp: cover_def fun_eq_iff)
  ultimately show ?thesis using l2 st2 chk rs by simp
qed

lemma lmb_add_overlap:
  assumes "good_list lst" and "sz \<noteq> 0" and "unat base + unat sz < 2 ^ 64"
    and rs: "alist_list lst = L @ M @ R" and "M \<noteq> []"
    and L: "\<forall>r \<in> set L. region_end r < unat base \<or> region_end r = unat base \<and> lr_flags r \<noteq> LMB_NONE"
    and M: "\<forall>r \<in> set M. unat base < region_end r \<and>
      unat (lr_base r) < unat base + unat sz \<and> lr_flags r = LMB_NONE"
    and R: "\<forall>r \<in> set R. unat base + unat sz \<le> unat (lr_base r)"
  shows "\<exists>lst1. lmb_add_region_flags malloc lst base sz LMB_NONE = (0, lst1) \<and>
    adds_block lst base sz LMB_NONE lst1"
proof -
  let ?X = "merged_region base sz (hd M) (last M)"
  have wfa: "wf_alist lst" and wf: "wf_regions (L @ M @ R)" and ne: "\<not> alist_err lst"
    using assms(1) rs by (auto simp: good_list_def)
  have wfM: "\<forall>r \<in> set M. wf_region r" and wfR: "\<forall>r \<in> set R. wf_region r"
    using wf by (auto simp: regions_append wf_regions_set)
  have hdM: "hd M \<in> set M" and lastM: "last M \<in> set M" using assms(5) by auto
  have X: "unat (lr_base ?X) = min (unat base) (unat (lr_base (hd M)))" "lr_flags ?X = LMB_NONE"
    "region_end ?X = max (region_end (last M)) (unat base + unat sz)" "wf_region ?X"
    using merged_region_bounds [of "hd M" "last M" sz base] hdM lastM wfM M assms(2,3) by auto
  obtain lst1 where rz: "lmb_resize_regions lst (length L) base sz = (0, lst1)"
    and st1: "same_store lst1 lst" and l1: "alist_list lst1 = L @ ?X # R"
    using resize_effect_split [OF wfa rs assms(5,2,3)] wfM M wfR R by auto
  have at: "length L < length (alist_list lst)" "alist_list lst ! length L = hd M"
    using rs assms(5) by (auto simp: nth_append hd_conv_nth)
  have "lmb_add_scan lst base sz LMB_NONE (length L) = Some (length L, 1, lst1)"
  proof (rule lmb_add_scan_overlap [OF wfa at(1) _ _ rz])
    show "lmb_addrs_adjacent base sz (lr_base (alist_list lst ! length L)) (lr_size (alist_list lst ! length L)) = 0"
      using lmb_addrs_adjacent_cases [of "hd M" sz base] at(2) hdM wfM M assms(2,3) by auto
    show "lmb_addrs_overlap base sz (lr_base (alist_list lst ! length L)) (lr_size (alist_list lst ! length L))"
      using lmb_addrs_overlap_iff [of "hd M" sz base] at(2) hdM wfM M assms(2,3) by auto
  qed
  then have scan: "lmb_add_scan lst base sz LMB_NONE 0 = Some (length L, 1, lst1)"
    using lmb_add_scan_past [OF assms(1-3) rs L] by simp
  have blk1: "adds_block lst base sz LMB_NONE lst1"
    by (rule adds_blockI [where lo = "unat base" and hi = "unat base + unat sz", OF assms(1) st1 rs assms(5) l1])
      (use L M R X in auto)
  show ?thesis
  proof (cases "R \<noteq> [] \<and> unat (lr_base (hd R)) = region_end ?X \<and> lr_flags (hd R) = LMB_NONE")
    case False
    have "lmb_regions_check lst1 (length L) (length L + 1) = 0" if cnt: "length L + 1 < unat (al_count lst1)"
    proof -
      have "R \<noteq> []" using cnt l1 length_alist_list [of lst1] st1 by auto
      moreover have "region_end ?X \<le> unat (lr_base (hd R))"
        using calculation R lastM wf X(3) by (auto simp: regions_append)
      ultimately show ?thesis
        using lmb_regions_check_apart [of "length L" lst1 "length L + 1"] l1 X wfR False
        by (auto simp: nth_append hd_conv_nth)
    qed
    then show ?thesis using lmb_add_no_neighbour [OF ne scan] blk1 by blast
  next
    case True
    then obtain y S where R': "R = y # S" by (cases R) auto
    have l1': "alist_list lst1 = L @ ?X # y # S" using l1 R' by simp
    have g1: "good_list lst1" using blk1 by (simp add: adds_block_def)
    then have wl1: "wf_alist lst1" "wf_regions (L @ ?X # y # S)" using l1' by (auto simp: good_list_def)
    have co: "lmb_regions_check lst1 (length L) (length L + 1) = LMB_RGN_ADJACENT \<and>
        same_store (lmb_coalesce_regions lst1 (length L) (length L + 1)) lst1 \<and>
        wf_regions (alist_list (lmb_coalesce_regions lst1 (length L) (length L + 1))) \<and>
        flags_at (alist_list (lmb_coalesce_regions lst1 (length L) (length L + 1))) = flags_at (alist_list lst1) \<and>
        length (alist_list (lmb_coalesce_regions lst1 (length L) (length L + 1))) \<le> length (alist_list lst1)"
      using True X(2) R' by (intro coalesce_touching [OF wl1(1) l1' wl1(2)]) auto
    then have "good_list (lmb_coalesce_regions lst1 (length L) (length L + 1))"
      by (intro good_list_same_store [OF g1]) auto
    then have "adds_block lst base sz LMB_NONE (lmb_coalesce_regions lst1 (length L) (length L + 1))"
      using blk1 co by (auto simp: adds_block_def)
    moreover have "length L + 1 < unat (al_count lst1)"
      using l1' length_alist_list [of lst1] st1 by simp
    ultimately show ?thesis using lmb_add_adjacent_neighbour [OF ne scan] co by blast
  qed
qed

lemma lmb_add_above:
  assumes "good_list lst" and "sz \<noteq> 0" and "unat base + unat sz < 2 ^ 64"
    and rs: "alist_list lst = L @ y # R" and co: "coalesced (L @ y # R)"
    and L: "\<forall>r \<in> set L. region_end r < unat base \<or> region_end r = unat base \<and> lr_flags r \<noteq> flags"
    and "unat (lr_base y) = unat base + unat sz" and "lr_flags y = flags"
  shows "\<exists>lst1. lmb_add_region_flags malloc lst base sz flags = (0, lst1) \<and>
    adds_block lst base sz flags lst1 \<and> coalesced (alist_list lst1)"
proof -
  let ?y = "y\<lparr>lr_base := lr_base y - sz, lr_size := lr_size y + sz\<rparr>"
  let ?lst = "lst\<lparr>al_data := (al_data lst)[length L := ?y]\<rparr>"
  have wfa: "wf_alist lst" and wf: "wf_regions (L @ y # R)" and ne: "\<not> alist_err lst"
    using assms(1) rs by (auto simp: good_list_def)
  have y: "wf_region y" and wfR: "\<forall>r \<in> set R. wf_region r"
    using wf by (auto simp: regions_append wf_regions_set)
  have at: "length L < length (alist_list lst)" "alist_list lst ! length L = y" using rs by auto
  have b: "unat (lr_base y - sz) = unat base" using assms(7) by (subst unat_diff_le) auto
  have s: "unat (lr_size y + sz) = unat (lr_size y) + unat sz"
    using y assms(7) by (intro unat_add_64) (simp add: wf_region_def region_end_def)
  have "0 < unat sz" using assms(2) by (simp add: unat_gt_0)
  then have "lr_size y + sz \<noteq> 0" using s by (metis add_is_0 less_irrefl unat_0)
  then have y': "wf_region ?y" "unat (lr_base ?y) = unat base" "region_end ?y = region_end y"
    using y b s assms(7) by (auto simp: wf_region_def region_end_def)
  have "lmb_addrs_adjacent base sz (lr_base y) (lr_size y) = 1"
    using lmb_addrs_adjacent_cases [OF y assms(2,3)] assms(7) by simp
  then have scan: "lmb_add_scan lst base sz flags 0 = Some (length L, 1, ?lst)"
    using lmb_add_scan_past [OF assms(1-3) rs L] lmb_add_scan_above [OF wfa at(1)] at(2) assms(8) by simp
  have l1: "alist_list ?lst = L @ ?y # R" and st1: "same_store ?lst lst"
    using alist_list_update [OF wfa, of "length L" ?y] rs by auto
  have "lmb_regions_check ?lst (length L) (length L + 1) = 0" if cnt: "length L + 1 < unat (al_count ?lst)"
  proof -
    have "R \<noteq> []" using cnt l1 length_alist_list [of ?lst] st1 by auto
    then obtain z S where R': "R = z # S" by (cases R) auto
    then show ?thesis
      using lmb_regions_check_apart [of "length L" ?lst "length L + 1"] l1 y' wfR wf co
      by (auto simp: nth_append regions_append)
  qed
  then have add: "lmb_add_region_flags malloc lst base sz flags = (0, ?lst)"
    using lmb_add_no_neighbour [OF ne scan] by simp
  have "adds_block lst base sz flags ?lst"
  proof (rule adds_blockI [where L = L and M = "[y]" and R = R and X = ?y and lo = "unat base"
        and hi = "region_end y"])
    show "cover (unat base) (region_end y) flags (flags_at (alist_list lst)) =
        cover (unat base) (unat base + unat sz) flags (flags_at (alist_list lst))"
      using wf_regions_covers [OF wf, of y] assms(7,8) wf_region_end [OF y] rs
      by (intro cover_extend_above) auto
  qed (use assms(1,7,8) rs L y' st1 l1 wf wf_region_end [OF y] in \<open>auto simp: regions_append\<close>)
  moreover have "coalesced (L @ ?y # R)"
    using co y' L assms(8) by (auto simp: regions_append)
  ultimately show ?thesis using add l1 by auto
qed

section \<open>The block becomes a region of its own\<close>

lemma lmb_add_scan_none:
  assumes "good_list lst" and "sz \<noteq> 0" and "unat base + unat sz < 2 ^ 64"
    and rs: "alist_list lst = L @ R" and co: "coalesced (L @ R)"
    and L: "\<forall>r \<in> set L. region_end r < unat base \<or> region_end r = unat base \<and> lr_flags r \<noteq> flags"
    and R: "\<forall>r \<in> set R. unat base + unat sz < unat (lr_base r) \<or>
      unat base + unat sz = unat (lr_base r) \<and> lr_flags r \<noteq> flags"
  shows "\<exists>i. lmb_add_scan lst base sz flags 0 = Some (i, 0, lst) \<and>
    (i + 1 < unat (al_count lst) \<longrightarrow> lmb_regions_check lst i (i + 1) = 0)"
proof -
  have wfa: "wf_alist lst" and wf: "wf_regions (L @ R)" using assms(1) rs by (auto simp: good_list_def)
  have len: "length (alist_list lst) = unat (al_count lst)" by (rule length_alist_list [OF wfa])
  have past: "lmb_add_scan lst base sz flags 0 = lmb_add_scan lst base sz flags (length L)"
    by (rule lmb_add_scan_past [OF assms(1-3) rs L])
  show ?thesis
  proof (cases "R \<noteq> [] \<and> unat (lr_base (hd R)) = unat base + unat sz")
    case True
    then obtain y S where R': "R = y # S" by (cases R) auto
    have y: "wf_region y" and wfS: "\<forall>r \<in> set S. wf_region r"
      using wf R' by (auto simp: regions_append wf_regions_set)
    have at: "length L < length (alist_list lst)" "alist_list lst ! length L = y" using rs R' by auto
    have "lmb_addrs_adjacent base sz (lr_base y) (lr_size y) = 1"
      using lmb_addrs_adjacent_cases [OF y assms(2,3)] True R' by simp
    then have "lmb_add_scan lst base sz flags (length L) = Some (length L, 0, lst)"
      using lmb_add_scan_above [OF wfa at(1)] at(2) R R' True by auto
    moreover have "lmb_regions_check lst (length L) (length L + 1) = 0" if "length L + 1 < unat (al_count lst)"
    proof -
      obtain z T where S': "S = z # T" using \<open>length L + 1 < unat (al_count lst)\<close> len rs R' by (cases S) auto
      then show ?thesis
        using lmb_regions_check_apart [of "length L" lst "length L + 1"] rs R' y wfS wf co
        by (auto simp: nth_append regions_append)
    qed
    ultimately show ?thesis using past by auto
  next
    case False
    have far: "unat base + unat sz < unat (lr_base r)" if r: "r \<in> set R" for r
    proof -
      obtain y S where R': "R = y # S" using r by (cases R) auto
      have y: "wf_region y" using wf R' by (auto simp: regions_append)
      have "unat base + unat sz < unat (lr_base y)" using False R R' by fastforce
      then show ?thesis using r R' wf above_end [OF y, of "unat base + unat sz"]
        by (auto simp: regions_append)
    qed
    have "lmb_add_scan lst base sz flags (length L) = lmb_add_scan lst base sz flags (length (alist_list lst))"
    proof (rule lmb_add_scan_skip [OF wfa])
      fix j assume j: "length L \<le> j" "j < length (alist_list lst)"
      then have "alist_list lst ! j \<in> set R" using rs by (auto simp: nth_append)
      then show "scan_skips base sz flags (alist_list lst ! j)"
        using wf far by (intro scan_skips_above [OF _ assms(2,3)]) (auto simp: regions_append wf_regions_set)
    qed (use rs in auto)
    also have "\<dots> = Some (length (alist_list lst), 0, lst)" by (rule lmb_add_scan_end [OF wfa])
    finally show ?thesis using past len by simp
  qed
qed

lemma alist_expand_by_flags:
  "fst (alist_expand_by malloc zero lst n) \<Longrightarrow>
     al_flags (snd (alist_expand_by malloc zero lst n)) = al_flags lst"
  by (auto simp: alist_expand_by_def alist_expand_to_def split: if_splits)

lemma lmb_add_insert:
  assumes "good_list lst" and "sz \<noteq> 0" and "unat base + unat sz < 2 ^ 64"
    and rs: "alist_list lst = L @ R" and co: "coalesced (L @ R)"
    and L: "\<forall>r \<in> set L. region_end r < unat base \<or> region_end r = unat base \<and> lr_flags r \<noteq> flags"
    and R: "\<forall>r \<in> set R. unat base + unat sz < unat (lr_base r) \<or>
      unat base + unat sz = unat (lr_base r) \<and> lr_flags r \<noteq> flags"
    and room: "lmb_has_room malloc lst"
  shows "\<exists>lst1. lmb_add_region_flags malloc lst base sz flags = (0, lst1) \<and>
    adds_block lst base sz flags lst1 \<and> coalesced (alist_list lst1)"
proof -
  let ?new = "\<lparr>lr_base = base, lr_size = sz, lr_flags = flags\<rparr>"
  let ?grow = "\<lambda>l. alist_expand_by malloc lmb_region_zero l (ucast (al_alloc l))"
  define lst1 where "lst1 = al.room malloc lmb_region_zero lst"
  let ?lst2 = "lst1\<lparr>al_data := lmb_insert_loop (al_data lst1) (unat (al_count lst1)) ?new,
      al_count := al_count lst1 + 1\<rparr>"
  have wfa: "wf_alist lst" and wf: "wf_regions (L @ R)" and ne: "\<not> alist_err lst" and a0: "al_alloc lst \<noteq> 0"
    using assms(1) rs by (auto simp: good_list_def)
  have r1: "wf_alist lst1" "al_alloc lst1 \<noteq> 0" "alist_list lst1 = alist_list lst" "\<not> alist_full lst1"
    using al.room_ok [of lst malloc lmb_region_zero] wfa a0 room
    by (auto simp: lst1_def lmb_has_room_def)
  obtain i where scan: "lmb_add_scan lst base sz flags 0 = Some (i, 0, lst)"
    and chk: "i + 1 < unat (al_count lst) \<longrightarrow> lmb_regions_check lst i (i + 1) = 0"
    using lmb_add_scan_none [OF assms(1-3) rs co L R] by blast
  have "lmb_add_region_flags malloc lst base sz flags = (0, ?lst2)"
    using ne scan chk room
    by (auto simp: lmb_add_region_flags_def Let_def LMB_RGN_ADJACENT_def LMB_RGN_OVERLAP_def
        lst1_def al.room_def lmb_has_room_def split: prod.splits)
  moreover have l2: "alist_list ?lst2 = L @ ?new # R" and st2: "same_store ?lst2 lst1"
  proof -
    have "\<forall>r \<in> set L. unat (lr_base r) \<le> unat (lr_base ?new)"
      using L by (fastforce simp: region_end_def)
    moreover have "0 < unat sz" using assms(2) by (simp add: unat_gt_0)
    then have "\<forall>r \<in> set R. unat (lr_base ?new) < unat (lr_base r)" using R by auto
    ultimately show "alist_list ?lst2 = L @ ?new # R" "same_store ?lst2 lst1"
      using lmb_insert_effect [OF r1(1,4), of "L @ R" L R ?new] r1(3) rs by auto
  qed
  moreover have wf2: "wf_regions (L @ ?new # R)"
    using wf L R assms(2,3) by (fastforce simp: regions_append wf_region_def region_end_def)
  have "flags_at (L @ ?new # R) = cover (unat base) (unat base + unat sz) flags (flags_at (L @ R))"
  proof
    fix a
    show "flags_at (L @ ?new # R) a = cover (unat base) (unat base + unat sz) flags (flags_at (L @ R)) a"
      using flags_at_in [OF wf2, of ?new a]
      by (auto simp: cover_def in_region_def region_end_def flags_at_append split: option.splits)
  qed
  moreover have "al_flags lst1 = al_flags lst"
    using room by (auto simp: lst1_def al.room_def lmb_has_room_def alist_expand_by_flags)
  then have "good_list ?lst2"
    using st2 l2 wf2 ne r1(2) by (simp add: good_list_def same_store_def alist_err_def)
  moreover have "coalesced (L @ ?new # R)"
    using co L R by (auto simp: regions_append region_end_def)
  ultimately show ?thesis using rs by (auto simp: adds_block_def)
qed

section \<open>All cases\<close>

text \<open>Whether a block overlaps a region, and whether it may be added: only unflagged regions are shared.\<close>

definition overlaps_block :: "phys_addr \<Rightarrow> phys_size \<Rightarrow> lmb_region \<Rightarrow> bool" where
  "overlaps_block base sz r \<longleftrightarrow> unat base < region_end r \<and> unat (lr_base r) < unat base + unat sz"

definition may_add :: "lmb_region list \<Rightarrow> phys_addr \<Rightarrow> phys_size \<Rightarrow> u32 \<Rightarrow> bool" where
  "may_add rs base sz flags \<longleftrightarrow>
     (\<forall>r \<in> set rs. overlaps_block base sz r \<longrightarrow> lr_flags r = LMB_NONE \<and> flags = LMB_NONE)"

lemma below_not_touching:
  assumes "wf_regions L" and "\<forall>r \<in> set L. region_end r \<le> lo"
    and "\<nexists>K x. L = K @ [x] \<and> region_end x = lo \<and> lr_flags x = f"
  shows "\<forall>r \<in> set L. region_end r < lo \<or> region_end r = lo \<and> lr_flags r \<noteq> f"
proof (cases L rule: rev_cases)
  case (snoc K x)
  have x: "wf_region x" using assms(1) snoc by (simp add: regions_append)
  have "region_end r < lo" if "r \<in> set K" for r
    using that assms(1,2) snoc below_base [OF x, of lo] by (auto simp: regions_append)
  then show ?thesis using snoc assms(2,3) by fastforce
qed simp

lemma above_not_touching:
  assumes "wf_regions R" and "\<forall>r \<in> set R. hi \<le> unat (lr_base r)"
    and "\<nexists>y S. R = y # S \<and> unat (lr_base y) = hi \<and> lr_flags y = f"
  shows "\<forall>r \<in> set R. hi < unat (lr_base r) \<or> hi = unat (lr_base r) \<and> lr_flags r \<noteq> f"
proof (cases R)
  case (Cons y S)
  have y: "wf_region y" using assms(1) Cons by (simp add: regions_append)
  have "hi < unat (lr_base r)" if "r \<in> set S" for r
    using that assms(1,2) Cons above_end [OF y, of hi] by (auto simp: regions_append)
  then show ?thesis using Cons assms(2,3) by fastforce
qed simp

lemma lmb_add_region_flags_adds:
  assumes "good_list lst" and "coalesced (alist_list lst)" and "sz \<noteq> 0" and "unat base + unat sz < 2 ^ 64"
    and "lmb_has_room malloc lst" and "may_add (alist_list lst) base sz flags"
  shows "\<exists>lst1. lmb_add_region_flags malloc lst base sz flags = (0, lst1) \<and>
    adds_block lst base sz flags lst1 \<and>
    ((\<forall>r \<in> set (alist_list lst). \<not> overlaps_block base sz r) \<longrightarrow> coalesced (alist_list lst1))"
proof -
  have wf: "wf_regions (alist_list lst)" using assms(1) by (simp add: good_list_def)
  have pos: "0 < unat sz" using assms(3) by (simp add: unat_gt_0)
  obtain L M R where rs: "alist_list lst = L @ M @ R" and L: "\<forall>r \<in> set L. region_end r \<le> unat base"
    and M: "\<forall>r \<in> set M. unat base < region_end r \<and> unat (lr_base r) < unat base + unat sz"
    and R: "\<forall>r \<in> set R. unat base + unat sz \<le> unat (lr_base r)"
    using split_regions [OF wf, of "unat base" "unat base + unat sz"] pos by auto
  have M': "\<forall>r \<in> set M. unat base < region_end r \<and> unat (lr_base r) < unat base + unat sz \<and>
      lr_flags r = LMB_NONE" and fl: "M \<noteq> [] \<Longrightarrow> flags = LMB_NONE"
    using assms(6) rs M by (auto simp: may_add_def overlaps_block_def neq_Nil_conv)
  have ov: "M \<noteq> [] \<Longrightarrow> \<not> (\<forall>r \<in> set (alist_list lst). \<not> overlaps_block base sz r)"
    using rs M by (auto simp: overlaps_block_def neq_Nil_conv)
  show ?thesis
  proof (cases "\<exists>K x. L = K @ [x] \<and> region_end x = unat base \<and> lr_flags x = flags")
    case True
    then obtain K x where K: "L = K @ [x]" "region_end x = unat base" "lr_flags x = flags" by blast
    then have rs': "alist_list lst = K @ x # M @ R" using rs by simp
    consider "M \<noteq> []" | "M = []" "R \<noteq> [] \<Longrightarrow> unat (lr_base (hd R)) \<noteq> unat base + unat sz \<or> lr_flags (hd R) \<noteq> flags"
      | y S where "M = []" "R = y # S" "unat (lr_base y) = unat base + unat sz" "lr_flags y = flags"
      by (cases R) auto
    then show ?thesis
    proof cases
      case 1
      then show ?thesis
        using lmb_add_below_overlap [OF assms(1,3,4) rs' K(2) _ 1 M' R, of malloc] K(3) fl [OF 1] ov [OF 1] by auto
    next
      case 2
      then show ?thesis
        using lmb_add_below_gap [OF assms(1,3,4) _ K(2,3) R, of K malloc] rs' assms(2) by auto
    next
      case 3
      then show ?thesis
        using lmb_add_below_bridge [OF assms(1,3,4) _ K(2,3), of K y S malloc] rs' assms(2) by auto
    qed
  next
    case False
    have L': "\<forall>r \<in> set L. region_end r < unat base \<or> region_end r = unat base \<and> lr_flags r \<noteq> flags"
      using wf rs L False by (intro below_not_touching) (auto simp: wf_regions_append)
    show ?thesis
    proof (cases "M = []")
      case True
      then have rs': "alist_list lst = L @ R" using rs by simp
      show ?thesis
      proof (cases "\<exists>y S. R = y # S \<and> unat (lr_base y) = unat base + unat sz \<and> lr_flags y = flags")
        case True
        then show ?thesis
          using lmb_add_above [OF assms(1,3,4) _ _ L', of _ _ malloc] rs' assms(2) by fastforce
      next
        case False
        have "\<forall>r \<in> set R. unat base + unat sz < unat (lr_base r) \<or>
            unat base + unat sz = unat (lr_base r) \<and> lr_flags r \<noteq> flags"
          using wf rs R False by (intro above_not_touching) (auto simp: wf_regions_append)
        then show ?thesis
          using lmb_add_insert [OF assms(1,3,4) rs' _ L' _ assms(5)] rs' assms(2) by auto
      qed
    next
      case False
      then show ?thesis
        using lmb_add_overlap [OF assms(1,3,4) rs False _ M' R, of malloc] L' fl [OF False] ov [OF False] by auto
    qed
  qed
qed

end
