(* ===== verification/Lmb_Free.thy ===== *)
theory Lmb_Free
  imports Lmb_Cases
begin

text \<open>
  Correctness of \<open>_lmb_free\<close> on a coalesced region list, and the facts on \<open>lmb_overlaps_region\<close> the
  allocator needs.
\<close>

section \<open>One region among the others\<close>

lemma flags_at_mid:
  assumes "wf_regions (L @ r # R)"
  shows "flags_at (L @ r # R) a = (if in_region r a then Some (lr_flags r) else flags_at (L @ R) a)"
  using flags_at_in [OF assms, of r a] by (auto simp: flags_at_append split: option.splits)

lemma flags_at_rest:
  assumes "wf_regions (L @ r # R)" and "in_region r a"
  shows "flags_at (L @ R) a = None"
proof -
  have "\<not> in_region s a" if "s \<in> set (L @ R)" for s
    using that assms by (auto simp: regions_append in_region_def)
  then show ?thesis by (auto simp: flags_at_None_iff)
qed

definition contains_block :: "phys_addr \<Rightarrow> phys_size \<Rightarrow> lmb_region \<Rightarrow> bool" where
  "contains_block base sz r \<longleftrightarrow> unat (lr_base r) \<le> unat base \<and> unat base + unat sz \<le> region_end r"

lemma free_test_iff:
  assumes "wf_region r" and "sz \<noteq> 0" and "unat base + unat sz < 2 ^ 64"
  shows "(lr_base r \<le> base \<and> base + sz - 1 \<le> lr_base r + lr_size r - 1) \<longleftrightarrow> contains_block base sz r"
proof -
  have r: "unat (lr_base r + lr_size r - 1) = region_end r - 1"
    using assms(1) by (subst unat_last_byte) (auto simp: wf_region_def region_end_def)
  have n: "unat (base + sz - 1) = unat base + unat sz - 1"
    using assms(2,3) by (subst unat_last_byte) auto
  have "0 < unat sz" "0 < region_end r"
    using assms(2) wf_region_end [OF assms(1)] by (auto simp: unat_gt_0)
  then show ?thesis unfolding word_le_nat_alt r n contains_block_def by auto
qed

lemma lmb_free_find_at:
  assumes "count = length rs" and "rs = take count rgn" and "\<forall>r \<in> set rs. wf_region r"
    and "sz \<noteq> 0" and "unat base + unat sz < 2 ^ 64" and "i \<le> k" and "k \<le> count"
    and "\<And>j. i \<le> j \<Longrightarrow> j < k \<Longrightarrow> \<not> contains_block base sz (rs ! j)"
    and "k < count \<Longrightarrow> contains_block base sz (rs ! k)"
  shows "lmb_free_find rgn count base (base + sz - 1) i = k"
proof -
  have nth: "rgn ! j = rs ! j" if "j < count" for j using assms(2) that by (metis nth_take)
  have mem: "rs ! j \<in> set rs" if "j < count" for j using assms(1) that by simp
  show ?thesis using assms(6-9)
proof (induction "k - i" arbitrary: i)
  case 0
  then have ik: "i = k" by simp
  show ?case
  proof (cases "k < count")
    case True
    then show ?thesis
      using ik 0(5) nth [OF True] mem [OF True] free_test_iff [of "rs ! k" sz base] assms(3-5)
      by (subst lmb_free_find.simps) (simp add: Let_def)
  next
    case False
    with ik 0(4) show ?thesis by (subst lmb_free_find.simps) simp
  qed
next
  case (Suc d)
  then have lt: "i < k" "i < count" by auto
  have "\<not> contains_block base sz (rs ! i)" using Suc.prems(3) [of i] lt by simp
  then have "lmb_free_find rgn count base (base + sz - 1) i =
      lmb_free_find rgn count base (base + sz - 1) (Suc i)"
    using lt nth [OF lt(2)] mem [OF lt(2)] free_test_iff [of "rs ! i" sz base] assms(3-5)
    by (subst lmb_free_find.simps) (auto simp: Let_def)
  also have "\<dots> = k" by (rule Suc.hyps(1)) (use Suc lt in auto)
  finally show ?case .
qed
qed

text \<open>The words \<open>_lmb_free\<close> computes for a block inside a region.\<close>

lemma free_words:
  assumes "wf_region r" and "sz \<noteq> 0" and "contains_block base sz r"
  shows "unat (base + sz - 1 + 1) = unat base + unat sz \<and>
    unat (lr_base r + lr_size r - 1 - (base + sz - 1)) = region_end r - (unat base + unat sz) \<and>
    unat (base - lr_base r) = unat base - unat (lr_base r) \<and>
    unat (lr_size r - sz) = unat (lr_size r) - unat sz \<and>
    (lr_base r = base \<longleftrightarrow> unat (lr_base r) = unat base) \<and>
    (lr_base r + lr_size r - 1 = base + sz - 1 \<longleftrightarrow> region_end r = unat base + unat sz)"
proof -
  have c: "unat (lr_base r) \<le> unat base" "unat base + unat sz \<le> region_end r"
    using assms(3) by (auto simp: contains_block_def)
  have e: "region_end r < 2 ^ 64" using assms(1) by (simp add: wf_region_def)
  have r: "unat (lr_base r + lr_size r - 1) = region_end r - 1"
    using assms(1) by (subst unat_last_byte) (auto simp: wf_region_def region_end_def)
  have n: "unat (base + sz - 1) = unat base + unat sz - 1"
    using assms(2) c e by (subst unat_last_byte) auto
  have pos: "0 < unat sz" using assms(2) by (simp add: unat_gt_0)
  have "unat (lr_base r + lr_size r - 1 - (base + sz - 1)) =
      unat (lr_base r + lr_size r - 1) - unat (base + sz - 1)"
    using c pos by (intro unat_diff_le) (auto simp only: r n)
  moreover have "unat (base + sz - 1 + 1) = unat base + unat sz" using c e by simp
  moreover have "unat (base - lr_base r) = unat base - unat (lr_base r)" using c by (intro unat_diff_le)
  moreover have "unat sz \<le> unat (lr_size r)" using c by (simp add: region_end_def)
  then have "unat (lr_size r - sz) = unat (lr_size r) - unat sz" by (rule unat_diff_le)
  moreover have "lr_base r + lr_size r - 1 = base + sz - 1 \<longleftrightarrow> region_end r = unat base + unat sz"
    unfolding word_unat_eq_iff r n using c pos by auto
  ultimately show ?thesis using c pos by (simp add: r n word_unat_eq_iff)
qed

text \<open>What freeing a block means.\<close>

definition frees_block :: "lmb_regions \<Rightarrow> phys_addr \<Rightarrow> phys_size \<Rightarrow> lmb_regions \<Rightarrow> bool" where
  "frees_block lst base sz lst1 \<longleftrightarrow> good_list lst1 \<and> coalesced (alist_list lst1) \<and>
     flags_at (alist_list lst1) = uncover (unat base) (unat base + unat sz) (flags_at (alist_list lst))"

text \<open>Replacing a region by a shorter one with the same flags.\<close>

lemma shrink_region:
  assumes "wf_regions (L @ r # R)" and "coalesced (L @ r # R)" and "wf_region s" and "lr_flags s = lr_flags r"
    and "unat (lr_base r) \<le> unat (lr_base s)" and "region_end s \<le> region_end r"
  shows "wf_regions (L @ s # R) \<and> coalesced (L @ s # R) \<and>
    flags_at (L @ s # R) = (\<lambda>a. if in_region r a \<and> \<not> in_region s a then None else flags_at (L @ r # R) a)"
proof -
  have wf': "wf_regions (L @ s # R)" using assms(1,3,5,6) by (fastforce simp: regions_append)
  have r: "wf_region r" using assms(1) by (simp add: regions_append)
  have "region_end x \<noteq> unat (lr_base s) \<or> lr_flags x \<noteq> lr_flags s" if "x \<in> set L" for x
    using that assms(1,2,4,5) by (fastforce simp: regions_append)
  moreover have "region_end s \<noteq> unat (lr_base y) \<or> lr_flags s \<noteq> lr_flags y" if "y \<in> set R" for y
    using that assms(1,2,4,6) by (fastforce simp: regions_append)
  ultimately have "coalesced (L @ s # R)" using assms(2) by (auto simp: regions_append)
  moreover have "in_region s a \<Longrightarrow> in_region r a" for a using assms(5,6) by (auto simp: in_region_def)
  then have "flags_at (L @ s # R) = (\<lambda>a. if in_region r a \<and> \<not> in_region s a then None else flags_at (L @ r # R) a)"
    using flags_at_rest [OF assms(1)] assms(4)
    by (auto simp: fun_eq_iff flags_at_mid [OF assms(1)] flags_at_mid [OF wf'])
  ultimately show ?thesis using wf' by blast
qed

section \<open>Freeing a block\<close>

lemma lmb_free_region_found:
  assumes "good_list lst" and "alist_list lst = L @ r # R" and "sz \<noteq> 0" and "unat base + unat sz < 2 ^ 64"
    and "contains_block base sz r"
  shows "lmb_free_find (al_data lst) (unat (al_count lst)) base (base + sz - 1) 0 = length L \<and>
    length L < unat (al_count lst) \<and> al_data lst ! length L = r"
proof -
  let ?rs = "alist_list lst"
  have wfa: "wf_alist lst" and wf: "wf_regions (L @ r # R)" using assms(1,2) by (auto simp: good_list_def)
  have len: "unat (al_count lst) = length ?rs" by (rule length_alist_list [OF wfa, symmetric])
  have tk: "?rs = take (unat (al_count lst)) (al_data lst)" by (simp add: alist_list_def)
  have "\<not> contains_block base sz (?rs ! j)" if "j < length L" for j
  proof -
    have "L ! j \<in> set L" using that by simp
    then have "region_end (L ! j) \<le> unat (lr_base r)" using wf by (auto simp: regions_append)
    moreover have "0 < unat sz" using assms(3) by (simp add: unat_gt_0)
    ultimately show ?thesis using assms(2,5) that by (auto simp: contains_block_def nth_append)
  qed
  moreover have "\<forall>x \<in> set ?rs. wf_region x" using wf assms(2) by (auto simp: wf_regions_def)
  ultimately have "lmb_free_find (al_data lst) (unat (al_count lst)) base (base + sz - 1) 0 = length L"
    using assms(2,5) len by (intro lmb_free_find_at [OF len tk _ assms(3,4)]) auto
  moreover have "al_data lst ! length L = r" using alist_nth [of "length L" lst] assms(2) by simp
  ultimately show ?thesis using len assms(2) by simp
qed

lemma lmb_free_region_missing:
  assumes "good_list lst" and "sz \<noteq> 0" and "unat base + unat sz < 2 ^ 64"
    and "\<forall>r \<in> set (alist_list lst). \<not> contains_block base sz r"
  shows "lmb_free_region malloc lst base sz = (- 1, lst)"
proof -
  let ?rs = "alist_list lst"
  have wfa: "wf_alist lst" and wf: "wf_regions ?rs" using assms(1) by (auto simp: good_list_def)
  have len: "unat (al_count lst) = length ?rs" by (rule length_alist_list [OF wfa, symmetric])
  have tk: "?rs = take (unat (al_count lst)) (al_data lst)" by (simp add: alist_list_def)
  have "lmb_free_find (al_data lst) (unat (al_count lst)) base (base + sz - 1) 0 = unat (al_count lst)"
    using assms(4) len wf by (intro lmb_free_find_at [OF len tk _ assms(2,3)]) (auto simp: wf_regions_def)
  then show ?thesis by (simp add: lmb_free_region_def Let_def)
qed

lemma frees_by_shrink:
  assumes "good_list lst" and "alist_list lst = L @ r # R" and "coalesced (L @ r # R)"
    and "contains_block base sz r" and "wf_region s" and "lr_flags s = lr_flags r"
    and "unat (lr_base r) \<le> unat (lr_base s)" and "region_end s \<le> region_end r"
    and "\<And>a. in_region r a \<and> \<not> in_region s a \<longleftrightarrow> unat base \<le> a \<and> a < unat base + unat sz"
  shows "frees_block lst base sz (lst\<lparr>al_data := (al_data lst)[length L := s]\<rparr>)"
proof -
  have wfa: "wf_alist lst" and wf: "wf_regions (L @ r # R)" using assms(1,2) by (auto simp: good_list_def)
  have l: "alist_list (lst\<lparr>al_data := (al_data lst)[length L := s]\<rparr>) = L @ s # R"
    and st: "same_store (lst\<lparr>al_data := (al_data lst)[length L := s]\<rparr>) lst"
    using alist_list_update [OF wfa, of "length L" s] assms(2) by auto
  have sh: "wf_regions (L @ s # R) \<and> coalesced (L @ s # R) \<and>
      flags_at (L @ s # R) = (\<lambda>a. if in_region r a \<and> \<not> in_region s a then None else flags_at (L @ r # R) a)"
    by (rule shrink_region [OF wf assms(3,5-8)])
  have "good_list (lst\<lparr>al_data := (al_data lst)[length L := s]\<rparr>)"
    using sh l by (intro good_list_same_store [OF assms(1) st]) simp
  with sh l show ?thesis
    unfolding frees_block_def assms(2) uncover_def by (simp only: l assms(9))
qed

text \<open>A block inside a region: the part below it stays, the part above it is added again.\<close>

lemma lmb_has_room_same:
  assumes "same_store lst1 lst" and "alist_list lst1 = xs" and "length xs = length (alist_list lst)"
    and "wf_alist lst" and "lmb_has_room malloc lst"
  shows "lmb_has_room malloc lst1"
proof -
  have "unat (al_count lst1) = unat (al_count lst)"
    using assms length_alist_list [of lst1] length_alist_list [of lst] by simp
  then have "al_count lst1 = al_count lst" by (simp add: word_unat_eq_iff)
  then show ?thesis using assms
    by (auto simp: lmb_has_room_def same_store_def alist_full_def alist_expand_by_def alist_expand_to_def
        split: if_splits)
qed

lemma lmb_free_region_splits:
  assumes "good_list lst" and "coalesced (alist_list lst)" and "sz \<noteq> 0" and "unat base + unat sz < 2 ^ 64"
    and "lmb_has_room malloc lst" and rs: "alist_list lst = L @ r # R"
    and fnd: "lmb_free_find (al_data lst) (unat (al_count lst)) base (base + sz - 1) 0 = length L"
      "length L < unat (al_count lst)" "al_data lst ! length L = r"
    and "contains_block base sz r"
    and middle: "unat (lr_base r) < unat base" "unat base + unat sz < region_end r"
  shows "\<exists>lst1. lmb_free_region malloc lst base sz = (0, lst1) \<and> frees_block lst base sz lst1"
proof -
  let ?s = "r\<lparr>lr_size := base - lr_base r\<rparr>"
  let ?lst = "lst\<lparr>al_data := (al_data lst)[length L := ?s]\<rparr>"
  let ?hi = "base + sz - 1 + 1" and ?rest = "lr_base r + lr_size r - 1 - (base + sz - 1)"
  have wfa: "wf_alist lst" and wf: "wf_regions (L @ r # R)" using assms(1) rs by (auto simp: good_list_def)
  have co: "coalesced (L @ r # R)" using assms(2) rs by simp
  have r: "wf_region r" using wf by (simp add: regions_append)
  note w = free_words [OF r assms(3) assms(10)]
  have s: "unat (lr_base ?s) = unat (lr_base r)" "region_end ?s = unat base"
    using w middle by (auto simp: region_end_def)
  then have ws: "wf_region ?s" using r middle by (auto simp: wf_region_def region_end_def)
  have hi: "unat ?hi = unat base + unat sz" "unat ?hi + unat ?rest = region_end r" "?rest \<noteq> 0"
    using w middle by (auto simp: unat_gt_0)
  have l1: "alist_list ?lst = L @ ?s # R" and st1: "same_store ?lst lst"
    using alist_list_update [OF wfa, of "length L" ?s] rs by auto
  have sh: "wf_regions (L @ ?s # R)" "coalesced (L @ ?s # R)"
    "flags_at (L @ ?s # R) = (\<lambda>a. if in_region r a \<and> \<not> in_region ?s a then None else flags_at (L @ r # R) a)"
    using shrink_region [OF wf co ws] s middle by auto
  have g1: "good_list ?lst" using sh(1) l1 by (intro good_list_same_store [OF assms(1) st1]) simp
  have room: "lmb_has_room malloc ?lst"
    using lmb_has_room_same [OF st1 l1 _ wfa assms(5)] rs by simp
  have below: "\<forall>x \<in> set (L @ [?s]). region_end x < unat ?hi \<or> region_end x = unat ?hi \<and> lr_flags x \<noteq> lr_flags r"
    using wf middle s hi(1) assms(3) by (auto simp: regions_append unat_gt_0)
  have above: "\<forall>x \<in> set R. unat ?hi + unat ?rest < unat (lr_base x) \<or>
      unat ?hi + unat ?rest = unat (lr_base x) \<and> lr_flags x \<noteq> lr_flags r"
    using wf co hi(2) by (fastforce simp: regions_append)
  have top: "unat ?hi + unat ?rest < 2 ^ 64" using hi(2) r by (simp add: wf_region_def)
  obtain lst2 where add: "lmb_add_region_flags malloc ?lst ?hi ?rest (lr_flags r) = (0, lst2)"
    and blk: "adds_block ?lst ?hi ?rest (lr_flags r) lst2" and co2: "coalesced (alist_list lst2)"
    using lmb_add_insert [OF g1 hi(3) top, of "L @ [?s]" R "lr_flags r" malloc] l1 sh(2) below above room
    by auto
  have "lmb_free_region malloc lst base sz = (0, lst2)"
    using fnd w middle add by (simp add: lmb_free_region_def Let_def)
  moreover have "flags_at (alist_list lst2) = uncover (unat base) (unat base + unat sz) (flags_at (L @ r # R))"
    using blk sh(3) s hi middle
    by (auto simp: adds_block_def l1 fun_eq_iff cover_def uncover_def flags_at_mid [OF wf] in_region_def)
  ultimately show ?thesis using blk co2 rs by (auto simp: frees_block_def adds_block_def)
qed

lemma lmb_free_region_frees:
  assumes "good_list lst" and "coalesced (alist_list lst)" and "sz \<noteq> 0" and "unat base + unat sz < 2 ^ 64"
    and "lmb_has_room malloc lst" and "r \<in> set (alist_list lst)" and "contains_block base sz r"
  shows "\<exists>lst1. lmb_free_region malloc lst base sz = (0, lst1) \<and> frees_block lst base sz lst1"
proof -
  obtain L R where rs: "alist_list lst = L @ r # R" using assms(6) by (meson split_list)
  have wfa: "wf_alist lst" and wf: "wf_regions (L @ r # R)" using assms(1) rs by (auto simp: good_list_def)
  have co: "coalesced (L @ r # R)" using assms(2) rs by simp
  have r: "wf_region r" using wf by (simp add: regions_append)
  have c: "unat (lr_base r) \<le> unat base" "unat base + unat sz \<le> region_end r"
    using assms(7) by (auto simp: contains_block_def)
  have pos: "0 < unat sz" using assms(3) by (simp add: unat_gt_0)
  have fnd: "lmb_free_find (al_data lst) (unat (al_count lst)) base (base + sz - 1) 0 = length L"
    "length L < unat (al_count lst)" "al_data lst ! length L = r"
    using lmb_free_region_found [OF assms(1) rs assms(3,4,7)] by auto
  note w = free_words [OF r assms(3,7)]
  consider (whole) "unat (lr_base r) = unat base" "region_end r = unat base + unat sz"
    | (front) "unat (lr_base r) = unat base" "unat base + unat sz < region_end r"
    | (rear) "unat (lr_base r) < unat base" "region_end r = unat base + unat sz"
    | (middle) "unat (lr_base r) < unat base" "unat base + unat sz < region_end r"
    using c by linarith
  then show ?thesis
  proof cases
    case whole
    then have "lr_base r = base" "lr_size r = sz"
      by (auto simp: word_unat_eq_iff region_end_def)
    then have "lmb_free_region malloc lst base sz = (0, lmb_remove_region lst (length L))"
      using fnd by (simp add: lmb_free_region_def Let_def)
    moreover have l: "alist_list (lmb_remove_region lst (length L)) = L @ R"
      and st: "same_store (lmb_remove_region lst (length L)) lst"
      using lmb_remove_region_effect [OF wfa, of "length L"] rs by (auto simp: remove_nth_def)
    have "good_list (lmb_remove_region lst (length L))"
      using l wf by (intro good_list_same_store [OF assms(1) st]) (auto simp: regions_append)
    moreover have "flags_at (L @ R) = uncover (unat base) (unat base + unat sz) (flags_at (L @ r # R))"
      using flags_at_rest [OF wf] whole
      by (auto simp: fun_eq_iff uncover_def flags_at_mid [OF wf] in_region_def)
    ultimately show ?thesis using l rs co by (auto simp: frees_block_def regions_append)
  next
    case front
    let ?s = "r\<lparr>lr_base := base + sz - 1 + 1, lr_size := lr_size r - sz\<rparr>"
    have s: "unat (lr_base ?s) = unat base + unat sz" "region_end ?s = region_end r"
      using w front c by (auto simp: region_end_def)
    then have "wf_region ?s" using r front by (auto simp: wf_region_def region_end_def)
    moreover have "lmb_free_region malloc lst base sz = (0, lst\<lparr>al_data := (al_data lst)[length L := ?s]\<rparr>)"
      using fnd w front by (auto simp: lmb_free_region_def Let_def)
    moreover have "in_region r a \<and> \<not> in_region ?s a \<longleftrightarrow> unat base \<le> a \<and> a < unat base + unat sz" for a
      unfolding in_region_def s using front by auto
    ultimately show ?thesis
      using frees_by_shrink [OF assms(1) rs co assms(7), of ?s] s front by auto
  next
    case rear
    let ?s = "r\<lparr>lr_size := lr_size r - sz\<rparr>"
    have s: "unat (lr_base ?s) = unat (lr_base r)" "region_end ?s = unat base"
      using w rear c by (auto simp: region_end_def)
    then have "wf_region ?s" using r rear by (auto simp: wf_region_def region_end_def)
    moreover have "lmb_free_region malloc lst base sz = (0, lst\<lparr>al_data := (al_data lst)[length L := ?s]\<rparr>)"
      using fnd w rear by (simp add: lmb_free_region_def Let_def)
    moreover have "in_region r a \<and> \<not> in_region ?s a \<longleftrightarrow> unat base \<le> a \<and> a < unat base + unat sz" for a
      unfolding in_region_def s using rear by auto
    ultimately show ?thesis
      using frees_by_shrink [OF assms(1) rs co assms(7), of ?s] s rear pos by auto
  next
    case middle
    then show ?thesis
      using lmb_free_region_splits [OF assms(1,2,3,4,5) rs fnd assms(7)] by simp
  qed
qed

end
