(* ===== verification/Lmb.thy ===== *)
theory Lmb
  imports Lmb_Free
begin

text \<open>
  The rest of \<open>lib/lmb.c\<close>: the maps handed to IOMMU drivers (\<open>io_lmb_*\<close>) and the global memory map
  with its reservation, release, allocation and query functions, set-up and test hooks. The global
  variable \<open>lmb\<close> is passed as a record.

  Code of other parts of the program enters as parameters: the allocator behind the region lists,
  and \<open>efi_map_update_notify\<close>, which is told about every change (its return code is all that this
  file looks at). What \<open>lmb_init\<close> reads from the board (\<open>gd\<close>, the linker symbols and the
  configuration) is the record \<^theory_text>\<open>lmb_board\<close>.
\<close>

section \<open>Data\<close>

record lmb =
  available_mem :: lmb_regions
  used_mem :: lmb_regions
  lmb_test :: bool

datatype lmb_map_op = LMB_MAP_OP_RESERVE | LMB_MAP_OP_FREE | LMB_MAP_OP_ADD

definition LMB_ALLOC_ANYWHERE :: phys_addr where "LMB_ALLOC_ANYWHERE = 0"
definition LMB_ALIST_INITIAL_SIZE :: u32 where "LMB_ALIST_INITIAL_SIZE = 4"
definition lmb_region_sizeof :: u32 where "lmb_region_sizeof = 24"

definition ALIGN_UP :: "u64 \<Rightarrow> u64 \<Rightarrow> u64" where
  "ALIGN_UP x a = (x + (a - 1)) AND NOT (a - 1)"

definition ALIGN_DOWN :: "u64 \<Rightarrow> u64 \<Rightarrow> u64" where
  "ALIGN_DOWN x a = ALIGN_UP (x - (a - 1)) a"

text \<open>\<open>efi_map_update_notify\<close>; None when the EFI loader is not configured.\<close>

type_synonym efi_notifier = "(phys_addr \<Rightarrow> phys_size \<Rightarrow> lmb_map_op \<Rightarrow> int) option"

section \<open>The search for a free block\<close>

lemma lmb_overlaps_loop_at:
  assumes "lmb_overlaps_loop rgn count base sz i = k"
  shows "(k < count \<longrightarrow> lmb_addrs_overlap base sz (lr_base (rgn ! k)) (lr_size (rgn ! k))) \<and>
    (\<forall>j. i \<le> j \<longrightarrow> j < k \<longrightarrow> j < count \<longrightarrow>
      \<not> lmb_addrs_overlap base sz (lr_base (rgn ! j)) (lr_size (rgn ! j)))"
  using assms
proof (induction rgn count base sz i rule: lmb_overlaps_loop.induct)
  case (1 rgn count base sz i)
  show ?case
  proof (cases "i < count \<and> \<not> lmb_addrs_overlap base sz (lr_base (rgn ! i)) (lr_size (rgn ! i))")
    case True
    then have "lmb_overlaps_loop rgn count base sz (i + 1) = k"
      using "1.prems" lmb_overlaps_loop.simps [of rgn count base sz i] by simp
    note 2 = "1.IH" [OF _ _ this]
    show ?thesis
    proof (intro conjI allI impI)
      fix j
      assume j: "i \<le> j" "j < k" "j < count"
      then show "\<not> lmb_addrs_overlap base sz (lr_base (rgn ! j)) (lr_size (rgn ! j))"
        using 2 True by (cases "j = i") auto
    qed (use 2 True in auto)
  next
    case False
    then have "k = i" using "1.prems" lmb_overlaps_loop.simps [of rgn count base sz i] by (auto split: if_splits)
    then show ?thesis using False by auto
  qed
qed

lemma lmb_overlaps_region_SomeD:
  "lmb_overlaps_region lst base sz = Some i \<Longrightarrow> i < unat (al_count lst) \<and>
     lmb_addrs_overlap base sz (lr_base (al_data lst ! i)) (lr_size (al_data lst ! i))"
  using lmb_overlaps_loop_at [OF refl, of "al_data lst" "unat (al_count lst)" base sz 0]
  by (auto simp: lmb_overlaps_region_def Let_def split: if_splits)

lemma lmb_overlaps_region_NoneD:
  "lmb_overlaps_region lst base sz = None \<Longrightarrow> j < unat (al_count lst) \<Longrightarrow>
     \<not> lmb_addrs_overlap base sz (lr_base (al_data lst ! j)) (lr_size (al_data lst ! j))"
  using lmb_overlaps_loop_at [OF refl, of "al_data lst" "unat (al_count lst)" base sz 0]
  by (auto simp: lmb_overlaps_region_def Let_def split: if_splits)

lemma ALIGN_DOWN_mask: "ALIGN_DOWN x a = x AND NOT (a - 1)"
  by (simp add: ALIGN_DOWN_def ALIGN_UP_def)

lemma ALIGN_DOWN_le: "unat (ALIGN_DOWN x a) \<le> unat x"
  unfolding ALIGN_DOWN_mask by (metis word_and_le2 word_le_nat_alt)

text \<open>The next candidate of the search is always lower, whatever the alignment and the regions.\<close>

lemma lmb_next_candidate:
  assumes "base \<noteq> 0" and "lmb_addrs_overlap base sz res_base rsz" and "\<not> res_base < sz"
  shows "unat (ALIGN_DOWN (res_base - sz) align) < unat base"
proof -
  have le: "res_base \<le> base + sz - 1" using assms(2) by (simp add: lmb_addrs_overlap_def Let_def)
  have d: "unat (res_base - sz) = unat res_base - unat sz" "unat sz \<le> unat res_base"
    using assms(3) by (auto simp: word_less_nat_alt unat_diff_le)
  have b: "0 < unat base" using assms(1) by (simp add: unat_gt_0)
  have "unat (base + sz - 1) < unat base + unat sz"
  proof (cases "unat base + unat sz \<le> 2 ^ 64")
    case True
    show ?thesis
    proof (cases "sz = 0")
      case False
      then show ?thesis using True b by (subst unat_last_byte) auto
    next
      case True
      then show ?thesis using b unat_diff_le [of 1 base] by simp
    qed
  next
    case False
    then show ?thesis using unat_u64_less [of "base + sz - 1"] by simp
  qed
  then have "unat res_base - unat sz < unat base" using le d(2) b by (simp add: word_le_nat_alt)
  then show ?thesis using ALIGN_DOWN_le [of "res_base - sz" align] d(1) by simp
qed

text \<open>
  The inner loop of \<open>_lmb_alloc_base\<close> and \<open>io_lmb_alloc\<close> in one bank: the first candidate that
  overlaps no used region, None when the loop is left for the next bank.
\<close>

function lmb_alloc_fit ::
  "lmb_regions \<Rightarrow> phys_size \<Rightarrow> u64 \<Rightarrow> phys_addr \<Rightarrow> phys_addr \<Rightarrow> phys_addr option" where
  "lmb_alloc_fit used sz align lmbbase base =
     (if base \<noteq> 0 \<and> lmbbase \<le> base then
        case lmb_overlaps_region used base sz of
          None \<Rightarrow> Some base
        | Some rgn \<Rightarrow>
            let res_base = lr_base (al_data used ! rgn)
            in if res_base < sz then None
               else lmb_alloc_fit used sz align lmbbase (ALIGN_DOWN (res_base - sz) align)
      else None)"
  by pat_completeness auto
termination
  by (relation "measure (\<lambda>(used, sz, align, lmbbase, base). unat base)")
    (auto dest!: lmb_overlaps_region_SomeD intro: lmb_next_candidate)

declare lmb_alloc_fit.simps [simp del]

section \<open>Maps of an IOMMU\<close>

definition io_lmb_setup :: "allocator \<Rightarrow> lmb \<Rightarrow> int \<times> lmb" where
  "io_lmb_setup malloc io_lmb =
     (case alist_init malloc lmb_region_zero lmb_region_sizeof LMB_ALIST_INITIAL_SIZE of (ok1, avail) \<Rightarrow>
        let io1 = io_lmb\<lparr>available_mem := avail\<rparr>
        in if \<not> ok1 then (- ENOMEM, io1)
           else case alist_init malloc lmb_region_zero lmb_region_sizeof LMB_ALIST_INITIAL_SIZE of
             (ok2, used) \<Rightarrow>
               let io2 = io1\<lparr>used_mem := used\<rparr>
               in if \<not> ok2 then (- ENOMEM, io2) else (0, io2\<lparr>lmb_test := False\<rparr>))"

definition io_lmb_teardown :: "lmb \<Rightarrow> lmb" where
  "io_lmb_teardown io_lmb =
     io_lmb\<lparr>available_mem := alist_uninit (available_mem io_lmb), used_mem := alist_uninit (used_mem io_lmb)\<rparr>"

definition io_lmb_add :: "allocator \<Rightarrow> lmb \<Rightarrow> phys_addr \<Rightarrow> phys_size \<Rightarrow> int \<times> lmb" where
  "io_lmb_add malloc io_lmb base sz =
     (case lmb_add_region_flags malloc (available_mem io_lmb) base sz LMB_NONE of
        (ret, lst) \<Rightarrow> (ret, io_lmb\<lparr>available_mem := lst\<rparr>))"

text \<open>The banks from index \<open>n - 1\<close> down to 0.\<close>

primrec io_lmb_alloc_loop :: "lmb \<Rightarrow> phys_size \<Rightarrow> u64 \<Rightarrow> nat \<Rightarrow> phys_addr option" where
  "io_lmb_alloc_loop io_lmb sz align 0 = None"
| "io_lmb_alloc_loop io_lmb sz align (Suc i) =
     (let lmbbase = lr_base (al_data (available_mem io_lmb) ! i);
          lmbsize = lr_size (al_data (available_mem io_lmb) ! i)
      in if lmbsize < sz then io_lmb_alloc_loop io_lmb sz align i
         else case lmb_alloc_fit (used_mem io_lmb) sz align lmbbase
                     (ALIGN_DOWN (lmbbase + lmbsize - sz) align) of
                Some base \<Rightarrow> Some base
              | None \<Rightarrow> io_lmb_alloc_loop io_lmb sz align i)"

definition io_lmb_alloc :: "allocator \<Rightarrow> lmb \<Rightarrow> phys_size \<Rightarrow> u64 \<Rightarrow> phys_addr \<times> lmb" where
  "io_lmb_alloc malloc io_lmb sz align =
     (case io_lmb_alloc_loop io_lmb sz align (unat (al_count (available_mem io_lmb))) of
        None \<Rightarrow> (0, io_lmb)
      | Some base \<Rightarrow>
          (case lmb_add_region_flags malloc (used_mem io_lmb) base sz LMB_NONE of
             (ret, lst) \<Rightarrow> (if ret < 0 then 0 else base, io_lmb\<lparr>used_mem := lst\<rparr>)))"

definition io_lmb_free :: "allocator \<Rightarrow> lmb \<Rightarrow> phys_addr \<Rightarrow> phys_size \<Rightarrow> int \<times> lmb" where
  "io_lmb_free malloc io_lmb base sz =
     (case lmb_free_region malloc (used_mem io_lmb) base sz of
        (ret, lst) \<Rightarrow> (ret, io_lmb\<lparr>used_mem := lst\<rparr>))"

section \<open>The global map: reserve, release, allocate\<close>

definition lmb_map_update_notify ::
  "efi_notifier \<Rightarrow> lmb \<Rightarrow> phys_addr \<Rightarrow> phys_size \<Rightarrow> lmb_map_op \<Rightarrow> u32 \<Rightarrow> int" where
  "lmb_map_update_notify efi lmb addr sz op_code flags =
     (case efi of
        Some notify \<Rightarrow>
          if \<not> lmb_test lmb \<and> flags AND LMB_NONOTIFY = 0 then notify addr sz op_code else 0
      | None \<Rightarrow> 0)"

function lmb_can_reserve_loop ::
  "lmb_region list \<Rightarrow> nat \<Rightarrow> phys_addr \<Rightarrow> phys_size \<Rightarrow> u32 \<Rightarrow> nat \<Rightarrow> bool" where
  "lmb_can_reserve_loop rgn count base sz flags i =
     (if i < count then
        if lmb_addrs_overlap base sz (lr_base (rgn ! i)) (lr_size (rgn ! i)) \<and>
           (flags \<noteq> LMB_NONE \<or> flags \<noteq> lr_flags (rgn ! i)) then False
        else lmb_can_reserve_loop rgn count base sz flags (i + 1)
      else True)"
  by pat_completeness auto
termination
  by (relation "measure (\<lambda>(rgn, count, base, sz, flags, i). count - i)") auto

declare lmb_can_reserve_loop.simps [simp del]

definition lmb_can_reserve_region :: "lmb \<Rightarrow> phys_addr \<Rightarrow> phys_size \<Rightarrow> u32 \<Rightarrow> bool" where
  "lmb_can_reserve_region lmb base sz flags =
     lmb_can_reserve_loop (al_data (used_mem lmb)) (unat (al_count (used_mem lmb))) base sz flags 0"

definition lmb_add :: "allocator \<Rightarrow> efi_notifier \<Rightarrow> lmb \<Rightarrow> phys_addr \<Rightarrow> phys_size \<Rightarrow> int \<times> lmb" where
  "lmb_add malloc efi lmb base sz =
     (case lmb_add_region_flags malloc (available_mem lmb) base sz LMB_NONE of
        (ret, lst) \<Rightarrow>
          let lmb1 = lmb\<lparr>available_mem := lst\<rparr>
          in if ret \<noteq> 0 then (ret, lmb1)
             else (lmb_map_update_notify efi lmb1 base sz LMB_MAP_OP_ADD LMB_NONE, lmb1))"

definition lmb_free_flags ::
  "allocator \<Rightarrow> efi_notifier \<Rightarrow> lmb \<Rightarrow> phys_addr \<Rightarrow> phys_size \<Rightarrow> u32 \<Rightarrow> int \<times> lmb" where
  "lmb_free_flags malloc efi lmb base sz flags =
     (case lmb_free_region malloc (used_mem lmb) base sz of
        (ret, lst) \<Rightarrow>
          let lmb1 = lmb\<lparr>used_mem := lst\<rparr>
          in if ret < 0 then (ret, lmb1)
             else (lmb_map_update_notify efi lmb1 base sz LMB_MAP_OP_FREE flags, lmb1))"

definition lmb_free :: "allocator \<Rightarrow> efi_notifier \<Rightarrow> lmb \<Rightarrow> phys_addr \<Rightarrow> phys_size \<Rightarrow> int \<times> lmb" where
  "lmb_free malloc efi lmb base sz = lmb_free_flags malloc efi lmb base sz LMB_NONE"

definition lmb_reserve ::
  "allocator \<Rightarrow> efi_notifier \<Rightarrow> lmb \<Rightarrow> phys_addr \<Rightarrow> phys_size \<Rightarrow> u32 \<Rightarrow> int \<times> lmb" where
  "lmb_reserve malloc efi lmb base sz flags =
     (if \<not> lmb_can_reserve_region lmb base sz flags then (- EEXIST, lmb)
      else case lmb_add_region_flags malloc (used_mem lmb) base sz flags of
        (ret, lst) \<Rightarrow>
          let lmb1 = lmb\<lparr>used_mem := lst\<rparr>
          in if ret \<noteq> 0 then (ret, lmb1)
             else (lmb_map_update_notify efi lmb1 base sz LMB_MAP_OP_RESERVE flags, lmb1))"

text \<open>The first candidate in a bank; None when the bank lies above the limit.\<close>

definition lmb_alloc_start ::
  "phys_addr \<Rightarrow> phys_size \<Rightarrow> phys_size \<Rightarrow> u64 \<Rightarrow> phys_addr \<Rightarrow> phys_addr option" where
  "lmb_alloc_start lmbbase lmbsize sz align max_addr =
     (if max_addr = LMB_ALLOC_ANYWHERE then Some (ALIGN_DOWN (lmbbase + lmbsize - sz) align)
      else if lmbbase < max_addr then
        let base = lmbbase + lmbsize;
            base1 = (if base < lmbbase then - 1 else base)
        in Some (ALIGN_DOWN (min base1 max_addr - sz) align)
      else None)"

primrec lmb_alloc_loop :: "lmb \<Rightarrow> phys_size \<Rightarrow> u64 \<Rightarrow> phys_addr \<Rightarrow> nat \<Rightarrow> phys_addr option" where
  "lmb_alloc_loop lmb sz align max_addr 0 = None"
| "lmb_alloc_loop lmb sz align max_addr (Suc i) =
     (let lmbbase = lr_base (al_data (available_mem lmb) ! i);
          lmbsize = lr_size (al_data (available_mem lmb) ! i)
      in if lmbsize < sz then lmb_alloc_loop lmb sz align max_addr i
         else case lmb_alloc_start lmbbase lmbsize sz align max_addr of
                None \<Rightarrow> lmb_alloc_loop lmb sz align max_addr i
              | Some start \<Rightarrow>
                  (case lmb_alloc_fit (used_mem lmb) sz align lmbbase start of
                     Some base \<Rightarrow> Some base
                   | None \<Rightarrow> lmb_alloc_loop lmb sz align max_addr i))"

text \<open>\<open>_lmb_alloc_base\<close>. A nonzero notification result is returned as the address.\<close>

definition lmb_alloc_base_flags ::
  "allocator \<Rightarrow> efi_notifier \<Rightarrow> lmb \<Rightarrow> phys_size \<Rightarrow> u64 \<Rightarrow> phys_addr \<Rightarrow> u32 \<Rightarrow> phys_addr \<times> lmb" where
  "lmb_alloc_base_flags malloc efi lmb sz align max_addr flags =
     (case lmb_alloc_loop lmb sz align max_addr (unat (al_count (available_mem lmb))) of
        None \<Rightarrow> (0, lmb)
      | Some base \<Rightarrow>
          (case lmb_add_region_flags malloc (used_mem lmb) base sz flags of
             (r, lst) \<Rightarrow>
               let lmb1 = lmb\<lparr>used_mem := lst\<rparr>;
                   ret = lmb_map_update_notify efi lmb1 base sz LMB_MAP_OP_RESERVE flags
               in if r \<noteq> 0 then (0, lmb1)
                  else if ret \<noteq> 0 then (word_of_int ret, lmb1)
                  else (base, lmb1)))"

definition lmb_alloc :: "allocator \<Rightarrow> efi_notifier \<Rightarrow> lmb \<Rightarrow> phys_size \<Rightarrow> u64 \<Rightarrow> phys_addr \<times> lmb" where
  "lmb_alloc malloc efi lmb sz align =
     lmb_alloc_base_flags malloc efi lmb sz align LMB_ALLOC_ANYWHERE LMB_NONE"

definition lmb_alloc_base ::
  "allocator \<Rightarrow> efi_notifier \<Rightarrow> lmb \<Rightarrow> phys_size \<Rightarrow> u64 \<Rightarrow> phys_addr \<Rightarrow> u32 \<Rightarrow> phys_addr \<times> lmb" where
  "lmb_alloc_base malloc efi lmb sz align max_addr flags =
     lmb_alloc_base_flags malloc efi lmb sz align max_addr flags"

definition lmb_alloc_addr ::
  "allocator \<Rightarrow> efi_notifier \<Rightarrow> lmb \<Rightarrow> phys_addr \<Rightarrow> phys_size \<Rightarrow> u32 \<Rightarrow> int \<times> lmb" where
  "lmb_alloc_addr malloc efi lmb base sz flags =
     (case lmb_overlaps_region (available_mem lmb) base sz of
        None \<Rightarrow> (- 1, lmb)
      | Some rgn \<Rightarrow>
          let mem = al_data (available_mem lmb) ! rgn
          in if lmb_addrs_overlap (lr_base mem) (lr_size mem) (base + sz - 1) 1 then
               case lmb_reserve malloc efi lmb base sz flags of
                 (ret, lmb1) \<Rightarrow> (if ret = 0 then 0 else - 1, lmb1)
             else (- 1, lmb))"

section \<open>Queries\<close>

function lmb_free_size_loop :: "lmb_region list \<Rightarrow> nat \<Rightarrow> phys_addr \<Rightarrow> nat \<Rightarrow> phys_size option" where
  "lmb_free_size_loop rgn count addr i =
     (if i < count then
        if addr < lr_base (rgn ! i) then Some (lr_base (rgn ! i) - addr)
        else if lr_base (rgn ! i) + lr_size (rgn ! i) > addr then Some 0
        else lmb_free_size_loop rgn count addr (i + 1)
      else None)"
  by pat_completeness auto
termination
  by (relation "measure (\<lambda>(rgn, count, addr, i). count - i)") auto

declare lmb_free_size_loop.simps [simp del]

definition lmb_get_free_size :: "lmb \<Rightarrow> phys_addr \<Rightarrow> phys_size" where
  "lmb_get_free_size lmb addr =
     (case lmb_overlaps_region (available_mem lmb) addr 1 of
        None \<Rightarrow> 0
      | Some rgn \<Rightarrow>
          (case lmb_free_size_loop (al_data (used_mem lmb)) (unat (al_count (used_mem lmb))) addr 0 of
             Some n \<Rightarrow> n
           | None \<Rightarrow>
               let high = al_data (available_mem lmb) ! (unat (al_count (available_mem lmb)) - 1)
               in lr_base high + lr_size high - addr))"

function lmb_is_reserved_loop :: "lmb_region list \<Rightarrow> nat \<Rightarrow> phys_addr \<Rightarrow> u32 \<Rightarrow> nat \<Rightarrow> bool" where
  "lmb_is_reserved_loop rgn count addr flags i =
     (if i < count then
        let upper = lr_base (rgn ! i) + lr_size (rgn ! i) - 1
        in if addr \<ge> lr_base (rgn ! i) \<and> addr \<le> upper then lr_flags (rgn ! i) AND flags = flags
           else lmb_is_reserved_loop rgn count addr flags (i + 1)
      else False)"
  by pat_completeness auto
termination
  by (relation "measure (\<lambda>(rgn, count, addr, flags, i). count - i)") auto

declare lmb_is_reserved_loop.simps [simp del]

definition lmb_is_reserved_flags :: "lmb \<Rightarrow> phys_addr \<Rightarrow> u32 \<Rightarrow> bool" where
  "lmb_is_reserved_flags lmb addr flags =
     lmb_is_reserved_loop (al_data (used_mem lmb)) (unat (al_count (used_mem lmb))) addr flags 0"

section \<open>Set-up\<close>

text \<open>
  The board as \<open>lmb_init\<close> sees it: the fields of \<open>gd\<close> it reads, the linker symbols, the configuration
  and the two hooks that add regions on their own, \<open>lmb_arch_add_memory\<close> (None without
  \<open>LMB_ARCH_MEM_MAP\<close>) and \<open>boot_fdt_add_mem_rsv_regions\<close> (None without a device tree).
\<close>

record dram_bank =
  bank_start :: phys_addr
  bank_size :: phys_size

datatype xpl_phase = PHASE_SPL | PHASE_BOARD_R | PHASE_OTHER

record lmb_board =
  bi_dram :: "dram_bank list"
  ram_top :: u64
  start_addr_sp :: u64
  skip_reloc :: bool
  image_start :: u64
  mon_len :: u64
  CONFIG_STACK_SIZE :: u64
  spl_stack_r :: bool
  spl_bss :: "(u64 \<times> u64) option"
  lmb_arch_add_memory :: "(lmb \<Rightarrow> lmb) option"
  boot_fdt_add_mem_rsv_regions :: "(lmb \<Rightarrow> lmb) option"
  board_phase :: xpl_phase

fun lmb_reserve_uboot_loop :: "allocator \<Rightarrow> efi_notifier \<Rightarrow> lmb_board \<Rightarrow> dram_bank list \<Rightarrow> lmb \<Rightarrow> lmb" where
  "lmb_reserve_uboot_loop malloc efi bd [] lmb = lmb"
| "lmb_reserve_uboot_loop malloc efi bd (b # banks) lmb =
     (let rsv_start = start_addr_sp bd - CONFIG_STACK_SIZE bd;
          bank_end = bank_start b + bank_size b - 1
      in if bank_size b = 0 \<or> rsv_start < bank_start b \<or> rsv_start > bank_end
         then lmb_reserve_uboot_loop malloc efi bd banks lmb
         else
           let bank_end1 = (if bank_end > ram_top bd then ram_top bd - 1 else bank_end);
               lmb1 = snd (lmb_reserve malloc efi lmb rsv_start (bank_end1 - rsv_start + 1) LMB_NOOVERWRITE)
           in if skip_reloc bd
              then snd (lmb_reserve malloc efi lmb1 (image_start bd) (mon_len bd) LMB_NOOVERWRITE)
              else lmb1)"

definition lmb_reserve_uboot_region :: "allocator \<Rightarrow> efi_notifier \<Rightarrow> lmb_board \<Rightarrow> lmb \<Rightarrow> lmb" where
  "lmb_reserve_uboot_region malloc efi bd lmb = lmb_reserve_uboot_loop malloc efi bd (bi_dram bd) lmb"

definition lmb_reserve_common :: "allocator \<Rightarrow> efi_notifier \<Rightarrow> lmb_board \<Rightarrow> lmb \<Rightarrow> lmb" where
  "lmb_reserve_common malloc efi bd lmb =
     (let lmb1 = lmb_reserve_uboot_region malloc efi bd lmb
      in case boot_fdt_add_mem_rsv_regions bd of Some f \<Rightarrow> f lmb1 | None \<Rightarrow> lmb1)"

definition lmb_reserve_common_spl :: "allocator \<Rightarrow> efi_notifier \<Rightarrow> lmb_board \<Rightarrow> lmb \<Rightarrow> lmb" where
  "lmb_reserve_common_spl malloc efi bd lmb =
     (let lmb1 = (if spl_stack_r bd
                  then snd (lmb_reserve malloc efi lmb (start_addr_sp bd - 16384) 16384 LMB_NOOVERWRITE)
                  else lmb)
      in case spl_bss bd of
           Some (bss_start, bss_end) \<Rightarrow>
             snd (lmb_reserve malloc efi lmb1 bss_start (bss_end - bss_start) LMB_NOOVERWRITE)
         | None \<Rightarrow> lmb1)"

definition lmb_add_bank :: "allocator \<Rightarrow> efi_notifier \<Rightarrow> u64 \<Rightarrow> dram_bank \<Rightarrow> lmb \<Rightarrow> lmb" where
  "lmb_add_bank malloc efi rtop b lmb =
     (let bank_end = bank_start b + bank_size b
      in if bank_size b \<noteq> 0 then
           let lmb1 = snd (lmb_add malloc efi lmb (bank_start b) (bank_size b))
           in if bank_start b \<ge> rtop
              then snd (lmb_reserve malloc efi lmb1 (bank_start b) (bank_size b) LMB_NOOVERWRITE)
              else if bank_end > rtop
              then snd (lmb_reserve malloc efi lmb1 rtop (bank_end - rtop) LMB_NOOVERWRITE)
              else lmb1
         else lmb)"

definition lmb_add_memory :: "allocator \<Rightarrow> efi_notifier \<Rightarrow> lmb_board \<Rightarrow> lmb \<Rightarrow> lmb" where
  "lmb_add_memory malloc efi bd lmb =
     (case lmb_arch_add_memory bd of
        Some f \<Rightarrow> f lmb
      | None \<Rightarrow>
          let rtop = (if ram_top bd = 0 then 0x100000000 else ram_top bd)
          in fold (lmb_add_bank malloc efi rtop) (bi_dram bd) lmb)"

definition lmb_setup :: "allocator \<Rightarrow> bool \<Rightarrow> lmb \<Rightarrow> int \<times> lmb" where
  "lmb_setup malloc test lmb =
     (case alist_init malloc lmb_region_zero lmb_region_sizeof LMB_ALIST_INITIAL_SIZE of (ok1, avail) \<Rightarrow>
        let lmb1 = lmb\<lparr>available_mem := avail\<rparr>
        in if \<not> ok1 then (- ENOMEM, lmb1)
           else case alist_init malloc lmb_region_zero lmb_region_sizeof LMB_ALIST_INITIAL_SIZE of
             (ok2, used) \<Rightarrow>
               let lmb2 = lmb1\<lparr>used_mem := used\<rparr>
               in if \<not> ok2 then (- ENOMEM, lmb2) else (0, lmb2\<lparr>lmb_test := test\<rparr>))"

definition lmb_init :: "allocator \<Rightarrow> efi_notifier \<Rightarrow> lmb_board \<Rightarrow> lmb \<Rightarrow> int \<times> lmb" where
  "lmb_init malloc efi bd lmb =
     (case lmb_setup malloc False lmb of
        (ret, lmb1) \<Rightarrow>
          if ret \<noteq> 0 then (ret, lmb1)
          else
            let lmb2 = lmb_add_memory malloc efi bd lmb1
            in (0, case board_phase bd of
                     PHASE_SPL \<Rightarrow> lmb_reserve_common_spl malloc efi bd lmb2
                   | PHASE_BOARD_R \<Rightarrow> lmb_reserve_common malloc efi bd lmb2
                   | PHASE_OTHER \<Rightarrow> lmb2))"

text \<open>The test hooks: \<open>lmb_push\<close> returns the saved map as well.\<close>

definition lmb_push :: "allocator \<Rightarrow> lmb \<Rightarrow> int \<times> lmb \<times> lmb" where
  "lmb_push malloc lmb = (case lmb_setup malloc True lmb of (ret, lmb1) \<Rightarrow> (ret, lmb, lmb1))"

definition lmb_pop :: "lmb \<Rightarrow> lmb \<Rightarrow> lmb" where
  "lmb_pop lmb store =
     (let lmb1 = lmb\<lparr>available_mem := alist_uninit (available_mem lmb), used_mem := alist_uninit (used_mem lmb)\<rparr>
      in lmb1\<lparr>available_mem := available_mem store, used_mem := used_mem store, lmb_test := lmb_test store\<rparr>)"

end
