(* ===== verification/Lmb_Spec.thy ===== *)
theory Lmb_Spec
  imports Lmb
begin

text \<open>
  What the memory map promises: reserving and freeing blocks, stated on the map from addresses to
  flags that the used regions stand for.
\<close>

section \<open>Blocks and regions\<close>

text \<open>Addresses of a block; a block that can be requested is not empty and does not wrap.\<close>

definition in_block :: "phys_addr \<Rightarrow> phys_size \<Rightarrow> nat \<Rightarrow> bool" where
  "in_block base sz a \<longleftrightarrow> unat base \<le> a \<and> a < unat base + unat sz"

definition valid_block :: "phys_addr \<Rightarrow> phys_size \<Rightarrow> bool" where
  "valid_block base sz \<longleftrightarrow> sz \<noteq> 0 \<and> unat base + unat sz < 2 ^ 64"

definition reserved :: "lmb \<Rightarrow> nat \<Rightarrow> u32 option" where
  "reserved lmb = flags_at (alist_list (used_mem lmb))"

definition memory :: "lmb \<Rightarrow> nat \<Rightarrow> u32 option" where
  "memory lmb = flags_at (alist_list (available_mem lmb))"

text \<open>The invariant of a memory map.\<close>

definition wf_lmb :: "lmb \<Rightarrow> bool" where
  "wf_lmb lmb \<longleftrightarrow> good_list (available_mem lmb) \<and> good_list (used_mem lmb) \<and>
     coalesced (alist_list (used_mem lmb))"

text \<open>A block that \<open>lmb_reserve\<close> accepts: free, or shared between unflagged reservations.\<close>

definition reservable :: "(nat \<Rightarrow> u32 option) \<Rightarrow> phys_addr \<Rightarrow> phys_size \<Rightarrow> u32 \<Rightarrow> bool" where
  "reservable m base sz flags \<longleftrightarrow>
     (\<forall>a. in_block base sz a \<longrightarrow> m a = None \<or> m a = Some LMB_NONE \<and> flags = LMB_NONE)"

definition free_block :: "(nat \<Rightarrow> u32 option) \<Rightarrow> phys_addr \<Rightarrow> phys_size \<Rightarrow> bool" where
  "free_block m base sz \<longleftrightarrow> (\<forall>a. in_block base sz a \<longrightarrow> m a = None)"

definition uniform_block :: "(nat \<Rightarrow> u32 option) \<Rightarrow> phys_addr \<Rightarrow> phys_size \<Rightarrow> bool" where
  "uniform_block m base sz \<longleftrightarrow> (\<exists>f. \<forall>a. in_block base sz a \<longrightarrow> m a = Some f)"

lemma flags_at_SomeD: "flags_at rs a = Some f \<Longrightarrow> \<exists>r \<in> set rs. in_region r a \<and> lr_flags r = f"
  by (induction rs) (auto split: if_splits)

lemma overlaps_block_iff:
  assumes "wf_region r" and "sz \<noteq> 0"
  shows "overlaps_block base sz r \<longleftrightarrow> (\<exists>a. in_block base sz a \<and> in_region r a)"
proof
  assume o: "overlaps_block base sz r"
  have "in_block base sz (max (unat base) (unat (lr_base r))) \<and> in_region r (max (unat base) (unat (lr_base r)))"
    using o assms wf_region_end [OF assms(1)] by (auto simp: overlaps_block_def in_block_def in_region_def unat_gt_0)
  then show "\<exists>a. in_block base sz a \<and> in_region r a" by blast
qed (auto simp: overlaps_block_def in_block_def in_region_def)

lemma no_overlap_iff_free:
  assumes "wf_regions rs" and "sz \<noteq> 0"
  shows "(\<forall>r \<in> set rs. \<not> overlaps_block base sz r) \<longleftrightarrow> free_block (flags_at rs) base sz"
  using assms by (auto simp: free_block_def flags_at_None_iff wf_regions_def overlaps_block_iff)

lemma may_add_iff_reservable:
  assumes "wf_regions rs" and "sz \<noteq> 0"
  shows "may_add rs base sz flags \<longleftrightarrow> reservable (flags_at rs) base sz flags"
proof
  assume m: "may_add rs base sz flags"
  show "reservable (flags_at rs) base sz flags"
    unfolding reservable_def
  proof (intro allI impI)
    fix a assume a: "in_block base sz a"
    show "flags_at rs a = None \<or> flags_at rs a = Some LMB_NONE \<and> flags = LMB_NONE"
    proof (cases "flags_at rs a")
      case (Some f)
      then obtain r where r: "r \<in> set rs" "in_region r a" "lr_flags r = f" using flags_at_SomeD by blast
      then have "overlaps_block base sz r"
        using a overlaps_block_iff [OF wf_regions_set [OF assms(1) r(1)] assms(2)] by blast
      then show ?thesis using m r Some by (auto simp: may_add_def)
    qed simp
  qed
next
  assume m: "reservable (flags_at rs) base sz flags"
  show "may_add rs base sz flags"
    unfolding may_add_def
  proof (intro ballI impI)
    fix r assume r: "r \<in> set rs" "overlaps_block base sz r"
    then obtain a where a: "in_block base sz a" "in_region r a"
      using overlaps_block_iff [OF wf_regions_set [OF assms(1) r(1)] assms(2)] by blast
    then have "flags_at rs a = Some (lr_flags r)" using flags_at_in [OF assms(1) r(1)] by blast
    then show "lr_flags r = LMB_NONE \<and> flags = LMB_NONE" using m a by (auto simp: reservable_def)
  qed
qed

text \<open>In a coalesced list a block with one flag throughout lies inside one region.\<close>

lemma contains_block_iff_uniform:
  assumes "wf_regions rs" and "coalesced rs" and "sz \<noteq> 0"
  shows "(\<exists>r \<in> set rs. contains_block base sz r) \<longleftrightarrow> uniform_block (flags_at rs) base sz"
proof
  assume "\<exists>r \<in> set rs. contains_block base sz r"
  then obtain r where r: "r \<in> set rs" "contains_block base sz r" by blast
  then have "flags_at rs a = Some (lr_flags r)" if "in_block base sz a" for a
    using that by (intro flags_at_in [OF assms(1)]) (auto simp: contains_block_def in_block_def in_region_def)
  then show "uniform_block (flags_at rs) base sz" by (auto simp: uniform_block_def)
next
  assume "uniform_block (flags_at rs) base sz"
  then obtain f where f: "\<And>a. in_block base sz a \<Longrightarrow> flags_at rs a = Some f" by (auto simp: uniform_block_def)
  have "in_block base sz (unat base)" using assms(3) by (simp add: in_block_def unat_gt_0)
  then obtain r where r: "r \<in> set rs" "in_region r (unat base)" "lr_flags r = f" using f flags_at_SomeD by blast
  have "unat base + unat sz \<le> region_end r"
  proof (rule ccontr)
    assume "\<not> ?thesis"
    then have "in_block base sz (region_end r)" using r by (auto simp: in_block_def in_region_def)
    then obtain s where s: "s \<in> set rs" "in_region s (region_end r)" "lr_flags s = f" using f flags_at_SomeD by blast
    have ne: "s \<noteq> r" using s(2) by (auto simp: in_region_def)
    obtain i j where ij: "i < length rs" "j < length rs" "rs ! i = r" "rs ! j = s"
      using r(1) s(1) by (metis in_set_conv_nth)
    have "i < j \<or> j < i" using ne ij by (metis nat_neq_iff)
    then show False
    proof
      assume "i < j"
      then have "region_end r \<le> unat (lr_base s)" "region_end r = unat (lr_base s) \<longrightarrow> lr_flags r \<noteq> lr_flags s"
        using assms(1,2) ij by (auto simp: wf_regions_def coalesced_def sorted_wrt_iff_nth_less)
      then show False using s r(3) by (auto simp: in_region_def)
    next
      assume "j < i"
      then have "region_end s \<le> unat (lr_base r)"
        using assms(1) ij by (auto simp: wf_regions_def sorted_wrt_iff_nth_less)
      then show False using s r(2) by (auto simp: in_region_def)
    qed
  qed
  then show "\<exists>r \<in> set rs. contains_block base sz r" using r by (auto simp: contains_block_def in_region_def)
qed

section \<open>Scans over the array\<close>

lemma good_list_nth:
  assumes "good_list lst" and "j < unat (al_count lst)"
  shows "al_data lst ! j \<in> set (alist_list lst) \<and> wf_region (al_data lst ! j)"
proof -
  have "j < length (alist_list lst)" using assms by (simp add: good_list_def length_alist_list)
  then have "al_data lst ! j \<in> set (alist_list lst)" using alist_nth nth_mem by metis
  then show ?thesis using assms(1) by (simp add: good_list_def wf_regions_def)
qed

lemma good_list_setE:
  assumes "good_list lst" and "r \<in> set (alist_list lst)"
  obtains j where "j < unat (al_count lst)" "al_data lst ! j = r"
proof -
  obtain j where "j < length (alist_list lst)" "alist_list lst ! j = r" using assms(2) by (metis in_set_conv_nth)
  then show ?thesis using that [of j] assms(1) by (simp add: good_list_def length_alist_list alist_nth)
qed

lemma lmb_can_reserve_loop_iff:
  "lmb_can_reserve_loop rgn count base sz flags i \<longleftrightarrow>
     (\<forall>j. i \<le> j \<longrightarrow> j < count \<longrightarrow> lmb_addrs_overlap base sz (lr_base (rgn ! j)) (lr_size (rgn ! j)) \<longrightarrow>
        flags = LMB_NONE \<and> lr_flags (rgn ! j) = LMB_NONE)"
  (is "_ \<longleftrightarrow> (\<forall>j. i \<le> j \<longrightarrow> ?P j)")
proof (induction rgn count base sz flags i rule: lmb_can_reserve_loop.induct)
  case (1 rgn count base sz flags i)
  let ?P = "\<lambda>j. j < count \<longrightarrow> lmb_addrs_overlap base sz (lr_base (rgn ! j)) (lr_size (rgn ! j)) \<longrightarrow>
    flags = LMB_NONE \<and> lr_flags (rgn ! j) = LMB_NONE"
  have split: "(\<forall>j \<ge> i. ?P j) \<longleftrightarrow> ?P i \<and> (\<forall>j \<ge> i + 1. ?P j)"
    by (metis Suc_eq_plus1 Suc_leI le_neq_implies_less le_refl less_imp_le_nat Suc_le_lessD)
  show ?case
  proof (cases "i < count \<and> ?P i")
    case True
    then have "lmb_can_reserve_loop rgn count base sz flags i = lmb_can_reserve_loop rgn count base sz flags (i + 1)"
      by (subst lmb_can_reserve_loop.simps) auto
    moreover have "\<dots> \<longleftrightarrow> (\<forall>j \<ge> i + 1. ?P j)" using True by (intro "1.IH") auto
    ultimately show ?thesis using split True by blast
  next
    case False
    then show ?thesis by (subst lmb_can_reserve_loop.simps) (auto simp: split)
  qed
qed

lemma lmb_can_reserve_iff:
  assumes "good_list (used_mem lmb)" and "valid_block base sz"
  shows "lmb_can_reserve_region lmb base sz flags \<longleftrightarrow> reservable (reserved lmb) base sz flags"
proof -
  let ?l = "used_mem lmb"
  have wf: "wf_regions (alist_list ?l)" using assms(1) by (simp add: good_list_def)
  have sz: "sz \<noteq> 0" "unat base + unat sz \<le> 2 ^ 64" using assms(2) by (auto simp: valid_block_def)
  have ov: "lmb_addrs_overlap base sz (lr_base r) (lr_size r) \<longleftrightarrow> overlaps_block base sz r"
    if "r \<in> set (alist_list ?l)" for r
    using lmb_addrs_overlap_iff [OF wf_regions_set [OF wf that] sz] by (simp add: overlaps_block_def)
  have "lmb_can_reserve_region lmb base sz flags \<longleftrightarrow> may_add (alist_list ?l) base sz flags"
    unfolding lmb_can_reserve_region_def lmb_can_reserve_loop_iff may_add_def
    using good_list_nth [OF assms(1)] ov by (metis good_list_setE [OF assms(1)] zero_le)
  then show ?thesis using may_add_iff_reservable [OF wf sz(1)] by (simp add: reserved_def)
qed

lemma lmb_overlaps_region_None_iff:
  assumes "good_list lst" and "valid_block base sz"
  shows "lmb_overlaps_region lst base sz = None \<longleftrightarrow> free_block (flags_at (alist_list lst)) base sz"
proof -
  have wf: "wf_regions (alist_list lst)" using assms(1) by (simp add: good_list_def)
  have sz: "sz \<noteq> 0" "unat base + unat sz \<le> 2 ^ 64" using assms(2) by (auto simp: valid_block_def)
  have ov: "lmb_addrs_overlap base sz (lr_base r) (lr_size r) \<longleftrightarrow> overlaps_block base sz r"
    if "r \<in> set (alist_list lst)" for r
    using lmb_addrs_overlap_iff [OF wf_regions_set [OF wf that] sz] by (simp add: overlaps_block_def)
  have "lmb_overlaps_region lst base sz = None \<longleftrightarrow> (\<forall>r \<in> set (alist_list lst). \<not> overlaps_block base sz r)"
  proof
    assume n: "lmb_overlaps_region lst base sz = None"
    show "\<forall>r \<in> set (alist_list lst). \<not> overlaps_block base sz r"
    proof
      fix r assume r: "r \<in> set (alist_list lst)"
      then obtain j where "j < unat (al_count lst)" "al_data lst ! j = r" by (rule good_list_setE [OF assms(1)])
      then show "\<not> overlaps_block base sz r" using lmb_overlaps_region_NoneD [OF n] ov [OF r] by blast
    qed
  next
    assume n: "\<forall>r \<in> set (alist_list lst). \<not> overlaps_block base sz r"
    show "lmb_overlaps_region lst base sz = None"
    proof (cases "lmb_overlaps_region lst base sz")
      case (Some i)
      then show ?thesis using lmb_overlaps_region_SomeD [OF Some] good_list_nth [OF assms(1)] n ov by blast
    qed
  qed
  then show ?thesis using no_overlap_iff_free [OF wf sz(1)] by simp
qed

section \<open>Region lists as a store of reservations\<close>

text \<open>
  The contract between a region list and its clients: blocks are taken out of the free part of an
  address map and given back. It is discharged below for the raw region lists (as the IOMMU maps use
  them) and for the global memory map.
\<close>

locale reservation_store =
  fixes meaning :: "'s \<Rightarrow> nat \<Rightarrow> u32 option"
    and inv :: "'s \<Rightarrow> bool"
    and room :: "'s \<Rightarrow> bool"
    and take_block :: "'s \<Rightarrow> phys_addr \<Rightarrow> phys_size \<Rightarrow> u32 \<Rightarrow> int \<times> 's"
    and give_block :: "'s \<Rightarrow> phys_addr \<Rightarrow> phys_size \<Rightarrow> int \<times> 's"
  assumes take_law: "\<lbrakk>inv s; room s; valid_block base sz; free_block (meaning s) base sz\<rbrakk> \<Longrightarrow>
      \<exists>s1. take_block s base sz f = (0, s1) \<and> inv s1 \<and>
        meaning s1 = cover (unat base) (unat base + unat sz) f (meaning s)"
    and give_law: "\<lbrakk>inv s; room s; valid_block base sz; uniform_block (meaning s) base sz\<rbrakk> \<Longrightarrow>
      \<exists>s1. give_block s base sz = (0, s1) \<and> inv s1 \<and>
        meaning s1 = uncover (unat base) (unat base + unat sz) (meaning s)"
    and give_missing: "\<lbrakk>inv s; valid_block base sz; \<not> uniform_block (meaning s) base sz\<rbrakk> \<Longrightarrow>
      give_block s base sz = (- 1, s)"
begin

text \<open>Giving a block back after taking it restores the map.\<close>

lemma take_give:
  assumes "inv s" and "room s" and "valid_block base sz" and "free_block (meaning s) base sz"
    and "take_block s base sz f = (r, s1)" and "room s1"
  shows "r = 0 \<and> (\<exists>s2. give_block s1 base sz = (0, s2) \<and> inv s2 \<and> meaning s2 = meaning s)"
proof -
  have s1: "r = 0" "inv s1" "meaning s1 = cover (unat base) (unat base + unat sz) f (meaning s)"
    using take_law [OF assms(1-4), of f] assms(5) by auto
  then have "uniform_block (meaning s1) base sz" by (auto simp: uniform_block_def in_block_def cover_def)
  then obtain s2 where "give_block s1 base sz = (0, s2)" "inv s2"
    "meaning s2 = uncover (unat base) (unat base + unat sz) (meaning s1)"
    using give_law [OF s1(2) assms(6,3)] by blast
  moreover have "uncover (unat base) (unat base + unat sz) (meaning s1) = meaning s"
    using s1(3) assms(4) by (auto simp: fun_eq_iff uncover_def cover_def free_block_def in_block_def)
  ultimately show ?thesis using s1(1) by simp
qed

text \<open>A block given back cannot be given back again.\<close>

lemma give_twice:
  assumes "inv s" and "room s" and "valid_block base sz" and "give_block s base sz = (0, s1)"
  shows "give_block s1 base sz = (- 1, s1)"
proof -
  have "uniform_block (meaning s) base sz"
    using give_missing [OF assms(1,3)] assms(4) by force
  then have s1: "inv s1" "meaning s1 = uncover (unat base) (unat base + unat sz) (meaning s)"
    using give_law [OF assms(1-3)] assms(4) by auto
  have "in_block base sz (unat base)" using assms(3) by (simp add: valid_block_def in_block_def unat_gt_0)
  then have "\<not> uniform_block (meaning s1) base sz"
    unfolding s1(2) uniform_block_def uncover_def by (auto simp: in_block_def)
  then show ?thesis by (rule give_missing [OF s1(1) assms(3)])
qed

text \<open>Taking one block does not disturb another one, whichever flags it has.\<close>

lemma take_keeps:
  assumes "inv s" and "room s" and "valid_block base sz" and "free_block (meaning s) base sz"
    and "take_block s base sz f = (r, s1)" and "meaning s a = Some g"
  shows "meaning s1 a = Some g"
  using take_law [OF assms(1-4), of f] assms(4-6)
  by (auto simp: cover_def free_block_def in_block_def)

end

interpretation rl: reservation_store "\<lambda>lst. flags_at (alist_list lst)"
  "\<lambda>lst. good_list lst \<and> coalesced (alist_list lst)" "lmb_has_room malloc"
  "lmb_add_region_flags malloc" "lmb_free_region malloc"
  for malloc
proof (unfold_locales, goal_cases)
  case (1 s base sz f)
  then have wf: "wf_regions (alist_list s)" and sz: "sz \<noteq> 0" "unat base + unat sz < 2 ^ 64"
    by (auto simp: good_list_def valid_block_def)
  have no: "\<forall>r \<in> set (alist_list s). \<not> overlaps_block base sz r"
    using no_overlap_iff_free [OF wf sz(1)] 1(4) by simp
  then have "may_add (alist_list s) base sz f" by (simp add: may_add_def)
  then obtain lst1 where "lmb_add_region_flags malloc s base sz f = (0, lst1)" "adds_block s base sz f lst1"
    "coalesced (alist_list lst1)"
    using lmb_add_region_flags_adds [of s sz base malloc f] 1 sz no by blast
  then show ?case by (auto simp: adds_block_def)
next
  case (2 s base sz)
  then have wf: "wf_regions (alist_list s)" and sz: "sz \<noteq> 0" "unat base + unat sz < 2 ^ 64"
    by (auto simp: good_list_def valid_block_def)
  obtain r where "r \<in> set (alist_list s)" "contains_block base sz r"
    using contains_block_iff_uniform [OF wf _ sz(1), of base] 2 by blast
  then obtain lst1 where "lmb_free_region malloc s base sz = (0, lst1)" "frees_block s base sz lst1"
    using lmb_free_region_frees [of s sz base malloc r] 2 sz by blast
  then show ?case by (auto simp: frees_block_def)
next
  case (3 s base sz)
  then have wf: "wf_regions (alist_list s)" and sz: "sz \<noteq> 0" "unat base + unat sz < 2 ^ 64"
    by (auto simp: good_list_def valid_block_def)
  have "\<forall>r \<in> set (alist_list s). \<not> contains_block base sz r"
    using contains_block_iff_uniform [OF wf _ sz(1), of base] 3 by blast
  then show ?case using lmb_free_region_missing [of s sz base malloc] 3 sz by blast
qed

text \<open>The global map when nobody is told: the EFI loader is off or the map is the one of the tests.\<close>

lemma lmb_map_update_notify_quiet:
  "efi = None \<or> lmb_test lmb \<Longrightarrow> lmb_map_update_notify efi lmb base sz op_code flags = 0"
  by (auto simp: lmb_map_update_notify_def split: option.splits)

interpretation gl: reservation_store reserved "\<lambda>lmb. wf_lmb lmb \<and> (efi = None \<or> lmb_test lmb)"
  "\<lambda>lmb. lmb_has_room malloc (used_mem lmb)" "lmb_reserve malloc efi" "lmb_free malloc efi"
  for malloc efi
proof (unfold_locales, goal_cases)
  case (1 s base sz f)
  then have g: "good_list (used_mem s)" "good_list (used_mem s) \<and> coalesced (alist_list (used_mem s))"
    by (auto simp: wf_lmb_def)
  have "reservable (reserved s) base sz f" using 1(4) by (simp add: reservable_def free_block_def)
  then have "lmb_can_reserve_region s base sz f" using lmb_can_reserve_iff [OF g(1) 1(3)] by simp
  moreover obtain lst1 where "lmb_add_region_flags malloc (used_mem s) base sz f = (0, lst1)"
    "good_list lst1 \<and> coalesced (alist_list lst1)"
    "flags_at (alist_list lst1) = cover (unat base) (unat base + unat sz) f (flags_at (alist_list (used_mem s)))"
    using rl.take_law [OF g(2) 1(2,3), of f] 1(4) unfolding reserved_def by blast
  ultimately show ?case
    using 1(1) by (auto simp: lmb_reserve_def lmb_map_update_notify_quiet wf_lmb_def reserved_def)
next
  case (2 s base sz)
  then have g: "good_list (used_mem s) \<and> coalesced (alist_list (used_mem s))" by (auto simp: wf_lmb_def)
  then obtain lst1 where "lmb_free_region malloc (used_mem s) base sz = (0, lst1)"
    "good_list lst1 \<and> coalesced (alist_list lst1)"
    "flags_at (alist_list lst1) = uncover (unat base) (unat base + unat sz) (flags_at (alist_list (used_mem s)))"
    using rl.give_law [OF g 2(2,3)] 2(4) unfolding reserved_def by blast
  then show ?case
    using 2(1) by (auto simp: lmb_free_def lmb_free_flags_def lmb_map_update_notify_quiet wf_lmb_def reserved_def)
next
  case (3 s base sz)
  then have g: "good_list (used_mem s) \<and> coalesced (alist_list (used_mem s))" by (auto simp: wf_lmb_def)
  then have "lmb_free_region malloc (used_mem s) base sz = (- 1, used_mem s)"
    using rl.give_missing [OF g 3(2)] 3(3) unfolding reserved_def by blast
  then show ?case by (simp add: lmb_free_def lmb_free_flags_def)
qed

end
