(* ===== verification/Lmb_Alloc.thy ===== *)
theory Lmb_Alloc
  imports Lmb_Spec
begin

text \<open>
  Allocation from the memory map: the search of \<open>_lmb_alloc_base\<close> finds the highest block that is
  aligned, lies in a bank below the limit and is not reserved.
\<close>

section \<open>Alignment\<close>

lemma and_not_eq_diff: "(y :: u64) AND NOT m = y - (y AND m)"
proof -
  have "y = (y AND NOT m) + (y AND m)"
    by (subst disjunctive_add_eq_or) (auto intro!: bit_eqI simp: bit_simps)
  then show ?thesis by (metis add_diff_cancel_right')
qed

lemma unat_take_bit: "unat (take_bit k (y :: u64)) = unat y mod 2 ^ k"
  by (metis take_bit_eq_mod unsigned_take_bit_eq)

lemma unat_ALIGN_DOWN: "unat (ALIGN_DOWN y (2 ^ k)) = unat y - unat y mod 2 ^ k"
proof -
  have "(2 ^ k - 1 :: u64) = mask k" by (simp add: mask_eq_exp_minus_1)
  then have "ALIGN_DOWN y (2 ^ k) = y - take_bit k y"
    by (simp add: ALIGN_DOWN_mask and_not_eq_diff take_bit_eq_mask)
  moreover have "unat (take_bit k y) \<le> unat y" by (simp add: unat_take_bit)
  ultimately show ?thesis by (simp add: unat_diff_le unat_take_bit)
qed

lemma ALIGN_DOWN_dvd: "2 ^ k dvd unat (ALIGN_DOWN y (2 ^ k))"
  by (simp add: unat_ALIGN_DOWN minus_mod_eq_div_mult)

lemma ALIGN_DOWN_greatest:
  assumes "2 ^ k dvd unat x" and "unat x \<le> unat y"
  shows "unat x \<le> unat (ALIGN_DOWN y (2 ^ k))"
proof -
  have "unat x div 2 ^ k \<le> unat y div 2 ^ k" using assms(2) by (rule div_le_mono)
  then have "unat x div 2 ^ k * 2 ^ k \<le> unat y div 2 ^ k * 2 ^ k" by simp
  then show ?thesis using assms(1) by (simp add: unat_ALIGN_DOWN minus_mod_eq_div_mult)
qed

section \<open>The search in one bank\<close>

text \<open>An aligned free block that starts between two addresses, and the highest one.\<close>

definition candidate :: "lmb_regions \<Rightarrow> phys_size \<Rightarrow> nat \<Rightarrow> phys_addr \<Rightarrow> phys_addr \<Rightarrow> phys_addr \<Rightarrow> bool" where
  "candidate used sz k lo hi x \<longleftrightarrow> x \<noteq> 0 \<and> 2 ^ k dvd unat x \<and> unat lo \<le> unat x \<and> unat x \<le> unat hi \<and>
     free_block (flags_at (alist_list used)) x sz"

definition highest :: "(phys_addr \<Rightarrow> bool) \<Rightarrow> phys_addr option \<Rightarrow> bool" where
  "highest P r \<longleftrightarrow> (case r of None \<Rightarrow> \<forall>x. \<not> P x | Some b \<Rightarrow> P b \<and> (\<forall>x. P x \<longrightarrow> unat x \<le> unat b))"

lemma candidate_below_used:
  assumes "good_list used" and "valid_block base sz" and "lmb_overlaps_region used base sz = Some rgn"
    and "candidate used sz k lo base x"
  shows "unat x + unat sz \<le> unat (lr_base (al_data used ! rgn))"
proof -
  let ?r = "al_data used ! rgn"
  have o: "rgn < unat (al_count used)" "lmb_addrs_overlap base sz (lr_base ?r) (lr_size ?r)"
    using lmb_overlaps_region_SomeD [OF assms(3)] by auto
  have r: "?r \<in> set (alist_list used)" "wf_region ?r" using good_list_nth [OF assms(1) o(1)] by auto
  have wf: "wf_regions (alist_list used)" using assms(1) by (simp add: good_list_def)
  have sz: "sz \<noteq> 0" "unat base + unat sz \<le> 2 ^ 64" using assms(2) by (auto simp: valid_block_def)
  have e: "unat base < region_end ?r" using lmb_addrs_overlap_iff [OF r(2) sz] o(2) by simp
  have "\<not> overlaps_block x sz ?r"
    using no_overlap_iff_free [OF wf sz(1), of x] assms(4) r(1) by (simp add: candidate_def)
  then show ?thesis using e assms(4) by (auto simp: overlaps_block_def candidate_def)
qed

lemma lmb_alloc_fit_highest:
  assumes "good_list used" and "sz \<noteq> 0" and "unat start + unat sz < 2 ^ 64" and "2 ^ k dvd unat start"
  shows "highest (candidate used sz k lo start) (lmb_alloc_fit used sz (2 ^ k) lo start)"
  using assms
proof (induction used sz "(2 :: u64) ^ k" lo start rule: lmb_alloc_fit.induct)
  case (1 used sz lo start)
  have v: "valid_block start sz" using "1.prems" by (simp add: valid_block_def)
  show ?case
  proof (cases "start \<noteq> 0 \<and> lo \<le> start")
    case in_bank: True
    show ?thesis
    proof (cases "lmb_overlaps_region used start sz")
      case None
      then have "free_block (flags_at (alist_list used)) start sz"
        using lmb_overlaps_region_None_iff [OF "1.prems"(1) v] by simp
      then show ?thesis
        using None in_bank "1.prems" by (subst lmb_alloc_fit.simps) (auto simp: highest_def candidate_def word_le_nat_alt)
    next
      case (Some rgn)
      let ?b = "lr_base (al_data used ! rgn)"
      let ?n = "ALIGN_DOWN (?b - sz) (2 ^ k)"
      note below = candidate_below_used [OF "1.prems"(1) v Some, of k lo]
      show ?thesis
      proof (cases "?b < sz")
        case True
        then have "\<not> candidate used sz k lo start x" for x
          using below [of x] by (auto simp: word_less_nat_alt)
        then show ?thesis using True Some in_bank by (subst lmb_alloc_fit.simps) (auto simp: highest_def)
      next
        case False
        then have d: "unat (?b - sz) = unat ?b - unat sz" "unat sz \<le> unat ?b"
          by (auto simp: word_less_nat_alt unat_diff_le)
        have n: "unat ?n + unat sz < 2 ^ 64"
          using ALIGN_DOWN_le [of "?b - sz" "2 ^ k"] d unat_u64_less [of ?b] by simp
        have lt: "unat ?n < unat start"
          using lmb_next_candidate False in_bank lmb_overlaps_region_SomeD [OF Some] by blast
        have "candidate used sz k lo start x \<longleftrightarrow> candidate used sz k lo ?n x" for x
          using below [of x] lt d ALIGN_DOWN_greatest [of k x "?b - sz"] by (auto simp: candidate_def)
        then have eq: "candidate used sz k lo start = candidate used sz k lo ?n" by blast
        have "highest (candidate used sz k lo ?n) (lmb_alloc_fit used sz (2 ^ k) lo ?n)"
          using "1.hyps" [OF in_bank Some refl] False "1.prems" n ALIGN_DOWN_dvd by blast
        then show ?thesis
          using eq Some in_bank False by (subst lmb_alloc_fit.simps) simp
      qed
    qed
  next
    case False
    then have "\<not> candidate used sz k lo start x" for x
      by (auto simp: candidate_def word_le_nat_alt unat_eq_0)
    then show ?thesis using False by (subst lmb_alloc_fit.simps) (auto simp: highest_def)
  qed
qed

section \<open>The first candidate of a bank\<close>

definition below_limit :: "phys_addr \<Rightarrow> phys_size \<Rightarrow> phys_addr \<Rightarrow> bool" where
  "below_limit max_addr sz x \<longleftrightarrow> max_addr = LMB_ALLOC_ANYWHERE \<or> unat x + unat sz \<le> unat max_addr"

definition in_bank :: "lmb_region \<Rightarrow> phys_size \<Rightarrow> phys_addr \<Rightarrow> bool" where
  "in_bank m sz x \<longleftrightarrow> unat (lr_base m) \<le> unat x \<and> unat x + unat sz \<le> region_end m"

lemma lmb_alloc_start_None:
  assumes "lmb_alloc_start lmbbase lmbsize sz align max_addr = None" and "sz \<noteq> 0"
    and "unat lmbbase \<le> unat x"
  shows "\<not> below_limit max_addr sz x"
proof -
  have "0 < unat sz" using assms(2) by (simp add: unat_gt_0)
  then show ?thesis using assms
    by (auto simp: lmb_alloc_start_def below_limit_def Let_def word_less_nat_alt split: if_splits)
qed

lemma lmb_alloc_start_Some:
  assumes "lmb_alloc_start (lr_base m) (lr_size m) sz (2 ^ k) max_addr = Some start"
    and "wf_region m" and "\<not> lr_size m < sz" and "max_addr = LMB_ALLOC_ANYWHERE \<or> sz \<le> max_addr"
  shows "2 ^ k dvd unat start \<and> unat start + unat sz < 2 ^ 64 \<and>
    (\<forall>x. 2 ^ k dvd unat x \<longrightarrow> unat (lr_base m) \<le> unat x \<longrightarrow>
       unat x \<le> unat start \<longleftrightarrow> in_bank m sz x \<and> below_limit max_addr sz x)"
proof -
  have e: "region_end m < 2 ^ 64" "unat (lr_base m + lr_size m) = region_end m"
    using assms(2) by (auto simp: wf_region_def region_end_def)
  have ge: "\<not> lr_base m + lr_size m < lr_base m"
    using e(2) by (simp add: word_less_nat_alt region_end_def)
  have sz: "unat sz \<le> region_end m" using assms(3) by (simp add: word_less_nat_alt region_end_def)
  obtain y where y: "start = ALIGN_DOWN y (2 ^ k)"
    and u: "unat y + unat sz = (if max_addr = LMB_ALLOC_ANYWHERE then region_end m
      else min (region_end m) (unat max_addr))"
  proof (cases "max_addr = LMB_ALLOC_ANYWHERE")
    case True
    then show ?thesis
      using that [of "lr_base m + lr_size m - sz"] assms(1) e sz
      by (simp add: lmb_alloc_start_def unat_diff_le)
  next
    case False
    have "unat (min (lr_base m + lr_size m) max_addr) = min (region_end m) (unat max_addr)"
      using e(2) by (simp add: min_def word_le_nat_alt)
    moreover have "unat sz \<le> unat (min (lr_base m + lr_size m) max_addr)"
      using calculation False assms(4) sz by (simp add: word_le_nat_alt)
    ultimately show ?thesis
      using that [of "min (lr_base m + lr_size m) max_addr - sz"] assms(1) False ge
      by (auto simp: lmb_alloc_start_def Let_def unat_diff_le split: if_splits)
  qed
  have le: "unat start \<le> unat y" unfolding y by (rule ALIGN_DOWN_le)
  have "unat x \<le> unat start \<longleftrightarrow> in_bank m sz x \<and> below_limit max_addr sz x"
    if "2 ^ k dvd unat x" "unat (lr_base m) \<le> unat x" for x
    using that le u ALIGN_DOWN_greatest [OF that(1), of y]
    by (auto simp: y in_bank_def below_limit_def split: if_splits)
  moreover have "unat start + unat sz < 2 ^ 64" using le u e(1) by (auto split: if_splits)
  ultimately show ?thesis using ALIGN_DOWN_dvd [of k y] by (simp add: y)
qed

section \<open>The search over the banks\<close>

text \<open>A block that an allocation may return: aligned, unreserved, in a bank and below the limit.\<close>

definition bank_fit :: "lmb \<Rightarrow> phys_size \<Rightarrow> nat \<Rightarrow> phys_addr \<Rightarrow> lmb_region \<Rightarrow> phys_addr \<Rightarrow> bool" where
  "bank_fit lmb sz k max_addr m x \<longleftrightarrow> x \<noteq> 0 \<and> 2 ^ k dvd unat x \<and> in_bank m sz x \<and>
     below_limit max_addr sz x \<and> free_block (reserved lmb) x sz"

definition lmb_fits :: "lmb \<Rightarrow> phys_size \<Rightarrow> nat \<Rightarrow> phys_addr \<Rightarrow> phys_addr \<Rightarrow> bool" where
  "lmb_fits lmb sz k max_addr x \<longleftrightarrow>
     (\<exists>m \<in> set (alist_list (available_mem lmb)). bank_fit lmb sz k max_addr m x)"

lemma bank_search:
  assumes "good_list (used_mem lmb)" and "wf_region m" and "sz \<noteq> 0" and "\<not> lr_size m < sz"
    and "max_addr = LMB_ALLOC_ANYWHERE \<or> sz \<le> max_addr"
  shows "highest (bank_fit lmb sz k max_addr m)
    (case lmb_alloc_start (lr_base m) (lr_size m) sz (2 ^ k) max_addr of
       None \<Rightarrow> None | Some start \<Rightarrow> lmb_alloc_fit (used_mem lmb) sz (2 ^ k) (lr_base m) start)"
proof (cases "lmb_alloc_start (lr_base m) (lr_size m) sz (2 ^ k) max_addr")
  case None
  then show ?thesis
    using lmb_alloc_start_None [OF None assms(3)] by (auto simp: highest_def bank_fit_def in_bank_def)
next
  case (Some start)
  note s = lmb_alloc_start_Some [OF Some assms(2,4,5)]
  have "candidate (used_mem lmb) sz k (lr_base m) start x \<longleftrightarrow> bank_fit lmb sz k max_addr m x" for x
    using s by (auto simp: candidate_def bank_fit_def reserved_def in_bank_def)
  then have "candidate (used_mem lmb) sz k (lr_base m) start = bank_fit lmb sz k max_addr m" by blast
  then show ?thesis
    using lmb_alloc_fit_highest [OF assms(1,3), of start k "lr_base m"] s Some by simp
qed

lemma lmb_alloc_loop_highest:
  assumes "good_list (used_mem lmb)" and "good_list (available_mem lmb)" and "sz \<noteq> 0"
    and "max_addr = LMB_ALLOC_ANYWHERE \<or> sz \<le> max_addr" and "n \<le> length (alist_list (available_mem lmb))"
  shows "highest (\<lambda>x. \<exists>m \<in> set (take n (alist_list (available_mem lmb))). bank_fit lmb sz k max_addr m x)
    (lmb_alloc_loop lmb sz (2 ^ k) max_addr n)"
  using assms(5)
proof (induction n)
  case 0
  then show ?case by (simp add: highest_def)
next
  case (Suc i)
  let ?rs = "alist_list (available_mem lmb)"
  let ?Q = "\<lambda>n x. \<exists>m \<in> set (take n ?rs). bank_fit lmb sz k max_addr m x"
  let ?m = "?rs ! i"
  have m: "al_data (available_mem lmb) ! i = ?m" using Suc.prems by (intro alist_nth) simp
  have wf: "wf_regions ?rs" using assms(2) by (simp add: good_list_def)
  have wm: "wf_region ?m" using Suc.prems wf by (intro wf_regions_set [OF wf]) simp
  have Q: "?Q (Suc i) x \<longleftrightarrow> ?Q i x \<or> bank_fit lmb sz k max_addr ?m x" for x
    using Suc.prems by (auto simp: take_Suc_conv_app_nth)
  have IH: "highest (?Q i) (lmb_alloc_loop lmb sz (2 ^ k) max_addr i)" using Suc by simp
  show ?case
  proof (cases "lr_size ?m < sz")
    case True
    then have "\<not> bank_fit lmb sz k max_addr ?m x" for x
      by (auto simp: bank_fit_def in_bank_def region_end_def word_less_nat_alt)
    then have "?Q (Suc i) = ?Q i" using Q by (intro ext) simp
    then show ?thesis using True IH by (simp only: lmb_alloc_loop.simps m Let_def if_True)
  next
    case False
    let ?r = "case lmb_alloc_start (lr_base ?m) (lr_size ?m) sz (2 ^ k) max_addr of
       None \<Rightarrow> None | Some start \<Rightarrow> lmb_alloc_fit (used_mem lmb) sz (2 ^ k) (lr_base ?m) start"
    have b: "highest (bank_fit lmb sz k max_addr ?m) ?r" by (rule bank_search [OF assms(1) wm assms(3) False assms(4)])
    have l: "lmb_alloc_loop lmb sz (2 ^ k) max_addr (Suc i) =
        (case ?r of Some x \<Rightarrow> Some x | None \<Rightarrow> lmb_alloc_loop lmb sz (2 ^ k) max_addr i)"
      using False by (simp add: m Let_def split: option.split)
    have low: "unat x \<le> unat y" if "?Q i x" "bank_fit lmb sz k max_addr ?m y" for x y
    proof -
      obtain j where j: "j < i" "bank_fit lmb sz k max_addr (?rs ! j) x"
        using \<open>?Q i x\<close> Suc.prems by (auto simp: in_set_conv_nth)
      have "region_end (?rs ! j) \<le> unat (lr_base ?m)"
        using wf j(1) Suc.prems by (auto simp: wf_regions_def sorted_wrt_iff_nth_less)
      then show ?thesis using j(2) that(2) by (auto simp: bank_fit_def in_bank_def)
    qed
    show ?thesis
    proof (cases ?r)
      case None
      then have "?Q (Suc i) = ?Q i" using Q b unfolding None highest_def by (intro ext) simp
      then show ?thesis using IH None by (simp only: l option.case)
    next
      case (Some x)
      then have "bank_fit lmb sz k max_addr ?m x" "\<forall>y. bank_fit lmb sz k max_addr ?m y \<longrightarrow> unat y \<le> unat x"
        using b unfolding Some highest_def by auto
      then show ?thesis unfolding l Some highest_def option.case using Q low by blast
    qed
  qed
qed

lemma lmb_alloc_search:
  assumes "wf_lmb lmb" and "sz \<noteq> 0" and "max_addr = LMB_ALLOC_ANYWHERE \<or> sz \<le> max_addr"
  shows "highest (lmb_fits lmb sz k max_addr)
    (lmb_alloc_loop lmb sz (2 ^ k) max_addr (unat (al_count (available_mem lmb))))"
proof -
  have g: "good_list (used_mem lmb)" "good_list (available_mem lmb)" using assms(1) by (auto simp: wf_lmb_def)
  have n: "unat (al_count (available_mem lmb)) = length (alist_list (available_mem lmb))"
    using g(2) by (simp add: good_list_def length_alist_list)
  show ?thesis using lmb_alloc_loop_highest [OF g assms(2,3), of "length (alist_list (available_mem lmb))" k]
    by (simp add: n lmb_fits_def [abs_def])
qed

lemma lmb_fits_valid:
  assumes "wf_lmb lmb" and "lmb_fits lmb sz k max_addr x" and "sz \<noteq> 0"
  shows "valid_block x sz"
proof -
  obtain m where "m \<in> set (alist_list (available_mem lmb))" "bank_fit lmb sz k max_addr m x"
    using assms(2) by (auto simp: lmb_fits_def)
  moreover from this have "wf_region m" using assms(1) by (auto simp: wf_lmb_def good_list_def wf_regions_def)
  ultimately show ?thesis using assms(3) by (auto simp: valid_block_def bank_fit_def in_bank_def wf_region_def)
qed

text \<open>What an allocation does with the block it found.\<close>

lemma lmb_alloc_commit:
  assumes "wf_lmb lmb" and "lmb_has_room malloc (used_mem lmb)" and "valid_block base sz"
    and "free_block (reserved lmb) base sz"
  obtains lst where "lmb_add_region_flags malloc (used_mem lmb) base sz flags = (0, lst)"
    "wf_lmb (lmb\<lparr>used_mem := lst\<rparr>)"
    "reserved (lmb\<lparr>used_mem := lst\<rparr>) = cover (unat base) (unat base + unat sz) flags (reserved lmb)"
proof -
  have g: "good_list (used_mem lmb) \<and> coalesced (alist_list (used_mem lmb))" using assms(1) by (simp add: wf_lmb_def)
  show ?thesis
    using rl.take_law [OF g assms(2,3), of flags] assms(1,4) that
    by (auto simp: reserved_def wf_lmb_def)
qed

text \<open>The whole allocation on the memory map.\<close>

definition alloc_result ::
  "(lmb \<Rightarrow> phys_addr \<Rightarrow> bool) \<Rightarrow> phys_size \<Rightarrow> u32 \<Rightarrow> lmb \<Rightarrow> phys_addr \<times> lmb \<Rightarrow> bool" where
  "alloc_result fits sz flags lmb r \<longleftrightarrow>
     (if \<exists>x. fits lmb x
      then fits lmb (fst r) \<and> (\<forall>x. fits lmb x \<longrightarrow> unat x \<le> unat (fst r)) \<and> wf_lmb (snd r) \<and>
        available_mem (snd r) = available_mem lmb \<and>
        reserved (snd r) = cover (unat (fst r)) (unat (fst r) + unat sz) flags (reserved lmb)
      else r = (0, lmb))"

lemma lmb_alloc_base_flags_result:
  assumes "wf_lmb lmb" and "sz \<noteq> 0" and "max_addr = LMB_ALLOC_ANYWHERE \<or> sz \<le> max_addr"
    and "lmb_has_room malloc (used_mem lmb)" and "efi = None \<or> lmb_test lmb"
  shows "alloc_result (\<lambda>lmb. lmb_fits lmb sz k max_addr) sz flags lmb
    (lmb_alloc_base_flags malloc efi lmb sz (2 ^ k) max_addr flags)"
proof (cases "lmb_alloc_loop lmb sz (2 ^ k) max_addr (unat (al_count (available_mem lmb)))")
  case None
  then show ?thesis
    using lmb_alloc_search [OF assms(1-3), of k]
    by (simp add: alloc_result_def highest_def lmb_alloc_base_flags_def)
next
  case (Some b)
  then have b: "lmb_fits lmb sz k max_addr b" "\<forall>x. lmb_fits lmb sz k max_addr x \<longrightarrow> unat x \<le> unat b"
    using lmb_alloc_search [OF assms(1-3), of k] by (auto simp: highest_def)
  have "free_block (reserved lmb) b sz" using b(1) by (auto simp: lmb_fits_def bank_fit_def)
  then obtain lst where lst: "lmb_add_region_flags malloc (used_mem lmb) b sz flags = (0, lst)"
    "wf_lmb (lmb\<lparr>used_mem := lst\<rparr>)"
    "reserved (lmb\<lparr>used_mem := lst\<rparr>) = cover (unat b) (unat b + unat sz) flags (reserved lmb)"
    by (rule lmb_alloc_commit [OF assms(1,4) lmb_fits_valid [OF assms(1) b(1) assms(2)]])
  have "lmb_alloc_base_flags malloc efi lmb sz (2 ^ k) max_addr flags = (b, lmb\<lparr>used_mem := lst\<rparr>)"
    using Some lst(1) assms(5) by (simp add: lmb_alloc_base_flags_def lmb_map_update_notify_quiet)
  then show ?thesis using b lst(2,3) by (auto simp: alloc_result_def)
qed

end
