(* ===== verification/Lmb_Props.thy ===== *)
theory Lmb_Props
  imports Lmb_Alloc
begin

text \<open>
  The properties of the memory map: reserving, freeing, allocating and asking, each stated on the
  address map, and the requests on which the code does not do what it is meant to do.
\<close>

section \<open>Queries\<close>

lemma lmb_is_reserved_loop_eq:
  assumes "good_list lst" and "i \<le> unat (al_count lst)"
  shows "lmb_is_reserved_loop (al_data lst) (unat (al_count lst)) addr flags i \<longleftrightarrow>
    (\<exists>f. flags_at (drop i (alist_list lst)) (unat addr) = Some f \<and> f AND flags = flags)"
  using assms(2)
proof (induction "unat (al_count lst) - i" arbitrary: i)
  case 0
  then show ?case
    using assms(1) by (subst lmb_is_reserved_loop.simps) (simp add: good_list_def length_alist_list)
next
  case (Suc n)
  then have i: "i < unat (al_count lst)" by simp
  have IH: "lmb_is_reserved_loop (al_data lst) (unat (al_count lst)) addr flags (i + 1) \<longleftrightarrow>
    (\<exists>f. flags_at (drop (i + 1) (alist_list lst)) (unat addr) = Some f \<and> f AND flags = flags)"
    using Suc by simp
  let ?r = "al_data lst ! i"
  have l: "i < length (alist_list lst)" using i assms(1) by (simp add: good_list_def length_alist_list)
  have r: "wf_region ?r" using good_list_nth [OF assms(1) i] by simp
  have d: "drop i (alist_list lst) = ?r # drop (i + 1) (alist_list lst)"
    using Cons_nth_drop_Suc [OF l] alist_nth [OF l] by simp
  have "unat (lr_base ?r + lr_size ?r - 1) = region_end ?r - 1"
    using r by (subst unat_last_byte) (auto simp: wf_region_def region_end_def)
  then have "lr_base ?r \<le> addr \<and> addr \<le> lr_base ?r + lr_size ?r - 1 \<longleftrightarrow> in_region ?r (unat addr)"
    using wf_region_end [OF r] by (auto simp: word_le_nat_alt in_region_def)
  then show ?case
    using i IH by (subst lmb_is_reserved_loop.simps) (simp add: d Let_def)
qed

lemma lmb_free_size_loop_spec:
  assumes "good_list lst" and "\<forall>j < i. region_end (al_data lst ! j) \<le> unat addr" and "i \<le> unat (al_count lst)"
  shows "case lmb_free_size_loop (al_data lst) (unat (al_count lst)) addr i of
      None \<Rightarrow> \<forall>j < unat (al_count lst). region_end (al_data lst ! j) \<le> unat addr
    | Some n \<Rightarrow> (\<forall>a. unat addr \<le> a \<longrightarrow> a < unat addr + unat n \<longrightarrow> flags_at (alist_list lst) a = None) \<and>
        flags_at (alist_list lst) (unat addr + unat n) \<noteq> None"
  using assms(2,3)
proof (induction "unat (al_count lst) - i" arbitrary: i)
  case 0
  then show ?case by (subst lmb_free_size_loop.simps) simp
next
  case (Suc n)
  then have i: "i < unat (al_count lst)" by simp
  let ?r = "al_data lst ! i"
  have r: "wf_region ?r" "?r \<in> set (alist_list lst)" using good_list_nth [OF assms(1) i] by auto
  have wf: "wf_regions (alist_list lst)" using assms(1) by (simp add: good_list_def)
  have e: "unat (lr_base ?r + lr_size ?r) = region_end ?r"
    using r(1) by (simp add: wf_region_def region_end_def)
  note inr = flags_at_in [OF wf r(2)]
  consider "addr < lr_base ?r" | "\<not> addr < lr_base ?r" "lr_base ?r + lr_size ?r > addr"
    | "\<not> addr < lr_base ?r" "\<not> lr_base ?r + lr_size ?r > addr" by blast
  then show ?case
  proof cases
    case 1
    then have lt: "unat addr < unat (lr_base ?r)" by (simp add: word_less_nat_alt)
    have d: "unat (lr_base ?r - addr) = unat (lr_base ?r) - unat addr" using lt by (simp add: unat_diff_le)
    have "flags_at (alist_list lst) a = None" if a: "unat addr \<le> a" "a < unat (lr_base ?r)" for a
    proof -
      have "\<not> in_region (alist_list lst ! j) a" if j: "j < length (alist_list lst)" for j
      proof (cases "j < i")
        case True
        then have "region_end (alist_list lst ! j) \<le> unat addr" using Suc.prems(1) alist_nth [OF j] by auto
        then show ?thesis using a(1) by (simp add: in_region_def)
      next
        case False
        have "i < j \<longrightarrow> region_end ?r \<le> unat (lr_base (alist_list lst ! j))"
          using wf j alist_nth [of i lst] i assms(1)
          by (auto simp: wf_regions_def sorted_wrt_iff_nth_less good_list_def length_alist_list)
        then have "j = i \<or> region_end ?r \<le> unat (lr_base (alist_list lst ! j))"
          using False by (cases "j = i") auto
        then show ?thesis using a(2) wf_region_end [OF r(1)] alist_nth [OF j] by (auto simp: in_region_def)
      qed
      then show ?thesis by (auto simp: flags_at_None_iff in_set_conv_nth)
    qed
    moreover have "flags_at (alist_list lst) (unat (lr_base ?r)) \<noteq> None"
      using inr [of "unat (lr_base ?r)"] wf_region_end [OF r(1)] by (simp add: in_region_def)
    ultimately show ?thesis using 1 i lt by (subst lmb_free_size_loop.simps) (simp add: d)
  next
    case 2
    then have "in_region ?r (unat addr)" using e by (simp add: word_less_nat_alt in_region_def)
    then show ?thesis using 2 i inr by (subst lmb_free_size_loop.simps) simp
  next
    case 3
    then have "\<forall>j < i + 1. region_end (al_data lst ! j) \<le> unat addr"
      using Suc.prems(1) e by (auto simp: word_less_nat_alt less_Suc_eq)
    then show ?thesis using Suc.hyps(1) [of "i + 1"] Suc.hyps(2) i 3
      by (subst lmb_free_size_loop.simps) simp
  qed
qed

section \<open>Reserving\<close>

lemma lmb_reserve_spec:
  assumes "wf_lmb lmb" and "valid_block base sz" and "lmb_has_room malloc (used_mem lmb)"
    and "reservable (reserved lmb) base sz flags"
  obtains lst where
    "lmb_reserve malloc efi lmb base sz flags =
       (lmb_map_update_notify efi (lmb\<lparr>used_mem := lst\<rparr>) base sz LMB_MAP_OP_RESERVE flags, lmb\<lparr>used_mem := lst\<rparr>)"
    "good_list lst"
    "reserved (lmb\<lparr>used_mem := lst\<rparr>) = cover (unat base) (unat base + unat sz) flags (reserved lmb)"
    "free_block (reserved lmb) base sz \<longrightarrow> wf_lmb (lmb\<lparr>used_mem := lst\<rparr>)"
proof -
  have g: "good_list (used_mem lmb)" "coalesced (alist_list (used_mem lmb))"
    and wf: "wf_regions (alist_list (used_mem lmb))" using assms(1) by (auto simp: wf_lmb_def good_list_def)
  have sz: "sz \<noteq> 0" "unat base + unat sz < 2 ^ 64" using assms(2) by (auto simp: valid_block_def)
  have m: "may_add (alist_list (used_mem lmb)) base sz flags"
    using may_add_iff_reservable [OF wf sz(1)] assms(4) by (simp add: reserved_def)
  obtain lst where lst: "lmb_add_region_flags malloc (used_mem lmb) base sz flags = (0, lst)"
    "adds_block (used_mem lmb) base sz flags lst"
    "(\<forall>r \<in> set (alist_list (used_mem lmb)). \<not> overlaps_block base sz r) \<longrightarrow> coalesced (alist_list lst)"
    using lmb_add_region_flags_adds [OF g sz assms(3) m] by blast
  have "lmb_can_reserve_region lmb base sz flags" using lmb_can_reserve_iff [OF g(1) assms(2)] assms(4) by simp
  then show ?thesis
    using that [of lst] lst assms(1) no_overlap_iff_free [OF wf sz(1), of base]
    by (auto simp: lmb_reserve_def adds_block_def wf_lmb_def reserved_def Let_def)
qed

text \<open>
  C13. \<open>lmb_reserve\<close> on the memory map. A block that is free, or that is asked for without flags and
  meets only reservations without flags, is entered: exactly its addresses get the flags, the map
  stays well-formed (and coalesced if the block was free), and the result is that of the
  notification. Any other block is refused with \<open>-EEXIST\<close> and nothing changes.
\<close>

theorem lmb_reserve_correct:
  assumes "wf_lmb lmb" and "valid_block base sz" and "lmb_has_room malloc (used_mem lmb)"
  shows "if reservable (reserved lmb) base sz flags
    then \<exists>lst. lmb_reserve malloc efi lmb base sz flags =
        (lmb_map_update_notify efi (lmb\<lparr>used_mem := lst\<rparr>) base sz LMB_MAP_OP_RESERVE flags, lmb\<lparr>used_mem := lst\<rparr>) \<and>
      good_list lst \<and>
      reserved (lmb\<lparr>used_mem := lst\<rparr>) = cover (unat base) (unat base + unat sz) flags (reserved lmb) \<and>
      (free_block (reserved lmb) base sz \<longrightarrow> wf_lmb (lmb\<lparr>used_mem := lst\<rparr>))
    else lmb_reserve malloc efi lmb base sz flags = (- EEXIST, lmb)"
proof (cases "reservable (reserved lmb) base sz flags")
  case True
  then show ?thesis using lmb_reserve_spec [OF assms True, of efi] by metis
next
  case False
  have "good_list (used_mem lmb)" using assms(1) by (simp add: wf_lmb_def)
  then show ?thesis using False lmb_can_reserve_iff [OF _ assms(2)] by (simp add: lmb_reserve_def)
qed

text \<open>A board with one bank of RAM, and U-Boot's own reservation at its top.\<close>

definition regions_of :: "lmb_region list \<Rightarrow> lmb_regions" where
  "regions_of rs = \<lparr>al_data = rs @ replicate (4 - length rs) lmb_region_zero, al_obj_size = 24,
     al_count = of_nat (length rs), al_alloc = 4, al_flags = 0\<rparr>"

definition region :: "phys_addr \<Rightarrow> phys_size \<Rightarrow> u32 \<Rightarrow> lmb_region" where
  "region base sz flags = \<lparr>lr_base = base, lr_size = sz, lr_flags = flags\<rparr>"

definition demo_lmb :: lmb where
  "demo_lmb = \<lparr>available_mem = regions_of [region 0x20000000 0x8000000 0],
     used_mem = regions_of [region 0x27f00000 0x100000 4], lmb_test = False\<rparr>"

lemma good_regions_of:
  "length rs \<le> 4 \<Longrightarrow> good_list (regions_of rs) \<longleftrightarrow> wf_regions rs"
  by (auto simp: good_list_def regions_of_def wf_alist_def alist_err_def alist_list_def unsigned_of_nat take_bit_nat_eq_self)

lemma alist_list_regions_of [simp]: "length rs \<le> 4 \<Longrightarrow> alist_list (regions_of rs) = rs"
  by (auto simp: regions_of_def alist_list_def unsigned_of_nat take_bit_nat_eq_self)

lemma room_regions_of: "length rs < 4 \<Longrightarrow> lmb_has_room malloc (regions_of rs)"
  by (auto simp: lmb_has_room_def alist_full_def) (auto simp: regions_of_def word_unat_eq_iff unsigned_of_nat take_bit_nat_eq_self)

lemmas region_simps = region_def region_end_def wf_region_def wf_regions_Cons coalesced_Cons in_region_def

lemma demo_lmb_wf: "wf_lmb demo_lmb"
  by (simp add: wf_lmb_def demo_lmb_def good_regions_of region_simps)

lemma demo_lmb_room: "lmb_has_room malloc (used_mem demo_lmb)"
  by (simp add: demo_lmb_def room_regions_of)

lemma demo_lmb_reserved: "reserved demo_lmb a = (if 0x27f00000 \<le> a \<and> a < 0x28000000 then Some 4 else None)"
  by (simp add: reserved_def demo_lmb_def region_simps)

theorem lmb_reserve_correct_witness:
  "wf_lmb demo_lmb \<and> valid_block 0x21000000 0x1000 \<and> lmb_has_room (\<lambda>_. True) (used_mem demo_lmb) \<and>
   (\<exists>lst. lmb_reserve (\<lambda>_. True) None demo_lmb 0x21000000 0x1000 2 = (0, demo_lmb\<lparr>used_mem := lst\<rparr>) \<and>
      good_list lst \<and>
      reserved (demo_lmb\<lparr>used_mem := lst\<rparr>) = cover 0x21000000 0x21001000 2 (reserved demo_lmb))"
proof -
  have v: "valid_block 0x21000000 0x1000" by (simp add: valid_block_def)
  have "reservable (reserved demo_lmb) 0x21000000 0x1000 2"
    by (simp add: reservable_def in_block_def demo_lmb_reserved)
  then show ?thesis
    using lmb_reserve_correct [OF demo_lmb_wf v demo_lmb_room, of 2 "\<lambda>_. True" None] demo_lmb_wf v
      demo_lmb_room [of "\<lambda>_. True"] by (auto simp: lmb_map_update_notify_def)
qed

text \<open>
  C14. \<open>lmb_free\<close> on the memory map: a block that carries the same flags throughout is taken out,
  whether it is a whole region, one end of it or a hole inside it; the map is unchanged elsewhere and
  stays well-formed. Any other block gives \<open>-1\<close> and changes nothing.
\<close>

theorem lmb_free_correct:
  assumes "wf_lmb lmb" and "valid_block base sz" and "lmb_has_room malloc (used_mem lmb)"
    and "efi = None \<or> lmb_test lmb"
  shows "if uniform_block (reserved lmb) base sz
    then \<exists>lmb1. lmb_free malloc efi lmb base sz = (0, lmb1) \<and> wf_lmb lmb1 \<and>
      reserved lmb1 = uncover (unat base) (unat base + unat sz) (reserved lmb)
    else lmb_free malloc efi lmb base sz = (- 1, lmb)"
  using gl.give_law [of lmb efi malloc base sz] gl.give_missing [of lmb efi base sz malloc] assms by auto

theorem lmb_free_correct_witness:
  "wf_lmb demo_lmb \<and> valid_block 0x27f10000 0x1000 \<and> lmb_has_room (\<lambda>_. True) (used_mem demo_lmb) \<and>
   (\<exists>lmb1. lmb_free (\<lambda>_. True) None demo_lmb 0x27f10000 0x1000 = (0, lmb1) \<and>
      reserved lmb1 = uncover 0x27f10000 0x27f11000 (reserved demo_lmb))"
proof -
  have v: "valid_block 0x27f10000 0x1000" by (simp add: valid_block_def)
  have "uniform_block (reserved demo_lmb) 0x27f10000 0x1000"
    by (auto simp: uniform_block_def in_block_def demo_lmb_reserved)
  then show ?thesis
    using lmb_free_correct [OF demo_lmb_wf v demo_lmb_room, of None "\<lambda>_. True"] demo_lmb_wf v
      demo_lmb_room [of "\<lambda>_. True"] by auto
qed

text \<open>
  Reserving a free block and freeing it again brings the memory map back, and the same block
  cannot be freed a second time.
\<close>

theorem lmb_reserve_free_roundtrip:
  assumes "wf_lmb lmb" and "lmb_has_room malloc (used_mem lmb)" and "valid_block base sz"
    and "free_block (reserved lmb) base sz" and "efi = None \<or> lmb_test lmb"
    and "lmb_reserve malloc efi lmb base sz flags = (r, lmb1)" and "lmb_has_room malloc (used_mem lmb1)"
  shows "r = 0 \<and> (\<exists>lmb2. lmb_free malloc efi lmb1 base sz = (0, lmb2) \<and> wf_lmb lmb2 \<and>
    reserved lmb2 = reserved lmb \<and> lmb_free malloc efi lmb2 base sz = (- 1, lmb2))"
proof -
  have i: "wf_lmb lmb \<and> (efi = None \<or> lmb_test lmb)" using assms(1,5) by simp
  obtain lmb2 where l: "r = 0" "lmb_free malloc efi lmb1 base sz = (0, lmb2)" "wf_lmb lmb2" "reserved lmb2 = reserved lmb"
    using gl.take_give [OF i assms(2,3,4,6,7)] by auto
  have "wf_lmb lmb1 \<and> (efi = None \<or> lmb_test lmb1)"
    using gl.take_law [OF i assms(2,3,4), of flags] assms(6) by auto
  then show ?thesis using gl.give_twice [OF _ assms(7,3) l(2)] l by blast
qed

lemma demo_lmb_room_after:
  "lmb_has_room (\<lambda>_. True) (used_mem (snd (lmb_reserve (\<lambda>_. True) None demo_lmb 0x21000000 0x1000 2)))"
  by code_simp

theorem lmb_reserve_free_roundtrip_witness:
  "\<exists>lmb1 lmb2. lmb_reserve (\<lambda>_. True) None demo_lmb 0x21000000 0x1000 2 = (0, lmb1) \<and>
     lmb_free (\<lambda>_. True) None lmb1 0x21000000 0x1000 = (0, lmb2) \<and> reserved lmb2 = reserved demo_lmb"
proof -
  have v: "valid_block 0x21000000 0x1000" by (simp add: valid_block_def)
  have f: "free_block (reserved demo_lmb) 0x21000000 0x1000"
    by (simp add: free_block_def in_block_def demo_lmb_reserved)
  show ?thesis
    using lmb_reserve_free_roundtrip [OF demo_lmb_wf demo_lmb_room v f _ surjective_pairing demo_lmb_room_after]
    by (metis surjective_pairing)
qed

section \<open>Allocating\<close>

text \<open>
  C11. \<open>lmb_alloc_base\<close> (and with it \<open>lmb_alloc\<close>) for a power-of-two alignment. When some aligned,
  unreserved block of the wanted size lies inside a bank and below the limit, the highest such block
  is returned and exactly its addresses are reserved with the given flags. When there is none the
  result is 0 and nothing changes.
\<close>

theorem lmb_alloc_base_highest_fit:
  assumes "wf_lmb lmb" and "sz \<noteq> 0" and "max_addr = LMB_ALLOC_ANYWHERE \<or> sz \<le> max_addr"
    and "lmb_has_room malloc (used_mem lmb)" and "efi = None \<or> lmb_test lmb"
  shows "alloc_result (\<lambda>lmb. lmb_fits lmb sz k max_addr) sz flags lmb
    (lmb_alloc_base malloc efi lmb sz (2 ^ k) max_addr flags)"
  unfolding lmb_alloc_base_def by (rule lmb_alloc_base_flags_result [OF assms])

lemma demo_lmb_fits: "lmb_fits demo_lmb 0x1000 12 0 0x27eff000"
  by (simp add: lmb_fits_def bank_fit_def in_bank_def below_limit_def free_block_def in_block_def
      demo_lmb_reserved LMB_ALLOC_ANYWHERE_def) (simp add: demo_lmb_def region_def region_end_def)

theorem lmb_alloc_base_highest_fit_witness:
  "wf_lmb demo_lmb \<and> lmb_has_room (\<lambda>_. True) (used_mem demo_lmb) \<and>
   fst (lmb_alloc_base (\<lambda>_. True) None demo_lmb 0x1000 (2 ^ 12) 0 0) = 0x27eff000 \<and>
   reserved (snd (lmb_alloc_base (\<lambda>_. True) None demo_lmb 0x1000 (2 ^ 12) 0 0)) =
     cover 0x27eff000 0x27f00000 0 (reserved demo_lmb)"
proof -
  have a: "fst (lmb_alloc_base (\<lambda>_. True) None demo_lmb 0x1000 (2 ^ 12) 0 0) = 0x27eff000" by code_simp
  have r: "alloc_result (\<lambda>lmb. lmb_fits lmb 0x1000 12 0) 0x1000 0 demo_lmb
    (lmb_alloc_base (\<lambda>_. True) None demo_lmb 0x1000 (2 ^ 12) 0 0)"
    by (rule lmb_alloc_base_highest_fit) (simp_all add: demo_lmb_wf demo_lmb_room LMB_ALLOC_ANYWHERE_def)
  have "\<exists>x. lmb_fits demo_lmb 0x1000 12 0 x" using demo_lmb_fits by blast
  then show ?thesis using r a demo_lmb_wf demo_lmb_room [of "\<lambda>_. True"] by (simp add: alloc_result_def)
qed

lemma io_lmb_alloc_loop_eq: "io_lmb_alloc_loop lmb sz align n = lmb_alloc_loop lmb sz align LMB_ALLOC_ANYWHERE n"
  by (induction n) (simp_all add: Let_def lmb_alloc_start_def split: option.split)

lemma lmb_add_region_flags_ret:
  "lmb_add_region_flags malloc lst base sz flags = (r, lst1) \<Longrightarrow> r = 0 \<or> r = - 1"
  by (auto simp: lmb_add_region_flags_def Let_def split: if_splits prod.splits option.splits)

text \<open>
  The IOMMU allocator, a separate copy of the search, agrees with the allocator of the memory map
  asked without limit and without flags.
\<close>

theorem io_lmb_alloc_eq_lmb_alloc:
  "io_lmb_alloc malloc lmb sz align = lmb_alloc malloc None lmb sz align"
proof (cases "lmb_alloc_loop lmb sz align LMB_ALLOC_ANYWHERE (unat (al_count (available_mem lmb)))")
  case (Some base)
  obtain r lst where a: "lmb_add_region_flags malloc (used_mem lmb) base sz LMB_NONE = (r, lst)" by fastforce
  show ?thesis
    using Some a lmb_add_region_flags_ret [OF a]
    by (auto simp: io_lmb_alloc_def lmb_alloc_def lmb_alloc_base_flags_def io_lmb_alloc_loop_eq Let_def
        lmb_map_update_notify_def)
qed (simp add: io_lmb_alloc_def lmb_alloc_def lmb_alloc_base_flags_def io_lmb_alloc_loop_eq)

lemma wf_regions_apart:
  "wf_regions rs \<Longrightarrow> r \<in> set rs \<Longrightarrow> s \<in> set rs \<Longrightarrow>
   r = s \<or> region_end r \<le> unat (lr_base s) \<or> region_end s \<le> unat (lr_base r)"
  by (induction rs) (auto simp: wf_regions_Cons)

text \<open>A block inside a bank meets no other bank.\<close>

lemma lmb_overlaps_region_bank:
  assumes "good_list lst" and "valid_block base sz" and "m \<in> set (alist_list lst)" and "in_bank m sz base"
  obtains i where "lmb_overlaps_region lst base sz = Some i" "al_data lst ! i = m"
proof -
  have wf: "wf_regions (alist_list lst)" using assms(1) by (simp add: good_list_def)
  have sz: "sz \<noteq> 0" "unat base + unat sz \<le> 2 ^ 64" using assms(2) by (auto simp: valid_block_def)
  have b: "in_block base sz (unat base)" "in_region m (unat base)"
    using unat_gt_0 [of sz] sz(1) assms(4) by (auto simp: in_block_def in_bank_def in_region_def)
  then have "\<not> free_block (flags_at (alist_list lst)) base sz"
    using flags_at_in [OF wf assms(3) b(2)] by (auto simp: free_block_def)
  then obtain i where i: "lmb_overlaps_region lst base sz = Some i"
    using lmb_overlaps_region_None_iff [OF assms(1,2)] by blast
  let ?r = "al_data lst ! i"
  have o: "i < unat (al_count lst)" "lmb_addrs_overlap base sz (lr_base ?r) (lr_size ?r)"
    using lmb_overlaps_region_SomeD [OF i] by auto
  have r: "?r \<in> set (alist_list lst)" "wf_region ?r" using good_list_nth [OF assms(1) o(1)] by auto
  have ov: "unat base < region_end ?r" "unat (lr_base ?r) < unat base + unat sz"
    using lmb_addrs_overlap_iff [OF r(2) sz] o(2) by auto
  have "?r = m"
    using wf_regions_apart [OF wf r(1) assms(3)] ov assms(4) by (auto simp: in_bank_def)
  then show ?thesis using i that by blast
qed

text \<open>
  \<open>lmb_alloc_addr\<close> for a block inside one bank: it is reserved and the result is 0 exactly when
  it may be reserved; otherwise the result is \<open>-1\<close> and nothing changes.
\<close>

theorem lmb_alloc_addr_in_bank:
  assumes "wf_lmb lmb" and "valid_block base sz" and "lmb_has_room malloc (used_mem lmb)"
    and "efi = None \<or> lmb_test lmb" and "m \<in> set (alist_list (available_mem lmb))" and "in_bank m sz base"
  shows "if reservable (reserved lmb) base sz flags
    then \<exists>lmb1. lmb_alloc_addr malloc efi lmb base sz flags = (0, lmb1) \<and>
      reserved lmb1 = cover (unat base) (unat base + unat sz) flags (reserved lmb) \<and>
      available_mem lmb1 = available_mem lmb
    else lmb_alloc_addr malloc efi lmb base sz flags = (- 1, lmb)"
proof -
  have g: "good_list (available_mem lmb)" "good_list (used_mem lmb)" using assms(1) by (auto simp: wf_lmb_def)
  obtain i where i: "lmb_overlaps_region (available_mem lmb) base sz = Some i" "al_data (available_mem lmb) ! i = m"
    by (rule lmb_overlaps_region_bank [OF g(1) assms(2,5,6)])
  have m: "wf_region m" using assms(5) g(1) by (auto simp: good_list_def wf_regions_def)
  have "unat (base + sz - 1) = unat base + unat sz - 1"
    using assms(2) by (subst unat_last_byte) (auto simp: valid_block_def)
  moreover have "unat (lr_base m + lr_size m - 1) = region_end m - 1"
    using m by (subst unat_last_byte) (auto simp: wf_region_def region_end_def)
  ultimately have e: "lmb_addrs_overlap (lr_base m) (lr_size m) (base + sz - 1) 1"
    using assms(2,6) unat_gt_0 [of sz]
    by (auto simp: lmb_addrs_overlap_def Let_def word_le_nat_alt in_bank_def valid_block_def)
  show ?thesis
  proof (cases "reservable (reserved lmb) base sz flags")
    case True
    obtain lst where lst: "lmb_reserve malloc efi lmb base sz flags =
       (lmb_map_update_notify efi (lmb\<lparr>used_mem := lst\<rparr>) base sz LMB_MAP_OP_RESERVE flags, lmb\<lparr>used_mem := lst\<rparr>)"
      "reserved (lmb\<lparr>used_mem := lst\<rparr>) = cover (unat base) (unat base + unat sz) flags (reserved lmb)"
      by (rule lmb_reserve_spec [OF assms(1,2,3) True])
    have "lmb_alloc_addr malloc efi lmb base sz flags = (0, lmb\<lparr>used_mem := lst\<rparr>)"
      using lst(1) i e assms(4) by (simp add: lmb_alloc_addr_def lmb_map_update_notify_quiet)
    then show ?thesis using lst(2) True by simp
  next
    case False
    then have "lmb_reserve malloc efi lmb base sz flags = (- EEXIST, lmb)"
      using lmb_can_reserve_iff [OF g(2) assms(2)] by (simp add: lmb_reserve_def)
    then show ?thesis using False i e by (simp add: lmb_alloc_addr_def Let_def)
  qed
qed

theorem lmb_alloc_addr_in_bank_witness:
  "\<exists>lmb1. lmb_alloc_addr (\<lambda>_. True) None demo_lmb 0x21000000 0x1000 2 = (0, lmb1) \<and>
     reserved lmb1 = cover 0x21000000 0x21001000 2 (reserved demo_lmb)"
proof -
  have v: "valid_block 0x21000000 0x1000" by (simp add: valid_block_def)
  have m: "region 0x20000000 0x8000000 0 \<in> set (alist_list (available_mem demo_lmb))" by (simp add: demo_lmb_def)
  have b: "in_bank (region 0x20000000 0x8000000 0) 0x1000 0x21000000"
    by (simp add: in_bank_def region_def region_end_def)
  have "reservable (reserved demo_lmb) 0x21000000 0x1000 2"
    by (simp add: reservable_def in_block_def demo_lmb_reserved)
  then show ?thesis
    using lmb_alloc_addr_in_bank [OF demo_lmb_wf v demo_lmb_room _ m b, of None 2 "\<lambda>_. True"] by auto
qed

section \<open>Asking\<close>

text \<open>
  \<open>lmb_is_reserved_flags\<close> tells whether the address is reserved with at least the given flags.
\<close>

theorem lmb_is_reserved_flags_correct:
  assumes "wf_lmb lmb"
  shows "lmb_is_reserved_flags lmb addr flags \<longleftrightarrow>
    (\<exists>f. reserved lmb (unat addr) = Some f \<and> f AND flags = flags)"
  using lmb_is_reserved_loop_eq [of "used_mem lmb" 0 addr flags] assms
  by (simp add: lmb_is_reserved_flags_def reserved_def wf_lmb_def)

theorem lmb_is_reserved_flags_correct_witness:
  "wf_lmb demo_lmb \<and> lmb_is_reserved_flags demo_lmb 0x27f00010 4 \<and> \<not> lmb_is_reserved_flags demo_lmb 0x27f00010 2"
  using lmb_is_reserved_flags_correct [OF demo_lmb_wf, of "0x27f00010"] demo_lmb_wf
  by (simp add: demo_lmb_reserved)

lemma lmb_free_size_none:
  assumes "good_list lst" and "lmb_free_size_loop (al_data lst) (unat (al_count lst)) addr 0 = None"
    and "unat addr \<le> a"
  shows "flags_at (alist_list lst) a = None"
  unfolding flags_at_None_iff
proof
  fix r assume "r \<in> set (alist_list lst)"
  then obtain j where j: "j < unat (al_count lst)" "al_data lst ! j = r" by (rule good_list_setE [OF assms(1)])
  have "\<forall>j < unat (al_count lst). region_end (al_data lst ! j) \<le> unat addr"
    using lmb_free_size_loop_spec [OF assms(1), of 0 addr] assms(2) by simp
  then have "region_end r \<le> unat addr" using j by blast
  then show "\<not> in_region r a" using assms(3) by (simp add: in_region_def)
qed

lemma lmb_last_bank:
  fixes lst addr
  defines "h \<equiv> al_data lst ! (unat (al_count lst) - 1)"
  assumes "good_list lst" and "m \<in> set (alist_list lst)" and "in_region m (unat addr)"
  shows "unat addr + unat (lr_base h + lr_size h - addr) = region_end (last (alist_list lst))"
proof -
  have wf: "wf_regions (alist_list lst)" using assms(2) by (simp add: good_list_def)
  have ne: "alist_list lst \<noteq> []" using assms(3) by auto
  have cnt: "unat (al_count lst) = length (alist_list lst)" using assms(2) by (simp add: good_list_def length_alist_list)
  have h: "h = last (alist_list lst)"
    unfolding h_def cnt using ne alist_nth [of "length (alist_list lst) - 1" lst] by (simp add: last_conv_nth)
  have "h \<in> set (alist_list lst)" unfolding h using ne by (rule last_in_set)
  then have "unat (lr_base h + lr_size h) = region_end h"
    using wf_regions_set [OF wf] by (simp add: wf_region_def region_end_def)
  moreover have "unat addr < region_end h"
    using assms(4) wf_regions_last [OF wf assms(3)] by (simp add: in_region_def h)
  ultimately show ?thesis by (simp add: unat_diff_le h)
qed

text \<open>
  \<open>lmb_get_free_size\<close>: outside the memory the answer is 0. Inside, the next bytes counted by the
  answer are unreserved, and the count stops at a reserved byte or, when nothing above is reserved,
  at the end of the last bank.
\<close>

theorem lmb_get_free_size_correct:
  assumes "wf_lmb lmb" and "n = unat (lmb_get_free_size lmb addr)"
  shows "if memory lmb (unat addr) = None then n = 0
    else (\<forall>a. unat addr \<le> a \<and> a < unat addr + n \<longrightarrow> reserved lmb a = None) \<and>
      (reserved lmb (unat addr + n) \<noteq> None \<or>
       unat addr + n = region_end (last (alist_list (available_mem lmb))) \<and>
       (\<forall>a. unat addr \<le> a \<longrightarrow> reserved lmb a = None))"
proof -
  let ?avail = "alist_list (available_mem lmb)" and ?used = "used_mem lmb"
  have g: "good_list (available_mem lmb)" "good_list ?used" and wf: "wf_regions ?avail"
    using assms(1) by (auto simp: wf_lmb_def good_list_def)
  have blk: "in_block addr 1 a \<longleftrightarrow> a = unat addr" for a by (auto simp: in_block_def)
  show ?thesis
  proof (cases "unat addr + 1 < 2 ^ 64")
    case v: True
    then have iff: "lmb_overlaps_region (available_mem lmb) addr 1 = None \<longleftrightarrow> memory lmb (unat addr) = None"
      using lmb_overlaps_region_None_iff [OF g(1), of addr 1]
      by (simp add: valid_block_def free_block_def blk memory_def)
    show ?thesis
    proof (cases "memory lmb (unat addr)")
      case None
      then show ?thesis using iff assms(2) by (simp add: lmb_get_free_size_def)
    next
      case (Some f)
      then obtain i where i: "lmb_overlaps_region (available_mem lmb) addr 1 = Some i" using iff by auto
      obtain m where m: "m \<in> set ?avail" "in_region m (unat addr)"
        using Some flags_at_SomeD [of "alist_list (available_mem lmb)" "unat addr" f] unfolding memory_def by blast
      note loop = lmb_free_size_loop_spec [OF g(2), of 0 addr]
      show ?thesis
      proof (cases "lmb_free_size_loop (al_data ?used) (unat (al_count ?used)) addr 0")
        case None
        have n: "unat addr + n = region_end (last ?avail)"
          using lmb_last_bank [OF g(1) m] i None assms(2)
          by (simp add: lmb_get_free_size_def Let_def)
        moreover have "reserved lmb a = None" if "unat addr \<le> a" for a
          using lmb_free_size_none [OF g(2) None that] by (simp add: reserved_def)
        ultimately show ?thesis using Some by simp
      next
        case (Some k)
        then show ?thesis
          using loop i assms(2) \<open>memory lmb (unat addr) = Some f\<close> by (simp add: lmb_get_free_size_def reserved_def)
      qed
    qed
  next
    case False
    then have top_addr: "unat addr + 1 = 2 ^ 64" using unat_u64_less [of addr] by simp
    have "\<not> in_region r (unat addr)" if "r \<in> set ?avail" for r
      using wf_regions_set [OF wf that] top_addr by (simp add: in_region_def wf_region_def)
    then have none: "memory lmb (unat addr) = None" by (simp add: memory_def flags_at_None_iff)
    have "lmb_overlaps_region (available_mem lmb) addr 1 = None"
    proof (cases "lmb_overlaps_region (available_mem lmb) addr 1")
      case (Some i)
      let ?r = "al_data (available_mem lmb) ! i"
      have o: "i < unat (al_count (available_mem lmb))" "lmb_addrs_overlap addr 1 (lr_base ?r) (lr_size ?r)"
        using lmb_overlaps_region_SomeD [OF Some] by auto
      have r: "wf_region ?r" using good_list_nth [OF g(1) o(1)] by simp
      then show ?thesis
        using lmb_addrs_overlap_iff [OF r, of 1 addr] o(2) top_addr by (simp add: wf_region_def)
    qed
    then show ?thesis using none assms(2) by (simp add: lmb_get_free_size_def)
  qed
qed

theorem lmb_get_free_size_correct_witness:
  "wf_lmb demo_lmb \<and> unat (lmb_get_free_size demo_lmb 0x20000000) = 0x7f00000 \<and>
   reserved demo_lmb 0x27efffff = None \<and> reserved demo_lmb 0x27f00000 \<noteq> None"
proof -
  have "lmb_get_free_size demo_lmb 0x20000000 = 0x7f00000" by code_simp
  then have n: "unat (lmb_get_free_size demo_lmb 0x20000000) = 0x7f00000" by simp
  have "memory demo_lmb 0x20000000 = Some 0" by (simp add: memory_def demo_lmb_def region_simps)
  then show ?thesis
    using lmb_get_free_size_correct [OF demo_lmb_wf n [symmetric]] n demo_lmb_wf
    by (simp add: demo_lmb_reserved)
qed

section \<open>Requests that go wrong\<close>

definition empty_lmb :: "phys_addr \<Rightarrow> phys_size \<Rightarrow> lmb" where
  "empty_lmb base sz = \<lparr>available_mem = regions_of [region base sz 0], used_mem = regions_of [], lmb_test = False\<rparr>"




text \<open>The free size counted from one bank runs over the hole to the next.\<close>

lemma lmb_get_free_size_counts_hole:
  "lmb_get_free_size
     \<lparr>available_mem = regions_of [region 0x20000000 0x1000 0, region 0x30000000 0x1000 0],
      used_mem = regions_of [], lmb_test = False\<rparr> 0x20000000 = 0x10001000"
  by code_simp

text \<open>\<open>lmb_alloc_addr\<close> accepts a block that starts below the bank its end lies in.\<close>

lemma lmb_alloc_addr_below_bank:
  "fst (lmb_alloc_addr (\<lambda>_. True) None (empty_lmb 0x20000000 0x8000000) 0x1ffff000 0x2000 0) = 0"
  by code_simp

text \<open>When the notification fails its error code comes back as an address, and the block stays reserved.\<close>

lemma lmb_alloc_notify_error:
  "(case lmb_alloc (\<lambda>_. True) (Some (\<lambda>_ _ _. - 1)) (empty_lmb 0x20000000 0x8000000) 0x1000 0x1000 of
      (a, lmb) \<Rightarrow> a = 0xffffffffffffffff \<and> lmb_is_reserved_flags lmb 0x27fff000 0)"
  by code_simp

end
