(* ===== verification/Membuf.thy ===== *)
theory Membuf
  imports Prelude
begin

text \<open>
  The circular byte buffer of \<open>lib/membuf.c\<close>. The block behind \<open>start\<close> is the list \<open>mb_data\<close>, and
  the pointers \<open>end\<close>, \<open>head\<close> and \<open>tail\<close> are offsets from \<open>start\<close>; \<open>mb_nonnull\<close> says whether
  \<open>start\<close> is a buffer at all. Lengths are C integers that may be negative (a negative \<open>maxlen\<close> means
  no limit) and buffers are taken to be small enough for them not to overflow. Characters are
  unsigned, as on ARM. What the allocator leaves in fresh memory is the parameter \<open>garbage\<close>.
\<close>

section \<open>Data\<close>

record membuf =
  mb_nonnull :: bool
  mb_data :: "u8 list"
  mb_end :: int
  mb_head :: int
  mb_tail :: int

definition mem_read :: "u8 list \<Rightarrow> int \<Rightarrow> int \<Rightarrow> u8 list" where
  "mem_read data off len = take (nat len) (drop (nat off) data)"

definition mem_write :: "u8 list \<Rightarrow> int \<Rightarrow> u8 list \<Rightarrow> u8 list" where
  "mem_write data off bs = take (nat off) data @ bs @ drop (nat off + length bs) data"

section \<open>Operations\<close>

definition membuf_purge :: "membuf \<Rightarrow> membuf" where
  "membuf_purge mb = mb\<lparr>mb_head := 0, mb_tail := 0\<rparr>"

text \<open>\<open>membuf_putraw\<close> and the function behind it: the length, the offset to write at, the buffer.\<close>

definition membuf_putrawflex :: "membuf \<Rightarrow> int \<Rightarrow> bool \<Rightarrow> int \<times> int \<times> membuf" where
  "membuf_putrawflex mb maxlen update =
     (let offset = mb_head mb
      in if \<not> mb_nonnull mb then (0, offset, mb)
         else if mb_head mb \<ge> mb_tail mb then
           let len = mb_end mb - mb_head mb - 1;
               len1 = (if maxlen \<ge> 0 \<and> len > maxlen then maxlen else len);
               mb1 = (if update then mb\<lparr>mb_head := mb_head mb + len1\<rparr> else mb)
           in if (maxlen < 0 \<or> len1 < maxlen) \<and> mb_tail mb1 \<noteq> 0
              then (len1 + 1, offset, if update then mb1\<lparr>mb_head := 0\<rparr> else mb1)
              else (len1, offset, mb1)
         else
           let len = mb_tail mb - mb_head mb - 1;
               len1 = (if maxlen \<ge> 0 \<and> len > maxlen then maxlen else len)
           in (len1, offset, if update then mb\<lparr>mb_head := mb_head mb + len1\<rparr> else mb))"

definition membuf_putraw :: "membuf \<Rightarrow> int \<Rightarrow> bool \<Rightarrow> int \<times> int \<times> membuf" where
  "membuf_putraw mb maxlen update = membuf_putrawflex mb maxlen update"

definition membuf_putbyte :: "membuf \<Rightarrow> u8 \<Rightarrow> bool \<times> membuf" where
  "membuf_putbyte mb ch =
     (case membuf_putraw mb 1 True of
        (len, data, mb1) \<Rightarrow>
          if len \<noteq> 1 then (False, mb1)
          else (True, mb1\<lparr>mb_data := mem_write (mb_data mb1) data [ch]\<rparr>))"

text \<open>\<open>membuf_getraw\<close>: the length, the offset to read from (None when it is not set), the buffer.\<close>

definition membuf_getraw :: "membuf \<Rightarrow> int \<Rightarrow> bool \<Rightarrow> int \<times> int option \<times> membuf" where
  "membuf_getraw mb maxlen update =
     (if mb_head mb > mb_tail mb then
        let len = mb_head mb - mb_tail mb;
            len1 = (if maxlen \<ge> 0 \<and> len > maxlen then maxlen else len)
        in (len1, Some (mb_tail mb), if update then mb\<lparr>mb_tail := mb_tail mb + len1\<rparr> else mb)
      else if mb_head mb < mb_tail mb then
        let len = mb_end mb - mb_tail mb;
            len1 = (if maxlen \<ge> 0 \<and> len > maxlen then maxlen else len);
            tail1 = mb_tail mb + len1
        in (len1, Some (mb_tail mb),
            if update then mb\<lparr>mb_tail := (if tail1 = mb_end mb then 0 else tail1)\<rparr> else mb)
      else (0, None, mb))"

definition membuf_getbyte :: "membuf \<Rightarrow> int \<times> membuf" where
  "membuf_getbyte mb =
     (case membuf_getraw mb 1 True of
        (len, data, mb1) \<Rightarrow> (if len \<noteq> 1 then - 1 else uint (mb_data mb1 ! nat (the data)), mb1))"

definition membuf_peekbyte :: "membuf \<Rightarrow> int" where
  "membuf_peekbyte mb =
     (case membuf_getraw mb 1 False of
        (len, data, mb1) \<Rightarrow> if len \<noteq> 1 then - 1 else uint (mb_data mb1 ! nat (the data)))"

text \<open>One round of the copy loops of \<open>membuf_get\<close> and \<open>membuf_put\<close>.\<close>

definition membuf_get_round :: "membuf \<Rightarrow> int \<Rightarrow> u8 list \<times> int \<times> membuf" where
  "membuf_get_round mb maxlen =
     (case membuf_getraw mb maxlen True of
        (len, data, mb1) \<Rightarrow>
          (case data of Some off \<Rightarrow> mem_read (mb_data mb1) off len | None \<Rightarrow> [], len, mb1))"

definition membuf_get :: "membuf \<Rightarrow> int \<Rightarrow> u8 list \<times> membuf" where
  "membuf_get mb maxlen =
     (case membuf_get_round mb maxlen of
        (bs1, len1, mb1) \<Rightarrow>
          if len1 = 0 then (bs1, mb1)
          else case membuf_get_round mb1 (maxlen - len1) of (bs2, len2, mb2) \<Rightarrow> (bs1 @ bs2, mb2))"

definition membuf_put_round :: "membuf \<Rightarrow> u8 list \<Rightarrow> int \<Rightarrow> int \<times> membuf" where
  "membuf_put_round mb buff length1 =
     (case membuf_putraw mb length1 True of
        (towrite, data, mb1) \<Rightarrow>
          (towrite, mb1\<lparr>mb_data := mem_write (mb_data mb1) data (take (nat towrite) buff)\<rparr>))"

definition membuf_put :: "membuf \<Rightarrow> u8 list \<Rightarrow> int \<times> membuf" where
  "membuf_put mb buff =
     (case membuf_put_round mb buff (int (length buff)) of
        (w1, mb1) \<Rightarrow>
          case membuf_put_round mb1 (drop (nat w1) buff) (int (length buff) - w1) of
            (w2, mb2) \<Rightarrow> (w1 + w2, mb2))"

definition membuf_isempty :: "membuf \<Rightarrow> bool" where
  "membuf_isempty mb \<longleftrightarrow> mb_head mb = mb_tail mb"

definition membuf_avail :: "membuf \<Rightarrow> int" where
  "membuf_avail mb =
     (case membuf_getraw mb (- 1) True of
        (len1, data1, copy1) \<Rightarrow>
          case membuf_getraw copy1 (- 1) True of (len2, data2, copy2) \<Rightarrow> len1 + len2)"

definition membuf_size :: "membuf \<Rightarrow> int" where
  "membuf_size mb = mb_end mb"

text \<open>
  The copy down to the start of the buffer may overlap its source. It is a forward \<open>memcpy\<close>, which
  for a destination below the source gives what \<open>memmove\<close> gives.
\<close>

definition membuf_makecontig :: "membuf \<Rightarrow> bool \<times> membuf" where
  "membuf_makecontig mb =
     (if mb_tail mb > mb_head mb then
        let topsize = mb_end mb - mb_tail mb;
            botsize = mb_head mb
        in if mb_head mb + topsize \<ge> mb_tail mb then (False, mb)
           else
             let data1 = mem_write (mb_data mb) topsize (mem_read (mb_data mb) 0 botsize);
                 data2 = mem_write data1 0 (mem_read data1 (mb_tail mb) topsize)
             in (True, mb\<lparr>mb_data := data2, mb_tail := 0, mb_head := topsize + botsize\<rparr>)
      else
        let topsize = mb_head mb - mb_tail mb;
            data2 = mem_write (mb_data mb) 0 (mem_read (mb_data mb) (mb_tail mb) topsize)
        in (True, mb\<lparr>mb_data := data2, mb_tail := 0, mb_head := topsize\<rparr>))"

definition membuf_free :: "membuf \<Rightarrow> int" where
  "membuf_free mb = (if mb_end mb = 0 then 0 else mb_end mb - 1 - membuf_avail mb)"

text \<open>
  The loop of \<open>membuf_readline\<close> with \<open>n\<close> characters left to read (\<open>maxlen - 1 - len\<close>): what was
  copied, whether a line end was found, and where the read pointer stands.
\<close>

primrec membuf_readline_loop ::
  "membuf \<Rightarrow> int \<Rightarrow> nat \<Rightarrow> int \<Rightarrow> int \<Rightarrow> u8 list \<times> bool \<times> int" where
  "membuf_readline_loop mb minch 0 s end_ptr = ([], False, s)"
| "membuf_readline_loop mb minch (Suc n) s end_ptr =
     (if s < end_ptr then
        let ch = mb_data mb ! nat s
        in if ch = 10 \<or> uint ch < minch then ([ch], True, s + 1)
           else
             (case (if s + 1 = end_ptr \<and> mb_tail mb > mb_head mb
                    then membuf_readline_loop mb minch n 0 (mb_head mb)
                    else membuf_readline_loop mb minch n (s + 1) end_ptr) of
                (str, ok, s1) \<Rightarrow> (ch # str, ok, s1))
      else ([], False, s))"

text \<open>
  The result is the number of bytes taken, the string written (None when not even its terminator is
  written) and the buffer. The terminator overwrites the line end.
\<close>

definition membuf_readline ::
  "membuf \<Rightarrow> int \<Rightarrow> int \<Rightarrow> bool \<Rightarrow> int \<times> u8 list option \<times> membuf" where
  "membuf_readline mb maxlen minch must_fit =
     (case membuf_readline_loop mb minch (nat (maxlen - 1)) (mb_tail mb)
             (if mb_head mb \<ge> mb_tail mb then mb_head mb else mb_end mb) of
        (str, ok, s) \<Rightarrow>
          if \<not> ok \<and> must_fit then (0, if maxlen \<noteq> 0 then Some [] else None, mb)
          else (int (length str), Some (if ok then butlast str else str),
                mb\<lparr>mb_tail := (if s = mb_end mb then 0 else s)\<rparr>))"

text \<open>The doubling loop of \<open>membuf_extend_by\<close>; None when it does not end.\<close>

partial_function (option) membuf_double :: "int \<Rightarrow> int \<Rightarrow> int option" where
  "membuf_double sz want = (if sz < want then membuf_double (sz * 2) want else Some sz)"

definition membuf_extend_by ::
  "allocator \<Rightarrow> (nat \<Rightarrow> u8) \<Rightarrow> membuf \<Rightarrow> int \<Rightarrow> int \<Rightarrow> (int \<times> membuf) option" where
  "membuf_extend_by realloc garbage mb by_bytes max_size =
     (let orig = mb_end mb
      in case membuf_double orig (orig + by_bytes) of
           None \<Rightarrow> None
         | Some size0 \<Rightarrow>
             let size1 = (if max_size \<noteq> - 1 then min size0 max_size else size0);
                 by1 = size1 - orig
             in if by1 \<le> 0 then Some (- E2BIG, mb)
                else if \<not> realloc (nat size1) then Some (- ENOMEM, mb)
                else
                  let oldhead = mb_head mb; oldtail = mb_tail mb;
                      data = mb_data mb @ map garbage [0..<nat by1];
                      mb1 = mb\<lparr>mb_nonnull := True, mb_data := data, mb_head := oldhead, mb_tail := oldtail\<rparr>;
                      mb2 = (if mb_head mb1 < mb_tail mb1
                             then mb1\<lparr>mb_data := mem_write data (mb_tail mb1 + by1)
                                        (mem_read data (mb_tail mb1) (orig - oldtail)),
                                      mb_tail := mb_tail mb1 + by1\<rparr>
                             else mb1)
                  in Some (0, mb2\<lparr>mb_end := size1\<rparr>))"

definition membuf_init :: "u8 list \<Rightarrow> membuf" where
  "membuf_init buff =
     membuf_purge \<lparr>mb_nonnull = True, mb_data = buff, mb_end = int (length buff), mb_head = 0, mb_tail = 0\<rparr>"

definition membuf_new :: "allocator \<Rightarrow> (nat \<Rightarrow> u8) \<Rightarrow> membuf \<Rightarrow> int \<Rightarrow> int \<times> membuf" where
  "membuf_new malloc garbage mb size1 =
     (if \<not> malloc (nat size1) then (- ENOMEM, mb\<lparr>mb_nonnull := False\<rparr>)
      else (0, membuf_init (map garbage [0..<nat size1])))"

definition membuf_uninit :: "membuf \<Rightarrow> membuf" where
  "membuf_uninit mb = membuf_purge (mb\<lparr>mb_nonnull := False, mb_data := [], mb_end := 0\<rparr>)"

definition membuf_dispose :: "membuf \<Rightarrow> membuf" where
  "membuf_dispose mb = membuf_uninit mb"

end
