(* ===== verification/Membuf_Queue.thy ===== *)
theory Membuf_Queue
  imports Membuf
begin

text \<open>
  The circular buffer as a bounded queue of bytes.
\<close>

section \<open>Meaning and invariant\<close>

definition content :: "membuf \<Rightarrow> u8 list" where
  "content mb =
     (if mb_tail mb \<le> mb_head mb then mem_read (mb_data mb) (mb_tail mb) (mb_head mb - mb_tail mb)
      else mem_read (mb_data mb) (mb_tail mb) (mb_end mb - mb_tail mb) @ mem_read (mb_data mb) 0 (mb_head mb))"

definition wf_membuf :: "membuf \<Rightarrow> bool" where
  "wf_membuf mb \<longleftrightarrow> mb_end mb = int (length (mb_data mb)) \<and> 0 \<le> mb_head mb \<and> 0 \<le> mb_tail mb \<and>
     (if mb_nonnull mb then mb_head mb < mb_end mb \<and> mb_tail mb < mb_end mb
      else mb_end mb = 0 \<and> mb_head mb = 0 \<and> mb_tail mb = 0)"

definition capacity :: "membuf \<Rightarrow> nat" where
  "capacity mb = length (mb_data mb) - 1"

lemma length_mem_read [membuf_simps]:
  "0 \<le> off \<Longrightarrow> 0 \<le> len \<Longrightarrow> off + len \<le> int (length data) \<Longrightarrow> length (mem_read data off len) = nat len"
  by (simp add: mem_read_def)

lemma length_mem_write [membuf_simps]:
  "0 \<le> off \<Longrightarrow> off + int (length bs) \<le> int (length data) \<Longrightarrow> length (mem_write data off bs) = length data"
  by (simp add: mem_write_def)

lemma mem_read_0 [simp]: "mem_read data off 0 = []"
  by (simp add: mem_read_def)

lemma mem_write_Nil [simp]: "mem_write data off [] = data"
  by (simp add: mem_write_def)

lemma mem_read_append:
  "0 \<le> a \<Longrightarrow> 0 \<le> m \<Longrightarrow> 0 \<le> n \<Longrightarrow> mem_read data a (m + n) = mem_read data a m @ mem_read data (a + m) n"
  by (simp add: mem_read_def nat_add_distrib take_add add.commute)

text \<open>Reading back what was written, and reading beside it.\<close>

lemma mem_read_write_same:
  "0 \<le> off \<Longrightarrow> off + int (length bs) \<le> int (length data) \<Longrightarrow>
   mem_read (mem_write data off bs) off (int (length bs)) = bs"
  by (simp add: mem_read_def mem_write_def)

lemma mem_read_write_below:
  assumes "0 \<le> a" and "0 \<le> n" and "a + n \<le> off" and "off + int (length bs) \<le> int (length data)"
  shows "mem_read (mem_write data off bs) a n = mem_read data a n"
proof -
  have "nat a + nat n \<le> nat off" "nat off \<le> length data" using assms by linarith+
  then show ?thesis by (simp add: mem_read_def mem_write_def take_drop min_def add.commute)
qed

lemma mem_read_write_above:
  assumes "0 \<le> off" and "off + int (length bs) \<le> a" and "off + int (length bs) \<le> int (length data)"
  shows "mem_read (mem_write data off bs) a n = mem_read data a n"
proof -
  have "nat off + length bs \<le> nat a" "nat off + length bs \<le> length data" using assms by linarith+
  then show ?thesis by (simp add: mem_read_def mem_write_def min_def)
qed

lemmas mem_read_write = mem_read_write_same mem_read_write_below mem_read_write_above

section \<open>Reading\<close>

lemma membuf_getraw_content:
  assumes "wf_membuf mb" and "membuf_getraw mb maxlen True = (len, data, mb1)"
    and "bs = (case data of Some off \<Rightarrow> mem_read (mb_data mb1) off len | None \<Rightarrow> [])"
  shows "wf_membuf mb1 \<and> mb_data mb1 = mb_data mb \<and> len = int (length bs) \<and> content mb = bs @ content mb1 \<and>
    (0 \<le> maxlen \<longrightarrow> len \<le> maxlen) \<and>
    (maxlen < 0 \<or> len < maxlen \<longrightarrow> (if mb_head mb < mb_tail mb then mb_tail mb1 = 0 else content mb1 = [])) \<and>
    mb_head mb1 = mb_head mb"
proof -
  consider "mb_tail mb < mb_head mb" | "mb_head mb < mb_tail mb" | "mb_head mb = mb_tail mb" by linarith
  then show ?thesis
  proof cases
    case 1
    obtain n where n: "0 \<le> n" "n \<le> mb_head mb - mb_tail mb" "0 \<le> maxlen \<longrightarrow> n \<le> maxlen"
        "maxlen < 0 \<or> n < maxlen \<longrightarrow> n = mb_head mb - mb_tail mb"
      and e: "len = n" "data = Some (mb_tail mb)" "mb1 = mb\<lparr>mb_tail := mb_tail mb + n\<rparr>"
      using assms(2) 1 by (auto simp: membuf_getraw_def Let_def split: if_splits)
    have "mem_read (mb_data mb) (mb_tail mb) (n + (mb_head mb - mb_tail mb - n)) =
        mem_read (mb_data mb) (mb_tail mb) n @ mem_read (mb_data mb) (mb_tail mb + n) (mb_head mb - mb_tail mb - n)"
      using assms(1) 1 n by (intro mem_read_append) (auto simp: wf_membuf_def)
    then have "content mb = bs @ content mb1"
      using e assms(3) 1 n by (simp add: content_def algebra_simps)
    moreover have "len = int (length bs)"
      using assms(1,3) 1 n e by (simp add: wf_membuf_def membuf_simps split: if_splits)
    moreover have "wf_membuf mb1" using assms(1) n e by (auto simp: wf_membuf_def split: if_splits)
    moreover have "maxlen < 0 \<or> n < maxlen \<longrightarrow> content mb1 = []" using e n(4) by (auto simp: content_def)
    ultimately show ?thesis using e n 1 by simp
  next
    case 2
    obtain n where n: "0 \<le> n" "n \<le> mb_end mb - mb_tail mb" "0 \<le> maxlen \<longrightarrow> n \<le> maxlen"
        "maxlen < 0 \<or> n < maxlen \<longrightarrow> n = mb_end mb - mb_tail mb"
      and e: "len = n" "data = Some (mb_tail mb)"
        "mb1 = mb\<lparr>mb_tail := if mb_tail mb + n = mb_end mb then 0 else mb_tail mb + n\<rparr>"
      using assms(1,2) 2 by (auto simp: membuf_getraw_def Let_def wf_membuf_def split: if_splits)
    have "mem_read (mb_data mb) (mb_tail mb) (n + (mb_end mb - mb_tail mb - n)) =
        mem_read (mb_data mb) (mb_tail mb) n @ mem_read (mb_data mb) (mb_tail mb + n) (mb_end mb - mb_tail mb - n)"
      using assms(1) 2 n by (intro mem_read_append) (auto simp: wf_membuf_def)
    then have "content mb = bs @ content mb1"
      using e assms(1,3) 2 n by (auto simp: content_def algebra_simps wf_membuf_def split: if_splits)
    moreover have "len = int (length bs)"
      using assms(1,3) 2 n e by (simp add: wf_membuf_def membuf_simps split: if_splits)
    moreover have "wf_membuf mb1" using assms(1) n e 2 by (auto simp: wf_membuf_def split: if_splits)
    moreover have "maxlen < 0 \<or> n < maxlen \<longrightarrow> mb_tail mb1 = 0" using e n(4) by auto
    ultimately show ?thesis using e n 2 by simp
  next
    case 3
    then show ?thesis using assms by (auto simp: membuf_getraw_def content_def)
  qed
qed

lemma membuf_get_round_content:
  assumes "wf_membuf mb" and "membuf_get_round mb maxlen = (bs, len, mb1)"
  shows "wf_membuf mb1 \<and> mb_data mb1 = mb_data mb \<and> len = int (length bs) \<and> content mb = bs @ content mb1 \<and>
    (0 \<le> maxlen \<longrightarrow> len \<le> maxlen) \<and>
    (maxlen < 0 \<or> len < maxlen \<longrightarrow> (if mb_head mb < mb_tail mb then mb_tail mb1 = 0 else content mb1 = [])) \<and>
    mb_head mb1 = mb_head mb"
proof -
  obtain l d m where "membuf_getraw mb maxlen True = (l, d, m)" by (metis prod_cases3)
  then show ?thesis using membuf_getraw_content [OF assms(1)] assms(2) by (auto simp: membuf_get_round_def)
qed

text \<open>Two rounds are enough: a second one starts at the bottom of the buffer.\<close>

lemma membuf_get_content:
  assumes "wf_membuf mb" and "0 \<le> maxlen" and "membuf_get mb maxlen = (bs, mb1)"
  shows "wf_membuf mb1 \<and> mb_data mb1 = mb_data mb \<and> bs = take (nat maxlen) (content mb) \<and>
    content mb1 = drop (nat maxlen) (content mb)"
proof -
  obtain bs1 l1 m1 where r1: "membuf_get_round mb maxlen = (bs1, l1, m1)" by (metis prod_cases3)
  note g1 = membuf_get_round_content [OF assms(1) r1]
  obtain bs2 l2 m2 where r2: "membuf_get_round m1 (maxlen - l1) = (bs2, l2, m2)" by (metis prod_cases3)
  have g2: "wf_membuf m2 \<and> mb_data m2 = mb_data m1 \<and> l2 = int (length bs2) \<and> content m1 = bs2 @ content m2 \<and>
    l2 \<le> maxlen - l1 \<and> (l2 < maxlen - l1 \<longrightarrow> \<not> mb_head m1 < mb_tail m1 \<longrightarrow> content m2 = [])"
    using membuf_get_round_content [OF _ r2] g1 assms(2) by auto
  have done1: "content m2 = []" if "l2 < maxlen - l1"
  proof (cases "mb_head m1 < mb_tail m1")
    case True
    then have "mb_head mb < mb_tail mb \<Longrightarrow> mb_tail m1 = 0" "\<not> mb_head mb < mb_tail mb \<Longrightarrow> content m1 = []"
      using g1 g2 that by auto
    moreover have "0 \<le> mb_head m1" using g1 by (auto simp: wf_membuf_def)
    ultimately show ?thesis using True g2 by fastforce
  qed (use g2 that in auto)
  show ?thesis
  proof (cases "l1 = 0")
    case True
    then have e: "bs = bs1" "mb1 = m1" "bs1 = []" using assms(3) r1 g1 by (auto simp: membuf_get_def)
    have "maxlen = 0 \<or> content mb = []"
    proof (rule disjCI)
      assume "content mb \<noteq> []"
      show "maxlen = 0"
      proof (rule ccontr)
        assume "maxlen \<noteq> 0"
        then have "if mb_head mb < mb_tail mb then mb_tail m1 = 0 else content m1 = []" using g1 True assms(2) by simp
        then have "mb_head mb < mb_tail mb" "mb_tail m1 = 0" using \<open>content mb \<noteq> []\<close> g1 e by (auto split: if_splits)
        then show False using r1 True e assms(1) \<open>maxlen \<noteq> 0\<close> assms(2)
          by (auto simp: membuf_get_round_def membuf_getraw_def Let_def wf_membuf_def split: if_splits)
      qed
    qed
    then show ?thesis using e g1 by auto
  next
    case False
    then have e: "bs = bs1 @ bs2" "mb1 = m2" using assms(3) r1 r2 by (auto simp: membuf_get_def)
    have c: "content mb = bs @ content m2" "int (length bs) \<le> maxlen" using g1 g2 e by auto
    have "int (length bs) = maxlen \<or> content m2 = []" using done1 g1 g2 e by auto
    then have "bs = take (nat maxlen) (content mb) \<and> content m2 = drop (nat maxlen) (content mb)"
      using c by auto
    then show ?thesis using g1 g2 e by simp
  qed
qed

lemma membuf_avail_content:
  assumes "wf_membuf mb"
  shows "membuf_avail mb = int (length (content mb))"
proof -
  obtain bs1 l1 m1 where r1: "membuf_get_round mb (- 1) = (bs1, l1, m1)" by (metis prod_cases3)
  note g1 = membuf_get_round_content [OF assms r1]
  obtain bs2 l2 m2 where r2: "membuf_get_round m1 (- 1) = (bs2, l2, m2)" by (metis prod_cases3)
  have g2: "l2 = int (length bs2) \<and> content m1 = bs2 @ content m2 \<and> (if mb_head m1 < mb_tail m1 then mb_tail m2 = 0 else content m2 = [])"
    using membuf_get_round_content [OF _ r2] g1 by auto
  have "\<not> mb_head m1 < mb_tail m1 \<or> content m1 = []" using g1 by (auto simp: wf_membuf_def split: if_splits)
  then have "content m2 = []" using g2 by auto
  then have "int (length (content mb)) = l1 + l2" using g1 g2 by simp
  then show ?thesis using r1 r2 by (auto simp: membuf_avail_def membuf_get_round_def split: prod.splits)
qed

section \<open>Writing\<close>

lemma length_content:
  "wf_membuf mb \<Longrightarrow> int (length (content mb)) =
     (if mb_tail mb \<le> mb_head mb then mb_head mb - mb_tail mb else mb_end mb - mb_tail mb + mb_head mb)"
  by (auto simp: content_def wf_membuf_def membuf_simps split: if_splits)

lemma length_content_le: "wf_membuf mb \<Longrightarrow> length (content mb) \<le> capacity mb"
  using length_content [of mb] by (auto simp: wf_membuf_def capacity_def split: if_splits)

definition full :: "membuf \<Rightarrow> bool" where
  "full mb \<longleftrightarrow> length (content mb) = capacity mb"

lemma membuf_putraw_content:
  assumes "wf_membuf mb" and "membuf_putraw mb maxlen True = (len, off, mb1)" and "0 \<le> maxlen"
    and "int (length bs) = len" and "mb2 = mb1\<lparr>mb_data := mem_write (mb_data mb1) off bs\<rparr>"
  shows "wf_membuf mb2 \<and> content mb2 = content mb @ bs \<and> capacity mb2 = capacity mb"
proof -
  consider "\<not> mb_nonnull mb" | "mb_nonnull mb" "mb_head mb < mb_tail mb" | "mb_nonnull mb" "mb_tail mb \<le> mb_head mb"
    by linarith
  then show ?thesis
  proof cases
    case 1
    then show ?thesis using assms by (auto simp: membuf_putraw_def membuf_putrawflex_def)
  next
    case 2
    then have e: "off = mb_head mb" "mb1 = mb\<lparr>mb_head := mb_head mb + len\<rparr>" "mb_head mb + len < mb_tail mb"
      using assms(2) by (auto simp: membuf_putraw_def membuf_putrawflex_def Let_def split: if_splits)
    have d: "mb_end mb = int (length (mb_data mb))" "0 \<le> mb_head mb" "mb_tail mb < mb_end mb" "0 \<le> mb_tail mb"
      using assms(1) 2 by (auto simp: wf_membuf_def)
    have l: "length (mem_write (mb_data mb) (mb_head mb) bs) = length (mb_data mb)"
      using d e assms(4) by (intro length_mem_write) auto
    have "mem_read (mem_write (mb_data mb) (mb_head mb) bs) (mb_tail mb) (mb_end mb - mb_tail mb) =
        mem_read (mb_data mb) (mb_tail mb) (mb_end mb - mb_tail mb)"
      using d e assms(4) by (intro mem_read_write_above) auto
    moreover have "mem_read (mem_write (mb_data mb) (mb_head mb) bs) 0 (mb_head mb + len) =
        mem_read (mb_data mb) 0 (mb_head mb) @ bs"
      using d e assms(4) mem_read_append [of 0 "mb_head mb" len] mem_read_write_same [of "mb_head mb" bs "mb_data mb"]
        mem_read_write_below [of 0 "mb_head mb" "mb_head mb" bs "mb_data mb"] by simp
    ultimately show ?thesis
      using e 2 d l assms(1,4,5) by (auto simp: content_def wf_membuf_def capacity_def)
  next
    case 3
    have d: "mb_end mb = int (length (mb_data mb))" "0 \<le> mb_head mb" "mb_head mb < mb_end mb" "0 \<le> mb_tail mb"
      using assms(1) 3 by (auto simp: wf_membuf_def)
    have e: "off = mb_head mb"
      "mb_head mb + len < mb_end mb \<and> mb1 = mb\<lparr>mb_head := mb_head mb + len\<rparr> \<or>
       mb_head mb + len = mb_end mb \<and> mb_tail mb \<noteq> 0 \<and> mb1 = mb\<lparr>mb_head := 0\<rparr>"
      using assms(2,3) 3 by (auto simp: membuf_putraw_def membuf_putrawflex_def Let_def split: if_splits)
    have le: "mb_head mb + int (length bs) \<le> int (length (mb_data mb))" using e(2) d assms(4) by auto
    have l: "length (mem_write (mb_data mb) (mb_head mb) bs) = length (mb_data mb)"
      using d le by (intro length_mem_write) auto
    have "mem_read (mem_write (mb_data mb) (mb_head mb) bs) (mb_tail mb) (mb_head mb + len - mb_tail mb) =
        mem_read (mb_data mb) (mb_tail mb) (mb_head mb - mb_tail mb) @ bs"
      using d le 3 assms(4) mem_read_append [of "mb_tail mb" "mb_head mb - mb_tail mb" len]
        mem_read_write_same [of "mb_head mb" bs "mb_data mb"]
        mem_read_write_below [of "mb_tail mb" "mb_head mb - mb_tail mb" "mb_head mb" bs "mb_data mb"]
      by (simp add: algebra_simps)
    then show ?thesis
      using e 3 d l assms(1,4,5) by (auto simp: content_def wf_membuf_def capacity_def)
  qed
qed

text \<open>When a round could not place everything, the buffer is full or the free space is at its start.\<close>

lemma membuf_putraw_amount:
  assumes "wf_membuf mb" and "membuf_putraw mb maxlen True = (len, off, mb1)" and "0 \<le> maxlen"
  shows "0 \<le> len \<and> len \<le> maxlen \<and> int (length (content mb)) + len \<le> int (capacity mb) \<and> mb_tail mb1 = mb_tail mb \<and>
    mb_data mb1 = mb_data mb \<and> mb_nonnull mb1 = mb_nonnull mb \<and>
    (len < maxlen \<longrightarrow> int (length (content mb)) + len = int (capacity mb) \<or>
      mb_tail mb \<le> mb_head mb \<and> mb_head mb1 = 0 \<and> 0 < mb_tail mb)"
  using assms length_content [OF assms(1)]
  by (auto simp: membuf_putraw_def membuf_putrawflex_def Let_def wf_membuf_def capacity_def split: if_splits)

lemma membuf_put_round_content:
  assumes "wf_membuf mb" and "membuf_put_round mb buff (int (length buff)) = (w, mb1)"
  shows "wf_membuf mb1 \<and> capacity mb1 = capacity mb \<and> 0 \<le> w \<and> w \<le> int (length buff) \<and>
    content mb1 = content mb @ take (nat w) buff \<and> mb_tail mb1 = mb_tail mb \<and>
    (w < int (length buff) \<longrightarrow> full mb1 \<or> mb_tail mb \<le> mb_head mb \<and> mb_head mb1 = 0 \<and> 0 < mb_tail mb)"
proof -
  obtain l d m where r: "membuf_putraw mb (int (length buff)) True = (l, d, m)" by (metis prod_cases3)
  have e: "w = l" "mb1 = m\<lparr>mb_data := mem_write (mb_data m) d (take (nat w) buff)\<rparr>"
    using assms(2) r by (auto simp: membuf_put_round_def)
  note a = membuf_putraw_amount [OF assms(1) r]
  have len: "int (length (take (nat w) buff)) = w" using a e by (auto simp: min_def)
  have "wf_membuf mb1 \<and> content mb1 = content mb @ take (nat w) buff \<and> capacity mb1 = capacity mb"
    using membuf_putraw_content [OF assms(1) r _ _ e(2)] len e(1) by simp
  then show ?thesis using a e len by (auto simp: full_def)
qed

lemma membuf_put_content:
  assumes "wf_membuf mb" and "membuf_put mb buff = (n, mb2)"
  shows "wf_membuf mb2 \<and> capacity mb2 = capacity mb \<and>
    n = int (min (length buff) (capacity mb - length (content mb))) \<and>
    content mb2 = content mb @ take (nat n) buff"
proof -
  obtain w1 m1 where r1: "membuf_put_round mb buff (int (length buff)) = (w1, m1)" by fastforce
  note p1 = membuf_put_round_content [OF assms(1) r1]
  let ?rest = "drop (nat w1) buff"
  have len: "int (length buff) - w1 = int (length ?rest)" using p1 by auto
  obtain w2 m2 where r2: "membuf_put_round m1 ?rest (int (length ?rest)) = (w2, m2)" by fastforce
  have w1: "wf_membuf m1" using p1 by simp
  note p2 = membuf_put_round_content [OF w1 r2]
  have e: "n = w1 + w2" "mb2 = m2" using assms(2) r1 r2 unfolding membuf_put_def len [symmetric] by auto
  have n: "0 \<le> w1" "0 \<le> w2" "n \<le> int (length buff)" using p1 p2 e len by linarith+
  have c: "content mb2 = content mb @ take (nat n) buff"
    using p1 p2 n(1,2) unfolding e by (simp add: nat_add_distrib take_add)
  have wf: "wf_membuf mb2" "capacity mb2 = capacity mb" using p1 p2 e by simp_all
  have fl: "full mb2" if "n < int (length buff)"
  proof (cases "full m2")
    case False
    have less: "w2 < int (length ?rest)" "w1 < int (length buff)" using that e len n by linarith+
    then have h: "mb_tail m1 \<le> mb_head m1" "0 < mb_tail m1" using p2 False by blast+
    then have "full m1" using p1 less(2) by auto
    then have "length (content m1) = capacity m2" using p2 by (simp add: full_def)
    moreover have "length (content m1) \<le> length (content m2)" using p2 by simp
    moreover have "length (content m2) \<le> capacity m2" using p2 by (intro length_content_le) simp
    ultimately show ?thesis by (simp add: full_def e)
  qed (simp add: e)
  have l: "length (content mb2) = length (content mb) + nat n" using c n by simp
  have le: "length (content mb2) \<le> capacity mb" using length_content_le [OF wf(1)] wf(2) by simp
  have "n = int (min (length buff) (capacity mb - length (content mb)))"
  proof (cases "n < int (length buff)")
    case True
    then show ?thesis using fl l e n wf(2) by (simp add: full_def)
  qed (use l le n e in simp)
  then show ?thesis using c wf by simp
qed

section \<open>The queue interface\<close>

text \<open>A request of a client: put bytes into the queue or get at most so many out of it.\<close>

datatype queue_op = Put "u8 list" | Get nat

text \<open>
  What a bounded byte queue promises, with the FIFO property of any sequence of requests proved once
  from it: what went in and is still there is what was there before.
\<close>

locale byte_queue =
  fixes view :: "'s \<Rightarrow> u8 list"
    and inv :: "'s \<Rightarrow> bool"
    and cap :: "'s \<Rightarrow> nat"
    and put :: "'s \<Rightarrow> u8 list \<Rightarrow> int \<times> 's"
    and get :: "'s \<Rightarrow> int \<Rightarrow> u8 list \<times> 's"
  assumes put_law: "\<lbrakk>inv s; put s bs = (n, s1)\<rbrakk> \<Longrightarrow> inv s1 \<and> cap s1 = cap s \<and>
      n = int (min (length bs) (cap s - length (view s))) \<and> view s1 = view s @ take (nat n) bs"
    and get_law: "\<lbrakk>inv s; get s (int k) = (bs, s1)\<rbrakk> \<Longrightarrow> inv s1 \<and> cap s1 = cap s \<and>
      bs = take k (view s) \<and> view s1 = drop k (view s)"
begin

primrec run :: "queue_op list \<Rightarrow> 's \<Rightarrow> u8 list \<times> u8 list \<times> 's" where
  "run [] s = ([], [], s)"
| "run (q # qs) s =
     (case q of
        Put bs \<Rightarrow> (case put s bs of (n, s1) \<Rightarrow>
          case run qs s1 of (i, out, s2) \<Rightarrow> (take (nat n) bs @ i, out, s2))
      | Get k \<Rightarrow> (case get s (int k) of (bs, s1) \<Rightarrow>
          case run qs s1 of (i, out, s2) \<Rightarrow> (i, bs @ out, s2)))"

lemma run_fifo:
  "inv s \<Longrightarrow> run qs s = (i, out, s1) \<Longrightarrow> inv s1 \<and> cap s1 = cap s \<and> view s @ i = out @ view s1"
proof (induction qs arbitrary: s i out s1)
  case (Cons q qs)
  show ?case
  proof (cases q)
    case (Put bs)
    obtain n s2 where p: "put s bs = (n, s2)" by fastforce
    obtain i2 o2 s3 where r: "run qs s2 = (i2, o2, s3)" by (metis prod_cases3)
    have e: "i = take (nat n) bs @ i2" "out = o2" "s1 = s3" using Cons.prems(2) Put p r by auto
    show ?thesis using put_law [OF Cons.prems(1) p] Cons.IH [OF _ r] e by auto
  next
    case (Get k)
    obtain bs s2 where g: "get s (int k) = (bs, s2)" by fastforce
    obtain i2 o2 s3 where r: "run qs s2 = (i2, o2, s3)" by (metis prod_cases3)
    have e: "i = i2" "out = bs @ o2" "s1 = s3" using Cons.prems(2) Get g r by auto
    have l: "inv s2" "cap s2 = cap s" "view s = bs @ view s2" using get_law [OF Cons.prems(1) g] by auto
    show ?thesis using Cons.IH [OF l(1) r] l e by simp
  qed
qed simp

text \<open>Bytes that fit come out again unchanged after what was there before.\<close>

lemma put_get:
  assumes "inv s" and "length (view s) + length bs \<le> cap s" and "put s bs = (n, s1)"
    and "get s1 (int (length (view s) + length bs)) = (out, s2)"
  shows "n = int (length bs) \<and> out = view s @ bs \<and> view s2 = []"
  using put_law [OF assms(1,3)] get_law [OF _ assms(4)] assms(2) by auto

end

interpretation mbq: byte_queue content wf_membuf capacity membuf_put membuf_get
proof (unfold_locales, goal_cases)
  case (1 s bs n s1)
  then show ?case using membuf_put_content by blast
next
  case (2 s k bs s1)
  then show ?case using membuf_get_content [of s "int k" bs s1] by (simp add: capacity_def)
qed

end
