(* ===== verification/Membuf_Props.thy ===== *)
theory Membuf_Props
  imports Membuf_Queue
begin

text \<open>
  The properties of the circular buffer: it is a bounded FIFO queue of bytes, making it contiguous or
  larger keeps what is in it, and reading a line takes the line off its front.
\<close>

section \<open>Moving the content\<close>

lemma membuf_makecontig_content:
  assumes "wf_membuf mb" and "membuf_makecontig mb = (ok, mb1)"
  shows "wf_membuf mb1 \<and> content mb1 = content mb \<and> capacity mb1 = capacity mb \<and> (ok \<longrightarrow> mb_tail mb1 = 0) \<and>
    (\<not> ok \<longrightarrow> mb1 = mb)"
proof -
  have d: "mb_end mb = int (length (mb_data mb))" "0 \<le> mb_head mb" "0 \<le> mb_tail mb" "mb_head mb \<le> mb_end mb"
    "mb_tail mb \<le> mb_end mb" using assms(1) by (auto simp: wf_membuf_def split: if_splits)
  consider "mb_tail mb > mb_head mb" "mb_head mb + (mb_end mb - mb_tail mb) \<ge> mb_tail mb"
    | "mb_tail mb > mb_head mb" "mb_head mb + (mb_end mb - mb_tail mb) < mb_tail mb"
    | "mb_tail mb \<le> mb_head mb" by linarith
  then show ?thesis
  proof cases
    case 1
    then show ?thesis using assms by (auto simp: membuf_makecontig_def Let_def)
  next
    case 2
    let ?t = "mb_end mb - mb_tail mb" and ?b = "mem_read (mb_data mb) 0 (mb_head mb)"
    let ?d1 = "mem_write (mb_data mb) ?t ?b"
    let ?d2 = "mem_write ?d1 0 (mem_read ?d1 (mb_tail mb) ?t)"
    have e: "ok" "mb1 = mb\<lparr>mb_data := ?d2, mb_tail := 0, mb_head := ?t + mb_head mb\<rparr>"
      using assms(2) 2 by (auto simp: membuf_makecontig_def Let_def)
    have lb: "int (length ?b) = mb_head mb" using d by (simp add: length_mem_read)
    have l1: "length ?d1 = length (mb_data mb)" using d 2 lb by (intro length_mem_write) auto
    have top_eq: "mem_read ?d1 (mb_tail mb) ?t = mem_read (mb_data mb) (mb_tail mb) ?t"
      using d 2 lb by (intro mem_read_write_above) auto
    have lt: "int (length (mem_read ?d1 (mb_tail mb) ?t)) = ?t" using d l1 by (simp add: length_mem_read)
    have l2: "length ?d2 = length (mb_data mb)" using d 2 lt l1 length_mem_write [of 0 _ ?d1] by auto
    have "mem_read ?d2 0 (?t + mb_head mb) = mem_read ?d2 0 ?t @ mem_read ?d2 ?t (mb_head mb)"
      using d mem_read_append [of 0 ?t "mb_head mb" ?d2] by simp
    also have "mem_read ?d2 0 ?t = mem_read (mb_data mb) (mb_tail mb) ?t"
      using mem_read_write_same [of 0 "mem_read ?d1 (mb_tail mb) ?t" ?d1] lt l1 d top_eq by simp
    also have "mem_read ?d2 ?t (mb_head mb) = mem_read ?d1 ?t (mb_head mb)"
      using d 2 lt l1 by (intro mem_read_write_above) auto
    also have "\<dots> = ?b" using mem_read_write_same [of ?t ?b "mb_data mb"] lb d 2 by simp
    finally have "content mb1 = content mb" using e 2 d by (simp add: content_def)
    moreover have "wf_membuf mb1" using assms(1) 2 e l2 d by (auto simp: wf_membuf_def split: if_splits)
    ultimately show ?thesis using e l2 by (simp add: capacity_def)
  next
    case 3
    let ?t = "mb_head mb - mb_tail mb"
    let ?r = "mem_read (mb_data mb) (mb_tail mb) ?t"
    have e: "ok" "mb1 = mb\<lparr>mb_data := mem_write (mb_data mb) 0 ?r, mb_tail := 0, mb_head := ?t\<rparr>"
      using assms(2) 3 by (auto simp: membuf_makecontig_def Let_def)
    have lr: "int (length ?r) = ?t" using d 3 by (simp add: length_mem_read)
    have l: "length (mem_write (mb_data mb) 0 ?r) = length (mb_data mb)" using d 3 lr by (intro length_mem_write) auto
    have "content mb1 = content mb"
      using e 3 d lr mem_read_write_same [of 0 ?r "mb_data mb"] by (simp add: content_def)
    moreover have "wf_membuf mb1" using assms(1) 3 e l d by (auto simp: wf_membuf_def split: if_splits)
    ultimately show ?thesis using e l by (simp add: capacity_def)
  qed
qed





section \<open>Reading a line\<close>

text \<open>What the reading loop has still to see when it stands at \<open>s\<close> with the end at \<open>e\<close>.\<close>

definition unread :: "membuf \<Rightarrow> int \<Rightarrow> int \<Rightarrow> u8 list" where
  "unread mb s e = mem_read (mb_data mb) s (e - s) @
     (if e = mb_end mb then mem_read (mb_data mb) 0 (mb_head mb) else [])"

definition reading :: "membuf \<Rightarrow> int \<Rightarrow> int \<Rightarrow> bool" where
  "reading mb s e \<longleftrightarrow> 0 \<le> s \<and> s \<le> e \<and>
     (e = mb_head mb \<or> e = mb_end mb \<and> mb_head mb < mb_tail mb \<and> s < e \<and> mb_head mb < s)"

definition line_end :: "int \<Rightarrow> u8 \<Rightarrow> bool" where
  "line_end minch ch \<longleftrightarrow> ch = 10 \<or> uint ch < minch"

lemma mem_read_Cons:
  "0 \<le> s \<Longrightarrow> s < e \<Longrightarrow> e \<le> int (length data) \<Longrightarrow>
   mem_read data s (e - s) = data ! nat s # mem_read data (s + 1) (e - (s + 1))"
proof -
  assume a: "0 \<le> s" "s < e" "e \<le> int (length data)"
  then have "nat (e - s) = Suc (nat (e - (s + 1)))" "nat s < length data" "nat (s + 1) = Suc (nat s)" by linarith+
  then show ?thesis by (simp add: mem_read_def Cons_nth_drop_Suc [symmetric])
qed

lemma reading_step:
  assumes "wf_membuf mb" and "reading mb s e" and "s < e" and "unread mb s e = ch # rest"
    and "s' = (if s + 1 = e \<and> mb_tail mb > mb_head mb then 0 else s + 1)"
    and "e' = (if s + 1 = e \<and> mb_tail mb > mb_head mb then mb_head mb else e)"
  shows "mb_data mb ! nat s = ch \<and> reading mb s' e' \<and> (rest \<noteq> [] \<longrightarrow> unread mb s' e' = rest) \<and>
    content (mb\<lparr>mb_tail := if s + 1 = mb_end mb then 0 else s + 1\<rparr>) = rest \<and>
    wf_membuf (mb\<lparr>mb_tail := if s + 1 = mb_end mb then 0 else s + 1\<rparr>)"
proof -
  have d: "mb_end mb = int (length (mb_data mb))" "0 \<le> mb_head mb" "0 \<le> mb_tail mb" "mb_head mb \<le> mb_end mb"
    using assms(1) by (auto simp: wf_membuf_def split: if_splits)
  have nn: "mb_nonnull mb" "mb_head mb < mb_end mb"
    using assms(1,2,3) by (auto simp: wf_membuf_def reading_def split: if_splits)
  have r: "mem_read (mb_data mb) s (e - s) = mb_data mb ! nat s # mem_read (mb_data mb) (s + 1) (e - (s + 1))"
    using assms(2,3) d by (intro mem_read_Cons) (auto simp: reading_def)
  then have c: "mb_data mb ! nat s = ch"
    "rest = mem_read (mb_data mb) (s + 1) (e - (s + 1)) @ (if e = mb_end mb then mem_read (mb_data mb) 0 (mb_head mb) else [])"
    using assms(4) by (auto simp: unread_def)
  show ?thesis
  proof (cases "e = mb_end mb")
    case True
    then have p: "mb_head mb < mb_tail mb" "mb_head mb < s" using assms(2) nn(2) by (auto simp: reading_def)
    then show ?thesis
      using c True assms(1,2,3,5,6) d nn
      by (auto simp: reading_def unread_def content_def wf_membuf_def)
  next
    case False
    then have e: "e = mb_head mb" using assms(2) by (simp add: reading_def)
    then show ?thesis
      using c False assms(1,2,3,5,6) d nn
      by (auto simp: reading_def unread_def content_def wf_membuf_def)
  qed
qed

lemma reading_nonempty: "reading mb s e \<Longrightarrow> unread mb s e \<noteq> [] \<Longrightarrow> mb_head mb < mb_end mb \<Longrightarrow> s < e"
  by (cases "s = e") (auto simp: reading_def unread_def)

lemma readline_loop_Suc:
  assumes "wf_membuf mb" and "reading mb s e" and "s < e"
    and "unread mb s e = ch # rest" and "\<not> line_end minch ch"
    and "s' = (if s + 1 = e \<and> mb_tail mb > mb_head mb then 0 else s + 1)"
    and "e' = (if s + 1 = e \<and> mb_tail mb > mb_head mb then mb_head mb else e)"
    and "membuf_readline_loop mb minch n s' e' = (str, ok, s1)"
  shows "membuf_readline_loop mb minch (Suc n) s e = (ch # str, ok, s1)"
  using reading_step [OF assms(1-4) refl refl] assms(3,5-8) by (auto simp: line_end_def Let_def)

lemma readline_loop_found:
  assumes "wf_membuf mb" and "mb_head mb < mb_end mb" and "reading mb s e" and "unread mb s e = pre @ c # post"
    and "\<forall>x \<in> set pre. \<not> line_end minch x" and "line_end minch c" and "length pre < n"
  shows "\<exists>s1. membuf_readline_loop mb minch n s e = (pre @ [c], True, s1) \<and>
    content (mb\<lparr>mb_tail := if s1 = mb_end mb then 0 else s1\<rparr>) = post \<and>
    wf_membuf (mb\<lparr>mb_tail := if s1 = mb_end mb then 0 else s1\<rparr>)"
  using assms(3-7)
proof (induction pre arbitrary: s e n)
  case Nil
  then obtain m where n: "n = Suc m" by (cases n) auto
  have lt: "s < e" using reading_nonempty [OF Nil.prems(1) _ assms(2)] Nil.prems(2) by simp
  show ?case
    using reading_step [OF assms(1) Nil.prems(1) lt _ refl refl, of c post] Nil.prems lt n
    by (auto simp: line_end_def Let_def)
next
  case (Cons x pre)
  then obtain m where n: "n = Suc m" by (cases n) auto
  have lt: "s < e" using reading_nonempty [OF Cons.prems(1) _ assms(2)] Cons.prems(2) by simp
  let ?s = "if s + 1 = e \<and> mb_tail mb > mb_head mb then 0 else s + 1"
  let ?e = "if s + 1 = e \<and> mb_tail mb > mb_head mb then mb_head mb else e"
  have u: "unread mb s e = x # (pre @ c # post)" using Cons.prems(2) by simp
  have st: "reading mb ?s ?e" "unread mb ?s ?e = pre @ c # post"
    using reading_step [OF assms(1) Cons.prems(1) lt u refl refl] by auto
  obtain s1 where s1: "membuf_readline_loop mb minch m ?s ?e = (pre @ [c], True, s1)"
    "content (mb\<lparr>mb_tail := if s1 = mb_end mb then 0 else s1\<rparr>) = post"
    "wf_membuf (mb\<lparr>mb_tail := if s1 = mb_end mb then 0 else s1\<rparr>)"
    using Cons.IH [OF st _ Cons.prems(4), of m] Cons.prems(3,5) n by auto
  have "membuf_readline_loop mb minch (Suc m) s e = (x # (pre @ [c]), True, s1)"
    using readline_loop_Suc [OF assms(1) Cons.prems(1) lt u _ refl refl s1(1)] Cons.prems(3) by simp
  then show ?case using s1 n by auto
qed

lemma readline_loop_short:
  assumes "wf_membuf mb" and "mb_head mb < mb_end mb" and "reading mb s e" and "unread mb s e = pre @ c # post"
    and "\<forall>x \<in> set pre. \<not> line_end minch x" and "n \<le> length pre"
  shows "\<exists>str s1. membuf_readline_loop mb minch n s e = (str, False, s1)"
  using assms(3-6)
proof (induction pre arbitrary: s e n)
  case (Cons x pre)
  show ?case
  proof (cases n)
    case (Suc m)
    have lt: "s < e" using reading_nonempty [OF Cons.prems(1) _ assms(2)] Cons.prems(2) by simp
    let ?s = "if s + 1 = e \<and> mb_tail mb > mb_head mb then 0 else s + 1"
    let ?e = "if s + 1 = e \<and> mb_tail mb > mb_head mb then mb_head mb else e"
    have u: "unread mb s e = x # (pre @ c # post)" using Cons.prems(2) by simp
    have st: "reading mb ?s ?e" "unread mb ?s ?e = pre @ c # post"
      using reading_step [OF assms(1) Cons.prems(1) lt u refl refl] by auto
    have "\<forall>x \<in> set pre. \<not> line_end minch x" "m \<le> length pre" using Cons.prems(3,4) Suc by auto
    then obtain str s1 where s1: "membuf_readline_loop mb minch m ?s ?e = (str, False, s1)"
      using Cons.IH [OF st] by blast
    show ?thesis
      using readline_loop_Suc [OF assms(1) Cons.prems(1) lt u _ refl refl s1] Cons.prems(3) Suc by auto
  qed simp
qed simp

lemma readline_loop_none:
  assumes "wf_membuf mb" and "reading mb s e" and "\<forall>x \<in> set (unread mb s e). \<not> line_end minch x"
    and "mb_head mb < mb_tail mb \<longrightarrow> (\<forall>x \<in> set (unread mb 0 (mb_head mb)). \<not> line_end minch x)"
  shows "\<exists>str s1. membuf_readline_loop mb minch n s e = (str, False, s1)"
  using assms(2,3)
proof (induction n arbitrary: s e)
  case (Suc n)
  show ?case
  proof (cases "s < e")
    case True
    let ?s = "if s + 1 = e \<and> mb_tail mb > mb_head mb then 0 else s + 1"
    let ?e = "if s + 1 = e \<and> mb_tail mb > mb_head mb then mb_head mb else e"
    have "0 \<le> s" "e \<le> int (length (mb_data mb))"
      using Suc.prems(1) assms(1) by (auto simp: reading_def wf_membuf_def split: if_splits)
    then obtain ch rest where u: "unread mb s e = ch # rest"
      using True mem_read_Cons [of s e "mb_data mb"] by (auto simp: unread_def)
    note st = reading_step [OF assms(1) Suc.prems(1) True u refl refl]
    have "\<forall>x \<in> set (unread mb ?s ?e). \<not> line_end minch x"
    proof (cases "rest = []")
      case rest: True
      show ?thesis
      proof (cases "s + 1 = e \<and> mb_tail mb > mb_head mb")
        case False
        have "mem_read (mb_data mb) s (e - s) = ch # mem_read (mb_data mb) (s + 1) (e - (s + 1))"
          using mem_read_Cons [OF \<open>0 \<le> s\<close> True \<open>e \<le> int (length (mb_data mb))\<close>] st by simp
        then show ?thesis using False u rest by (auto simp: unread_def)
      qed (use assms(4) in auto)
    qed (use st u Suc.prems(2) in auto)
    then obtain str s1 where s1: "membuf_readline_loop mb minch n ?s ?e = (str, False, s1)"
      using Suc.IH st by blast
    show ?thesis
      using readline_loop_Suc [OF assms(1) Suc.prems(1) True u _ refl refl s1] Suc.prems(2) u by auto
  qed simp
qed simp

text \<open>The whole function, when the line has to fit: it finds the first line or takes nothing.\<close>

lemma membuf_readline_start:
  assumes "wf_membuf mb"
  defines "e \<equiv> if mb_head mb \<ge> mb_tail mb then mb_head mb else mb_end mb"
  shows "reading mb (mb_tail mb) e \<and> unread mb (mb_tail mb) e = content mb"
  using assms by (auto simp: reading_def unread_def content_def wf_membuf_def split: if_splits)

lemma membuf_readline_must_fit:
  assumes "wf_membuf mb" and "pre = takeWhile (\<lambda>c. \<not> line_end minch c) (content mb)"
  shows "if length pre < length (content mb) \<and> int (length pre) + 1 < maxlen
    then \<exists>mb1. membuf_readline mb maxlen minch True = (int (length pre) + 1, Some pre, mb1) \<and>
      wf_membuf mb1 \<and> content mb1 = drop (length pre + 1) (content mb)
    else fst (membuf_readline mb maxlen minch True) = 0 \<and> snd (snd (membuf_readline mb maxlen minch True)) = mb"
proof -
  let ?e = "if mb_head mb \<ge> mb_tail mb then mb_head mb else mb_end mb"
  have st: "reading mb (mb_tail mb) ?e" "unread mb (mb_tail mb) ?e = content mb"
    using membuf_readline_start [OF assms(1)] by auto
  have all: "pre @ dropWhile (\<lambda>c. \<not> line_end minch c) (content mb) = content mb"
    unfolding assms(2) by (rule takeWhile_dropWhile_id)
  have pre: "\<forall>x \<in> set pre. \<not> line_end minch x" using assms(2) set_takeWhileD by fastforce
  show ?thesis
  proof (cases "length pre < length (content mb)")
    case True
    obtain c post where dw: "dropWhile (\<lambda>c. \<not> line_end minch c) (content mb) = c # post"
      using True all by (cases "dropWhile (\<lambda>c. \<not> line_end minch c) (content mb)") auto
    then have c: "line_end minch c"
      using iffD1 [OF dropWhile_eq_Cons_conv dw, THEN conjunct2] by simp
    have app: "content mb = pre @ c # post" using all dw by simp
    then have post: "drop (length pre + 1) (content mb) = post" by simp
    have ne: "mb_head mb < mb_end mb" using True assms(1) by (auto simp: wf_membuf_def content_def split: if_splits)
    have u: "unread mb (mb_tail mb) ?e = pre @ c # post" using st(2) app by simp
    show ?thesis
    proof (cases "int (length pre) + 1 < maxlen")
      case fits: True
      then have "length pre < nat (maxlen - 1)" by linarith
      then obtain s1 where "membuf_readline_loop mb minch (nat (maxlen - 1)) (mb_tail mb) ?e = (pre @ [c], True, s1)"
        "content (mb\<lparr>mb_tail := if s1 = mb_end mb then 0 else s1\<rparr>) = post"
        "wf_membuf (mb\<lparr>mb_tail := if s1 = mb_end mb then 0 else s1\<rparr>)"
        using readline_loop_found [OF assms(1) ne st(1) u pre c] by blast
      then show ?thesis using True fits post by (simp add: membuf_readline_def)
    next
      case False
      then have "nat (maxlen - 1) \<le> length pre" by linarith
      then obtain str s1 where "membuf_readline_loop mb minch (nat (maxlen - 1)) (mb_tail mb) ?e = (str, False, s1)"
        using readline_loop_short [OF assms(1) ne st(1) u pre] by blast
      then show ?thesis using False by (simp add: membuf_readline_def)
    qed
  next
    case False
    then have "length (dropWhile (\<lambda>c. \<not> line_end minch c) (content mb)) = 0"
      using arg_cong [OF all, of length] unfolding length_append by linarith
    then have "pre = content mb" using all by (metis append_Nil2 length_0_conv)
    then have none: "\<forall>x \<in> set (content mb). \<not> line_end minch x" using pre by simp
    have "mb_head mb < mb_tail mb \<longrightarrow> (\<forall>x \<in> set (unread mb 0 (mb_head mb)). \<not> line_end minch x)"
      using none assms(1) by (auto simp: unread_def content_def wf_membuf_def split: if_splits)
    then obtain str s1 where "membuf_readline_loop mb minch (nat (maxlen - 1)) (mb_tail mb) ?e = (str, False, s1)"
      using readline_loop_none [OF assms(1) st(1)] st(2) none by metis
    then show ?thesis using False by (simp add: membuf_readline_def)
  qed
qed

section \<open>Properties\<close>

text \<open>
  \<open>membuf_put\<close> appends to the queue as much of the data as fits and reports how much that was;
  one byte of the buffer always stays unused.
\<close>

theorem membuf_put_correct:
  assumes "wf_membuf mb" and "membuf_put mb buff = (n, mb1)"
  shows "wf_membuf mb1 \<and> capacity mb1 = capacity mb \<and>
    n = int (min (length buff) (capacity mb - length (content mb))) \<and>
    content mb1 = content mb @ take (nat n) buff"
  by (rule membuf_put_content [OF assms])

text \<open>A buffer of four bytes whose content \<open>a b\<close> wraps around its end.\<close>

definition demo_membuf :: membuf where
  "demo_membuf = \<lparr>mb_nonnull = True, mb_data = [98, 0, 0, 97], mb_end = 4, mb_head = 1, mb_tail = 3\<rparr>"

lemma demo_membuf_wf: "wf_membuf demo_membuf" "content demo_membuf = [97, 98]" "capacity demo_membuf = 3"
  by (simp_all add: demo_membuf_def wf_membuf_def content_def mem_read_def capacity_def)

theorem membuf_put_correct_witness:
  "wf_membuf demo_membuf \<and> fst (membuf_put demo_membuf [99, 100]) = 1 \<and>
   content (snd (membuf_put demo_membuf [99, 100])) = [97, 98, 99]"
  using membuf_put_correct [OF demo_membuf_wf(1), of "[99, 100]" "fst (membuf_put demo_membuf [99, 100])"
    "snd (membuf_put demo_membuf [99, 100])"] demo_membuf_wf by simp

text \<open>
  \<open>membuf_get\<close> takes the oldest bytes, at most as many as asked for, across the end of the buffer
  as well, and leaves the rest.
\<close>

theorem membuf_get_correct:
  assumes "wf_membuf mb" and "0 \<le> maxlen" and "membuf_get mb maxlen = (bs, mb1)"
  shows "wf_membuf mb1 \<and> bs = take (nat maxlen) (content mb) \<and> content mb1 = drop (nat maxlen) (content mb)"
  using membuf_get_content [OF assms] by simp

theorem membuf_get_correct_witness:
  "wf_membuf demo_membuf \<and> fst (membuf_get demo_membuf 5) = [97, 98] \<and>
   content (snd (membuf_get demo_membuf 5)) = []"
  using membuf_get_correct [OF demo_membuf_wf(1), of 5 "fst (membuf_get demo_membuf 5)"
    "snd (membuf_get demo_membuf 5)"] demo_membuf_wf by simp

text \<open>
  C16. First in, first out, over any sequence of puts and gets: what was in the buffer followed by the
  bytes accepted is what came out followed by what is in the buffer at the end.
\<close>

theorem membuf_fifo:
  assumes "wf_membuf mb" and "byte_queue.run membuf_put membuf_get qs mb = (accepted, out, mb1)"
  shows "content mb @ accepted = out @ content mb1 \<and> wf_membuf mb1"
  using mbq.run_fifo [OF assms] by simp

theorem membuf_fifo_witness:
  "wf_membuf demo_membuf \<and>
   (case byte_queue.run membuf_put membuf_get [Put [99, 100], Get 2, Put [101]] demo_membuf of
      (accepted, out, mb1) \<Rightarrow> content demo_membuf @ accepted = out @ content mb1)"
  using membuf_fifo [OF demo_membuf_wf(1), of "[Put [99, 100], Get 2, Put [101]]"] demo_membuf_wf(1)
  by (auto split: prod.splits)

text \<open>
  The counters agree with the queue: \<open>membuf_avail\<close> is the number of bytes in it,
  \<open>membuf_free\<close> the number it can still take, and \<open>membuf_isempty\<close> says whether it is empty.
\<close>

theorem membuf_counters:
  assumes "wf_membuf mb"
  shows "membuf_avail mb = int (length (content mb)) \<and>
    membuf_free mb = int (capacity mb - length (content mb)) \<and>
    (membuf_isempty mb \<longleftrightarrow> content mb = [])"
proof -
  have "membuf_free mb = int (capacity mb - length (content mb))"
    using membuf_avail_content [OF assms] length_content_le [OF assms] assms
    by (auto simp: membuf_free_def capacity_def wf_membuf_def split: if_splits)
  moreover have "membuf_isempty mb \<longleftrightarrow> content mb = []"
    using length_content [OF assms] assms by (auto simp: membuf_isempty_def wf_membuf_def split: if_splits)
  ultimately show ?thesis using membuf_avail_content [OF assms] by simp
qed

theorem membuf_counters_witness:
  "wf_membuf demo_membuf \<and> membuf_avail demo_membuf = 2 \<and> membuf_free demo_membuf = 1"
  using membuf_counters [OF demo_membuf_wf(1)] demo_membuf_wf by simp

text \<open>
  \<open>membuf_makecontig\<close> keeps the queue as it is. When it succeeds the content starts at the start
  of the buffer; when it fails the buffer is untouched.
\<close>

theorem membuf_makecontig_correct:
  assumes "wf_membuf mb" and "membuf_makecontig mb = (ok, mb1)"
  shows "wf_membuf mb1 \<and> content mb1 = content mb \<and> (if ok then mb_tail mb1 = 0 else mb1 = mb)"
  using membuf_makecontig_content [OF assms] by simp

theorem membuf_makecontig_correct_witness:
  "wf_membuf demo_membuf \<and> content (snd (membuf_makecontig demo_membuf)) = [97, 98] \<and>
   mb_tail (snd (membuf_makecontig demo_membuf)) = 0"
proof -
  have "fst (membuf_makecontig demo_membuf)" by code_simp
  then have e: "membuf_makecontig demo_membuf = (True, snd (membuf_makecontig demo_membuf))"
    by (metis (full_types) prod.collapse)
  show ?thesis using membuf_makecontig_correct [OF demo_membuf_wf(1) e] demo_membuf_wf by simp
qed

text \<open>
  \<open>membuf_readline\<close> with \<open>must_fit\<close>: when the queue holds a line end (a newline or a character
  below \<open>minch\<close>) and the line with its end fits, the line is returned without the line end and taken
  off the queue together with it. Otherwise nothing is taken and the result is 0.
\<close>

theorem membuf_readline_correct:
  assumes "wf_membuf mb" and "line = takeWhile (\<lambda>c. \<not> line_end minch c) (content mb)"
  shows "if length line < length (content mb) \<and> int (length line) + 1 < maxlen
    then \<exists>mb1. membuf_readline mb maxlen minch True = (int (length line) + 1, Some line, mb1) \<and>
      wf_membuf mb1 \<and> content mb1 = drop (length line + 1) (content mb)
    else fst (membuf_readline mb maxlen minch True) = 0 \<and> snd (snd (membuf_readline mb maxlen minch True)) = mb"
  by (rule membuf_readline_must_fit [OF assms])

definition demo_lines :: membuf where
  "demo_lines = \<lparr>mb_nonnull = True, mb_data = [98, 10, 99, 0, 97], mb_end = 5, mb_head = 3, mb_tail = 4\<rparr>"

theorem membuf_readline_correct_witness:
  "wf_membuf demo_lines \<and> (\<exists>mb1. membuf_readline demo_lines 10 0 True = (3, Some [97, 98], mb1) \<and> content mb1 = [99])"
proof -
  have wf: "wf_membuf demo_lines" and c: "content demo_lines = [97, 98, 10, 99]"
    by (simp_all add: demo_lines_def wf_membuf_def content_def mem_read_def)
  show ?thesis
    using membuf_readline_correct [OF wf refl, of 0 10] wf by (auto simp: c line_end_def)
qed



text \<open>
  Without \<open>must_fit\<close> a wrapped buffer that holds no line end is read more than once:
  \<open>membuf_readline\<close> goes round its lower part until the string is full. Here three bytes are in the
  queue and nine are returned.
\<close>

theorem membuf_readline_repeats:
  "\<exists>mb mb1. wf_membuf mb \<and> content mb = [97, 98, 99] \<and>
     membuf_readline mb 10 0 False = (9, Some [97, 98, 99, 98, 99, 98, 99, 98, 99], mb1)"
proof (intro exI conjI)
  let ?mb = "\<lparr>mb_nonnull = True, mb_data = [98, 99, 0, 97], mb_end = 4, mb_head = 2, mb_tail = 3\<rparr>"
  show "wf_membuf ?mb" "content ?mb = [97, 98, 99]"
    by (simp_all add: wf_membuf_def content_def mem_read_def)
  show "membuf_readline ?mb 10 0 False = (9, Some [97, 98, 99, 98, 99, 98, 99, 98, 99], ?mb\<lparr>mb_tail := 0\<rparr>)"
    by code_simp
qed

text \<open>A buffer without a size is never extended: the doubling loop does not end.\<close>

lemma membuf_double_zero: "0 < want \<Longrightarrow> membuf_double 0 want = None"
proof -
  assume "0 < want"
  have "membuf_double sz w = Some k \<Longrightarrow> sz = 0 \<longrightarrow> w \<le> 0" for sz w k
    by (rule membuf_double.raw_induct [where P = "\<lambda>sz w k. sz = 0 \<longrightarrow> w \<le> 0"]) (auto split: if_splits)
  then show ?thesis using \<open>0 < want\<close> by (metis not_le option.exhaust)
qed

end
