(* ===== verification/Cstring.thy ===== *)
theory Cstring
  imports Prelude
begin

text \<open>
  The string and memory functions of \<open>lib/string.c\<close>, with the character classes of \<open>lib/ctype.c\<close>.
  Memory is a map from addresses to bytes and pointers are addresses; writes return the new memory.
  Loops that run until they meet a NUL are partial: the result None means that they do not end. Sizes
  are unbounded naturals, \<open>unsigned long\<close> has eight bytes, and characters are unsigned, as on ARM.
\<close>

section \<open>Memory and strings\<close>

type_synonym memory = "nat \<Rightarrow> u8"
type_synonym ptr = nat
type_synonym cstr = "u8 list"

text \<open>The C string \<open>s\<close> stands at \<open>p\<close>.\<close>

definition is_cstr :: "memory \<Rightarrow> ptr \<Rightarrow> cstr \<Rightarrow> bool" where
  "is_cstr m p s \<longleftrightarrow> (\<forall>i < length s. m (p + i) = s ! i \<and> s ! i \<noteq> 0) \<and> m (p + length s) = 0"

definition copied :: "memory \<Rightarrow> ptr \<Rightarrow> ptr \<Rightarrow> nat \<Rightarrow> memory" where
  "copied m dest src n = (\<lambda>a. if dest \<le> a \<and> a < dest + n then m (src + (a - dest)) else m a)"

definition filled_with :: "memory \<Rightarrow> ptr \<Rightarrow> u8 \<Rightarrow> nat \<Rightarrow> memory" where
  "filled_with m p c n = (\<lambda>a. if p \<le> a \<and> a < p + n then c else m a)"

text \<open>An allocator that tells where the block is.\<close>

type_synonym heap = "nat \<Rightarrow> ptr option"

section \<open>Character classes\<close>

definition cU :: u8 where "cU = 0x01"
definition cL :: u8 where "cL = 0x02"
definition cD :: u8 where "cD = 0x04"
definition cC :: u8 where "cC = 0x08"
definition cP :: u8 where "cP = 0x10"
definition cS :: u8 where "cS = 0x20"
definition cX :: u8 where "cX = 0x40"
definition cSP :: u8 where "cSP = 0x80"

definition ctype_table :: "u8 list" where
  "ctype_table =
     [cC, cC, cC, cC, cC, cC, cC, cC,
      cC, cC OR cS, cC OR cS, cC OR cS, cC OR cS, cC OR cS, cC, cC] @
     replicate 16 cC @
     [cS OR cSP] @ replicate 15 cP @
     replicate 10 cD @ replicate 6 cP @
     [cP] @ replicate 6 (cU OR cX) @ replicate 20 cU @ replicate 5 cP @
     [cP] @ replicate 6 (cL OR cX) @ replicate 20 cL @ replicate 4 cP @ [cC] @
     replicate 32 0 @
     [cS OR cSP] @ replicate 31 cP @
     replicate 23 cU @ [cP] @ replicate 7 cU @ [cL] @
     replicate 23 cL @ [cP] @ replicate 8 cL"

definition ismask :: "u8 \<Rightarrow> u8" where
  "ismask c = ctype_table ! unat c"

definition isalnum :: "u8 \<Rightarrow> bool" where "isalnum c \<longleftrightarrow> ismask c AND (cU OR cL OR cD) \<noteq> 0"
definition isalpha :: "u8 \<Rightarrow> bool" where "isalpha c \<longleftrightarrow> ismask c AND (cU OR cL) \<noteq> 0"
definition isdigit :: "u8 \<Rightarrow> bool" where "isdigit c \<longleftrightarrow> ismask c AND cD \<noteq> 0"
definition islower :: "u8 \<Rightarrow> bool" where "islower c \<longleftrightarrow> ismask c AND cL \<noteq> 0"
definition isupper :: "u8 \<Rightarrow> bool" where "isupper c \<longleftrightarrow> ismask c AND cU \<noteq> 0"
definition isspace :: "u8 \<Rightarrow> bool" where "isspace c \<longleftrightarrow> ismask c AND cS \<noteq> 0"
definition isxdigit :: "u8 \<Rightarrow> bool" where "isxdigit c \<longleftrightarrow> ismask c AND (cD OR cX) \<noteq> 0"
definition isblank :: "u8 \<Rightarrow> bool" where "isblank c \<longleftrightarrow> c = 32 \<or> c = 9"

definition tolower :: "u8 \<Rightarrow> u8" where
  "tolower c = (if isupper c then c + 32 else c)"

definition toupper :: "u8 \<Rightarrow> u8" where
  "toupper c = (if islower c then c - 32 else c)"

section \<open>Comparing\<close>

text \<open>The last pair of characters that \<open>strncasecmp\<close> looked at; the counter is the remaining length.\<close>

primrec strncasecmp_loop :: "memory \<Rightarrow> nat \<Rightarrow> ptr \<Rightarrow> ptr \<Rightarrow> u8 \<times> u8 \<Rightarrow> u8 \<times> u8" where
  "strncasecmp_loop m 0 s1 s2 c = c"
| "strncasecmp_loop m (Suc len) s1 s2 c =
     (let c1 = m s1; c2 = m s2
      in if c1 = 0 \<or> c2 = 0 then (c1, c2)
         else if c1 = c2 then strncasecmp_loop m len (s1 + 1) (s2 + 1) (c1, c2)
         else if tolower c1 \<noteq> tolower c2 then (tolower c1, tolower c2)
         else strncasecmp_loop m len (s1 + 1) (s2 + 1) (tolower c1, tolower c2))"

definition strncasecmp :: "memory \<Rightarrow> ptr \<Rightarrow> ptr \<Rightarrow> nat \<Rightarrow> int" where
  "strncasecmp m s1 s2 len = (case strncasecmp_loop m len s1 s2 (0, 0) of (c1, c2) \<Rightarrow> uint c1 - uint c2)"

definition strcasecmp :: "memory \<Rightarrow> ptr \<Rightarrow> ptr \<Rightarrow> int" where
  "strcasecmp m s1 s2 = strncasecmp m s1 s2 0xffffffff"

partial_function (option) strcmp :: "memory \<Rightarrow> ptr \<Rightarrow> ptr \<Rightarrow> int option" where
  "strcmp m cs ct =
     (let ret = uint (m cs) - uint (m ct)
      in if ret \<noteq> 0 \<or> m ct = 0 then Some ret else strcmp m (cs + 1) (ct + 1))"

primrec strncmp_loop :: "memory \<Rightarrow> nat \<Rightarrow> ptr \<Rightarrow> ptr \<Rightarrow> int \<Rightarrow> int" where
  "strncmp_loop m 0 cs ct ret = ret"
| "strncmp_loop m (Suc count) cs ct ret =
     (let ret1 = uint (m cs) - uint (m ct)
      in if ret1 \<noteq> 0 \<or> m ct = 0 then ret1 else strncmp_loop m count (cs + 1) (ct + 1) ret1)"

definition strncmp :: "memory \<Rightarrow> ptr \<Rightarrow> ptr \<Rightarrow> nat \<Rightarrow> int" where
  "strncmp m cs ct count = strncmp_loop m count cs ct 0"

primrec memcmp_loop :: "memory \<Rightarrow> nat \<Rightarrow> ptr \<Rightarrow> ptr \<Rightarrow> int \<Rightarrow> int" where
  "memcmp_loop m 0 su1 su2 res = res"
| "memcmp_loop m (Suc count) su1 su2 res =
     (let res1 = uint (m su1) - uint (m su2)
      in if res1 \<noteq> 0 then res1 else memcmp_loop m count (su1 + 1) (su2 + 1) res1)"

definition memcmp :: "memory \<Rightarrow> ptr \<Rightarrow> ptr \<Rightarrow> nat \<Rightarrow> int" where
  "memcmp m cs ct count = memcmp_loop m count cs ct 0"

section \<open>Length and search\<close>

partial_function (option) strlen_loop :: "memory \<Rightarrow> ptr \<Rightarrow> ptr option" where
  "strlen_loop m sc = (if m sc \<noteq> 0 then strlen_loop m (sc + 1) else Some sc)"

definition strlen :: "memory \<Rightarrow> ptr \<Rightarrow> nat option" where
  "strlen m s = map_option (\<lambda>sc. sc - s) (strlen_loop m s)"

primrec strnlen_loop :: "memory \<Rightarrow> nat \<Rightarrow> ptr \<Rightarrow> ptr" where
  "strnlen_loop m 0 sc = sc"
| "strnlen_loop m (Suc count) sc = (if m sc \<noteq> 0 then strnlen_loop m count (sc + 1) else sc)"

definition strnlen :: "memory \<Rightarrow> ptr \<Rightarrow> nat \<Rightarrow> nat" where
  "strnlen m s count = strnlen_loop m count s - s"

text \<open>Searches return an address, or None inside for NULL.\<close>

partial_function (option) strchr :: "memory \<Rightarrow> ptr \<Rightarrow> u8 \<Rightarrow> ptr option option" where
  "strchr m s c =
     (if m s \<noteq> c then if m s = 0 then Some None else strchr m (s + 1) c else Some (Some s))"

partial_function (option) strchrnul :: "memory \<Rightarrow> ptr \<Rightarrow> u8 \<Rightarrow> ptr option" where
  "strchrnul m s c =
     (if m s \<noteq> c then if m s = 0 then Some s else strchrnul m (s + 1) c else Some s)"

text \<open>\<open>strrchr\<close> goes down from the end; \<open>k\<close> is the distance from the start of the string.\<close>

primrec strrchr_loop :: "memory \<Rightarrow> ptr \<Rightarrow> u8 \<Rightarrow> nat \<Rightarrow> ptr option" where
  "strrchr_loop m s c 0 = (if m s = c then Some s else None)"
| "strrchr_loop m s c (Suc k) = (if m (s + Suc k) = c then Some (s + Suc k) else strrchr_loop m s c k)"

definition strrchr :: "memory \<Rightarrow> ptr \<Rightarrow> u8 \<Rightarrow> ptr option option" where
  "strrchr m s c = map_option (strrchr_loop m s c) (strlen m s)"

text \<open>The inner loops of the set searches: whether a character is among those of a string.\<close>

partial_function (option) char_in :: "memory \<Rightarrow> ptr \<Rightarrow> u8 \<Rightarrow> bool option" where
  "char_in m r c = (if m r = 0 then Some False else if c = m r then Some True else char_in m (r + 1) c)"

partial_function (option) strcspn_loop :: "memory \<Rightarrow> ptr \<Rightarrow> ptr \<Rightarrow> nat \<Rightarrow> nat option" where
  "strcspn_loop m p reject count =
     (if m p = 0 then Some count
      else Option.bind (char_in m reject (m p))
        (\<lambda>found. if found then Some count else strcspn_loop m (p + 1) reject (count + 1)))"

definition strcspn :: "memory \<Rightarrow> ptr \<Rightarrow> ptr \<Rightarrow> nat option" where
  "strcspn m s reject = strcspn_loop m s reject 0"

partial_function (option) strspn_loop :: "memory \<Rightarrow> ptr \<Rightarrow> ptr \<Rightarrow> nat \<Rightarrow> nat option" where
  "strspn_loop m p accept count =
     (if m p = 0 then Some count
      else Option.bind (char_in m accept (m p))
        (\<lambda>found. if found then strspn_loop m (p + 1) accept (count + 1) else Some count))"

definition strspn :: "memory \<Rightarrow> ptr \<Rightarrow> ptr \<Rightarrow> nat option" where
  "strspn m s accept = strspn_loop m s accept 0"

partial_function (option) strpbrk :: "memory \<Rightarrow> ptr \<Rightarrow> ptr \<Rightarrow> ptr option option" where
  "strpbrk m cs ct =
     (if m cs = 0 then Some None
      else Option.bind (char_in m ct (m cs))
        (\<lambda>found. if found then Some (Some cs) else strpbrk m (cs + 1) ct))"

primrec memscan :: "memory \<Rightarrow> ptr \<Rightarrow> u8 \<Rightarrow> nat \<Rightarrow> ptr" where
  "memscan m p c 0 = p"
| "memscan m p c (Suc n) = (if m p = c then p else memscan m (p + 1) c n)"

primrec memchr :: "memory \<Rightarrow> ptr \<Rightarrow> u8 \<Rightarrow> nat \<Rightarrow> ptr option" where
  "memchr m p c 0 = None"
| "memchr m p c (Suc n) = (if c = m p then Some p else memchr m (p + 1) c n)"

function strnstr_loop :: "memory \<Rightarrow> ptr \<Rightarrow> ptr \<Rightarrow> nat \<Rightarrow> nat \<Rightarrow> ptr option" where
  "strnstr_loop m s1 s2 l1 l2 =
     (if l1 \<ge> l2 then
        if memcmp m s1 s2 l2 = 0 then Some s1
        else if l1 = 0 then None
        else strnstr_loop m (s1 + 1) s2 (l1 - 1) l2
      else None)"
  by pat_completeness auto
termination
  by (relation "measure (\<lambda>(m, s1, s2, l1, l2). l1)") auto

definition strnstr :: "memory \<Rightarrow> ptr \<Rightarrow> ptr \<Rightarrow> nat \<Rightarrow> ptr option option" where
  "strnstr m s1 s2 len =
     (let l1 = strnlen m s1 len
      in map_option (\<lambda>l2. strnstr_loop m s1 s2 l1 l2) (strlen m s2))"

definition strstr :: "memory \<Rightarrow> ptr \<Rightarrow> ptr \<Rightarrow> ptr option option" where
  "strstr m s1 s2 = strnstr m s1 s2 (2 ^ 64 - 1)"

primrec check_bytes8 :: "memory \<Rightarrow> ptr \<Rightarrow> u8 \<Rightarrow> nat \<Rightarrow> ptr option" where
  "check_bytes8 m start value 0 = None"
| "check_bytes8 m start value (Suc n) =
     (if m start \<noteq> value then Some start else check_bytes8 m (start + 1) value n)"

text \<open>
  \<open>memchr_inv\<close> compares aligned words of eight bytes with the byte repeated eight times. A word is
  the list of its bytes here.
\<close>

definition load64 :: "memory \<Rightarrow> ptr \<Rightarrow> u8 list" where
  "load64 m p = map (\<lambda>i. m (p + i)) [0..<8]"

primrec memchr_inv_words :: "memory \<Rightarrow> nat \<Rightarrow> ptr \<Rightarrow> u8 \<Rightarrow> ptr option + ptr" where
  "memchr_inv_words m 0 start value = Inr start"
| "memchr_inv_words m (Suc words) start value =
     (if load64 m start \<noteq> replicate 8 value then Inl (check_bytes8 m start value 8)
      else memchr_inv_words m words (start + 8) value)"

definition memchr_inv :: "memory \<Rightarrow> ptr \<Rightarrow> u8 \<Rightarrow> nat \<Rightarrow> ptr option" where
  "memchr_inv m start value bytes =
     (if bytes \<le> 16 then check_bytes8 m start value bytes
      else
        let prefix0 = start mod 8;
            prefix = (if prefix0 \<noteq> 0 then 8 - prefix0 else 0);
            bytes1 = bytes - prefix;
            rest = (case memchr_inv_words m (bytes1 div 8) (start + prefix) value of
                      Inl r \<Rightarrow> r
                    | Inr start1 \<Rightarrow> check_bytes8 m start1 value (bytes1 mod 8))
        in if prefix0 \<noteq> 0 then
             (case check_bytes8 m start value prefix of Some r \<Rightarrow> Some r | None \<Rightarrow> rest)
           else rest)"

section \<open>Copying\<close>

definition store_word :: "memory \<Rightarrow> ptr \<Rightarrow> (nat \<Rightarrow> u8) \<Rightarrow> memory" where
  "store_word m p v = (\<lambda>a. if p \<le> a \<and> a < p + 8 then v (a - p) else m a)"

fun memset_words :: "memory \<Rightarrow> ptr \<Rightarrow> u8 \<Rightarrow> nat \<Rightarrow> memory \<times> ptr \<times> nat" where
  "memset_words m sl c count =
     (if count \<ge> 8 then memset_words (store_word m sl (\<lambda>_. c)) (sl + 8) c (count - 8)
      else (m, sl, count))"

primrec memset_bytes :: "nat \<Rightarrow> memory \<Rightarrow> ptr \<Rightarrow> u8 \<Rightarrow> memory" where
  "memset_bytes 0 m s8 c = m"
| "memset_bytes (Suc count) m s8 c = memset_bytes count (m(s8 := c)) (s8 + 1) c"

definition memset :: "memory \<Rightarrow> ptr \<Rightarrow> u8 \<Rightarrow> nat \<Rightarrow> memory" where
  "memset m s c count =
     (case (if s mod 8 = 0 then memset_words m s c count else (m, s, count)) of
        (m1, s8, count1) \<Rightarrow> memset_bytes count1 m1 s8 c)"

fun memcpy_words :: "memory \<Rightarrow> ptr \<Rightarrow> ptr \<Rightarrow> nat \<Rightarrow> memory \<times> ptr \<times> ptr \<times> nat" where
  "memcpy_words m dl sl count =
     (if count \<ge> 8 then memcpy_words (store_word m dl (\<lambda>i. m (sl + i))) (dl + 8) (sl + 8) (count - 8)
      else (m, dl, sl, count))"

primrec memcpy_bytes :: "nat \<Rightarrow> memory \<Rightarrow> ptr \<Rightarrow> ptr \<Rightarrow> memory" where
  "memcpy_bytes 0 m d8 s8 = m"
| "memcpy_bytes (Suc count) m d8 s8 = memcpy_bytes count (m(d8 := m s8)) (d8 + 1) (s8 + 1)"

definition memcpy :: "memory \<Rightarrow> ptr \<Rightarrow> ptr \<Rightarrow> nat \<Rightarrow> memory" where
  "memcpy m dest src count =
     (if src = dest then m
      else case (if dest mod 8 = 0 \<and> src mod 8 = 0 then memcpy_words m dest src count else (m, dest, src, count)) of
        (m1, d8, s8, count1) \<Rightarrow> memcpy_bytes count1 m1 d8 s8)"

text \<open>The downward copy of \<open>memmove\<close>.\<close>

primrec memmove_down :: "nat \<Rightarrow> memory \<Rightarrow> ptr \<Rightarrow> ptr \<Rightarrow> memory" where
  "memmove_down 0 m dest src = m"
| "memmove_down (Suc count) m dest src = memmove_down count (m(dest + count := m (src + count))) dest src"

definition memmove :: "memory \<Rightarrow> ptr \<Rightarrow> ptr \<Rightarrow> nat \<Rightarrow> memory" where
  "memmove m dest src count =
     (if dest \<le> src \<or> src + count \<le> dest then memcpy m dest src count
      else memmove_down count m dest src)"

partial_function (option) strcpy :: "memory \<Rightarrow> ptr \<Rightarrow> ptr \<Rightarrow> memory option" where
  "strcpy m dest src =
     (if m src \<noteq> 0 then strcpy (m(dest := m src)) (dest + 1) (src + 1) else Some (m(dest := m src)))"

primrec strncpy :: "nat \<Rightarrow> memory \<Rightarrow> ptr \<Rightarrow> ptr \<Rightarrow> memory" where
  "strncpy 0 m dest src = m"
| "strncpy (Suc count) m dest src =
     (let m1 = m(dest := m src) in if m src \<noteq> 0 then strncpy count m1 (dest + 1) (src + 1) else m1)"

definition strlcpy :: "memory \<Rightarrow> ptr \<Rightarrow> ptr \<Rightarrow> nat \<Rightarrow> (nat \<times> memory) option" where
  "strlcpy m dest src sz =
     map_option (\<lambda>ret.
       (ret,
        if sz \<noteq> 0 then
          let len = (if ret \<ge> sz then sz - 1 else ret)
          in (memcpy m dest src len)(dest + len := 0)
        else m)) (strlen m src)"

definition strcat :: "memory \<Rightarrow> ptr \<Rightarrow> ptr \<Rightarrow> memory option" where
  "strcat m dest src = Option.bind (strlen_loop m dest) (\<lambda>d. strcpy m d src)"

text \<open>The copy loop of \<open>strncat\<close> with \<open>count + 1\<close> characters allowed.\<close>

primrec strncat_loop :: "nat \<Rightarrow> memory \<Rightarrow> ptr \<Rightarrow> ptr \<Rightarrow> memory" where
  "strncat_loop 0 m dest src =
     (let m1 = m(dest := m src) in if m src \<noteq> 0 then m1(dest + 1 := 0) else m1)"
| "strncat_loop (Suc count) m dest src =
     (let m1 = m(dest := m src) in if m src \<noteq> 0 then strncat_loop count m1 (dest + 1) (src + 1) else m1)"

definition strncat :: "memory \<Rightarrow> ptr \<Rightarrow> ptr \<Rightarrow> nat \<Rightarrow> memory option" where
  "strncat m dest src count =
     (if count \<noteq> 0 then map_option (\<lambda>d. strncat_loop (count - 1) m d src) (strlen_loop m dest) else Some m)"

definition strlcat :: "memory \<Rightarrow> ptr \<Rightarrow> ptr \<Rightarrow> nat \<Rightarrow> (nat \<times> memory) option" where
  "strlcat m dest src sz =
     (let len = strnlen m dest sz
      in map_option (\<lambda>(n, m1). (len + n, m1)) (strlcpy m (dest + len) src (sz - len)))"

section \<open>Copies from the heap\<close>

definition strdup :: "heap \<Rightarrow> memory \<Rightarrow> ptr option \<Rightarrow> (ptr option \<times> memory) option" where
  "strdup malloc m s =
     (case s of
        None \<Rightarrow> Some (None, m)
      | Some p \<Rightarrow>
          Option.bind (strlen m p) (\<lambda>len.
            case malloc (len + 1) of
              None \<Rightarrow> Some (None, m)
            | Some new \<Rightarrow> map_option (\<lambda>m1. (Some new, m1)) (strcpy m new p)))"

definition strndup :: "heap \<Rightarrow> memory \<Rightarrow> ptr option \<Rightarrow> nat \<Rightarrow> (ptr option \<times> memory) option" where
  "strndup malloc m s n =
     (case s of
        None \<Rightarrow> Some (None, m)
      | Some p \<Rightarrow>
          map_option (\<lambda>len0.
            let len = (if n < len0 then n else len0)
            in case malloc (len + 1) of
                 None \<Rightarrow> (None, m)
               | Some new \<Rightarrow> (Some new, (strncpy len m new p)(new + len := 0))) (strlen m p))"

definition memdup :: "heap \<Rightarrow> memory \<Rightarrow> ptr \<Rightarrow> nat \<Rightarrow> ptr option \<times> memory" where
  "memdup malloc m src len =
     (case malloc len of None \<Rightarrow> (None, m) | Some p \<Rightarrow> (Some p, memcpy m p src len))"

section \<open>Splitting\<close>

text \<open>\<open>strtok\<close> keeps its place in a static variable, which is passed and returned (None is NULL).\<close>

definition strtok ::
  "memory \<Rightarrow> ptr option \<Rightarrow> ptr option \<Rightarrow> ptr \<Rightarrow> (ptr option \<times> ptr option \<times> memory) option" where
  "strtok m saved s ct =
     (case (case s of Some p \<Rightarrow> Some p | None \<Rightarrow> saved) of
        None \<Rightarrow> Some (None, saved, m)
      | Some start \<Rightarrow>
          Option.bind (strspn m start ct) (\<lambda>n.
            let sbegin = start + n
            in if m sbegin = 0 then Some (None, None, m)
               else map_option (\<lambda>send.
                 case send of
                   Some p \<Rightarrow> if m p \<noteq> 0 then (Some sbegin, Some (p + 1), m(p := 0)) else (Some sbegin, Some p, m)
                 | None \<Rightarrow> (Some sbegin, None, m)) (strpbrk m sbegin ct)))"

definition strsep :: "memory \<Rightarrow> ptr option \<Rightarrow> ptr \<Rightarrow> (ptr option \<times> ptr option \<times> memory) option" where
  "strsep m s ct =
     (case s of
        None \<Rightarrow> Some (None, None, m)
      | Some sbegin \<Rightarrow>
          map_option (\<lambda>e.
            case e of
              Some p \<Rightarrow> (Some sbegin, Some (p + 1), m(p := 0))
            | None \<Rightarrow> (Some sbegin, None, m)) (strpbrk m sbegin ct))"

partial_function (option) strswab_loop :: "memory \<Rightarrow> ptr \<Rightarrow> memory option" where
  "strswab_loop m p =
     (if m p \<noteq> 0 \<and> m (p + 1) \<noteq> 0
      then strswab_loop (m(p := m (p + 1), p + 1 := m p)) (p + 2) else Some m)"

definition strswab :: "memory \<Rightarrow> ptr option \<Rightarrow> (ptr option \<times> memory) option" where
  "strswab m s =
     (case s of
        None \<Rightarrow> Some (None, m)
      | Some p \<Rightarrow> if m p = 0 then Some (None, m) else map_option (\<lambda>m1. (Some p, m1)) (strswab_loop m p))"

declare memset_words.simps [simp del] memcpy_words.simps [simp del] strnstr_loop.simps [simp del]

end
