(* ===== verification/Cstring_Props.thy ===== *)
theory Cstring_Props
  imports Cstring
begin

text \<open>
  What the string functions compute on C strings, and that the word-at-a-time and overlapping copies
  are plain copies.
\<close>

section \<open>Copies\<close>

text \<open>A forward copy is right when the destination is not above the source or they do not overlap.\<close>

definition forward_ok :: "ptr \<Rightarrow> ptr \<Rightarrow> nat \<Rightarrow> bool" where
  "forward_ok d s n \<longleftrightarrow> d \<le> s \<or> s + n \<le> d"

lemma copied_0 [simp]: "copied m d s 0 = m"
  by (auto simp: copied_def fun_eq_iff)

lemma copied_same [simp]: "copied m d d n = m"
  by (auto simp: copied_def fun_eq_iff)

lemma copied_compose:
  assumes "forward_ok d s (a + b)"
  shows "copied (copied m d s a) (d + a) (s + a) b = copied m d s (a + b)"
proof
  fix x
  consider "x < d" | "d \<le> x" "x < d + a" | "d + a \<le> x" "x < d + a + b" | "d + a + b \<le> x" by linarith
  then show "copied (copied m d s a) (d + a) (s + a) b x = copied m d s (a + b) x"
  proof cases
    case 3
    then have "s + a + (x - (d + a)) = s + (x - d)" by simp
    moreover have "\<not> (d \<le> s + (x - d) \<and> s + (x - d) < d + a)"
      using 3 assms by (auto simp: forward_ok_def)
    ultimately show ?thesis using 3 by (auto simp: copied_def)
  qed (auto simp: copied_def)
qed

lemma store_word_copied: "store_word m d (\<lambda>i. m (s + i)) = copied m d s 8"
  by (auto simp: store_word_def copied_def fun_eq_iff)

lemma memcpy_bytes_copied: "forward_ok d s n \<Longrightarrow> memcpy_bytes n m d s = copied m d s n"
proof (induction n arbitrary: m d s)
  case (Suc n)
  have "m(d := m s) = copied m d s 1" by (auto simp: copied_def fun_eq_iff)
  then have "memcpy_bytes (Suc n) m d s = copied (copied m d s 1) (d + 1) (s + 1) n"
    using Suc.IH [of "d + 1" "s + 1"] Suc.prems by (auto simp: forward_ok_def)
  then show ?case using copied_compose [of d s 1 n m] Suc.prems by simp
qed simp

lemma memcpy_words_copied:
  assumes "forward_ok d s n"
  shows "\<exists>k \<le> n. memcpy_words m d s n = (copied m d s k, d + k, s + k, n - k)"
  using assms
proof (induction m d s n rule: memcpy_words.induct)
  case (1 m d s n)
  show ?case
  proof (cases "8 \<le> n")
    case True
    have f: "forward_ok (d + 8) (s + 8) (n - 8)" using "1.prems" True by (auto simp: forward_ok_def)
    obtain k where k: "k \<le> n - 8" "memcpy_words (store_word m d (\<lambda>i. m (s + i))) (d + 8) (s + 8) (n - 8) =
        (copied (store_word m d (\<lambda>i. m (s + i))) (d + 8) (s + 8) k, d + 8 + k, s + 8 + k, n - 8 - k)"
      using "1.IH" [OF True f] by blast
    have "forward_ok d s (8 + k)" using "1.prems" k(1) True by (auto simp: forward_ok_def)
    then have "memcpy_words m d s n = (copied m d s (8 + k), d + (8 + k), s + (8 + k), n - (8 + k))"
      using k True copied_compose [of d s 8 k m]
      by (subst memcpy_words.simps) (simp add: store_word_copied add.assoc)
    then show ?thesis using k(1) True by (intro exI [of _ "8 + k"]) simp
  next
    case False
    then show ?thesis by (intro exI [of _ 0]) (simp add: memcpy_words.simps)
  qed
qed

lemma memcpy_copied:
  assumes "forward_ok d s n"
  shows "memcpy m d s n = copied m d s n"
proof (cases "s = d")
  case False
  show ?thesis
  proof (cases "d mod 8 = 0 \<and> s mod 8 = 0")
    case True
    obtain k where k: "k \<le> n" "memcpy_words m d s n = (copied m d s k, d + k, s + k, n - k)"
      using memcpy_words_copied [OF assms] by blast
    have "forward_ok (d + k) (s + k) (n - k)" using assms k(1) by (auto simp: forward_ok_def)
    then have "memcpy m d s n = copied (copied m d s k) (d + k) (s + k) (n - k)"
      using True False k(2) by (simp add: memcpy_def memcpy_bytes_copied)
    then show ?thesis using copied_compose [of d s k "n - k" m] assms k(1) by simp
  next
    case aligned: False
    then have "memcpy m d s n = memcpy_bytes n m d s" using False by (auto simp: memcpy_def)
    then show ?thesis by (simp add: memcpy_bytes_copied [OF assms])
  qed
qed (simp add: memcpy_def)

lemma memmove_down_copied: "s \<le> d \<Longrightarrow> memmove_down n m d s = copied m d s n"
proof (induction n arbitrary: m)
  case (Suc n)
  then have "memmove_down (Suc n) m d s = copied (m(d + n := m (s + n))) d s n" by simp
  also have "\<dots> = copied m d s (Suc n)"
  proof
    fix x
    show "copied (m(d + n := m (s + n))) d s n x = copied m d s (Suc n) x"
      using Suc.prems by (cases "x = d + n") (auto simp: copied_def less_Suc_eq)
  qed
  finally show ?case .
qed simp

lemma memmove_copied: "memmove m dest src count = copied m dest src count"
proof (cases "dest \<le> src \<or> src + count \<le> dest")
  case True
  then show ?thesis by (simp add: memmove_def memcpy_copied forward_ok_def)
next
  case False
  then show ?thesis by (simp add: memmove_def memmove_down_copied)
qed

lemma filled_compose:
  "filled_with (filled_with m p c a) (p + a) c b = filled_with m p c (a + b)"
  by (auto simp: filled_with_def fun_eq_iff)

lemma memset_bytes_filled: "memset_bytes n m p c = filled_with m p c n"
proof (induction n arbitrary: m p)
  case 0
  then show ?case by (auto simp: filled_with_def fun_eq_iff)
next
  case (Suc n)
  have "m(p := c) = filled_with m p c 1" by (auto simp: filled_with_def fun_eq_iff)
  then show ?case using Suc filled_compose [of m p c 1 n] by simp
qed

lemma memset_words_filled:
  "\<exists>k \<le> n. memset_words m p c n = (filled_with m p c k, p + k, n - k)"
proof (induction m p c n rule: memset_words.induct)
  case (1 m p c n)
  show ?case
  proof (cases "8 \<le> n")
    case True
    have st: "store_word m p (\<lambda>_. c) = filled_with m p c 8"
      by (auto simp: store_word_def filled_with_def fun_eq_iff)
    obtain k where k: "k \<le> n - 8" "memset_words (store_word m p (\<lambda>_. c)) (p + 8) c (n - 8) =
        (filled_with (store_word m p (\<lambda>_. c)) (p + 8) c k, p + 8 + k, n - 8 - k)"
      using 1 [OF True] by blast
    have "memset_words m p c n = (filled_with m p c (8 + k), p + (8 + k), n - (8 + k))"
      using k True filled_compose [of m p c 8 k] by (subst memset_words.simps) (simp add: st add.assoc)
    then show ?thesis using k(1) True by (intro exI [of _ "8 + k"]) simp
  next
    case False
    moreover have "filled_with m p c 0 = m" by (auto simp: filled_with_def fun_eq_iff)
    ultimately show ?thesis by (intro exI [of _ 0]) (simp add: memset_words.simps)
  qed
qed

lemma memset_filled: "memset m p c n = filled_with m p c n"
proof (cases "p mod 8 = 0")
  case True
  obtain k where "k \<le> n" "memset_words m p c n = (filled_with m p c k, p + k, n - k)"
    using memset_words_filled by blast
  then show ?thesis
    using True filled_compose [of m p c k "n - k"] by (simp add: memset_def memset_bytes_filled)
qed (simp add: memset_def memset_bytes_filled)

section \<open>Strings\<close>

lemma is_cstr_Nil [simp]: "is_cstr m p [] \<longleftrightarrow> m p = 0"
  by (simp add: is_cstr_def)

lemma is_cstr_Cons [simp]: "is_cstr m p (c # s) \<longleftrightarrow> m p = c \<and> c \<noteq> 0 \<and> is_cstr m (p + 1) s"
  by (auto simp: is_cstr_def All_less_Suc2)

lemma is_cstr_cong:
  "is_cstr m p s \<Longrightarrow> (\<And>i. i \<le> length s \<Longrightarrow> m' (p + i) = m (p + i)) \<Longrightarrow> is_cstr m' p s"
  by (auto simp: is_cstr_def)

lemma strlen_loop_cstr: "is_cstr m p s \<Longrightarrow> strlen_loop m p = Some (p + length s)"
  by (induction s arbitrary: p) (subst strlen_loop.simps, simp)+

lemma strlen_cstr: "is_cstr m p s \<Longrightarrow> strlen m p = Some (length s)"
  by (simp add: strlen_def strlen_loop_cstr)

lemma strnlen_loop_cstr: "is_cstr m p s \<Longrightarrow> strnlen_loop m n p = p + min (length s) n"
proof (induction n arbitrary: p s)
  case (Suc n)
  then show ?case by (cases s) auto
qed simp

lemma strnlen_cstr: "is_cstr m p s \<Longrightarrow> strnlen m p n = min (length s) n"
  by (simp add: strnlen_def strnlen_loop_cstr)

text \<open>The result of comparing two strings.\<close>

fun str_compare :: "cstr \<Rightarrow> cstr \<Rightarrow> int" where
  "str_compare [] [] = 0"
| "str_compare [] (b # t) = - uint b"
| "str_compare (a # s) [] = uint a"
| "str_compare (a # s) (b # t) = (if a = b then str_compare s t else uint a - uint b)"

lemma strcmp_cstr: "is_cstr m p s \<Longrightarrow> is_cstr m q t \<Longrightarrow> strcmp m p q = Some (str_compare s t)"
proof (induction s t arbitrary: p q rule: str_compare.induct)
  case (4 a s b t)
  then show ?case by (subst strcmp.simps) (auto simp: Let_def word_uint_eq_iff [symmetric])
qed (subst strcmp.simps, simp add: Let_def uint_0_iff)+

lemma str_compare_eq_0:
  "0 \<notin> set s \<Longrightarrow> 0 \<notin> set t \<Longrightarrow> str_compare s t = 0 \<longleftrightarrow> s = t"
  by (induction s t rule: str_compare.induct) (auto simp: uint_0_iff word_uint_eq_iff [symmetric])

lemma is_cstr_no_nul: "is_cstr m p s \<Longrightarrow> 0 \<notin> set s"
  by (induction s arbitrary: p) auto

text \<open>The sign of the comparison is the order of the strings as sequences of bytes.\<close>

lemma str_compare_less:
  "0 \<notin> set s \<Longrightarrow> 0 \<notin> set t \<Longrightarrow> str_compare s t < 0 \<longleftrightarrow> (s, t) \<in> lexord {(a, b). a < b}"
proof (induction s t rule: str_compare.induct)
  case (2 b t)
  then have "uint b \<noteq> 0" by (auto simp: uint_0_iff)
  then show ?case by (simp add: order_less_le)
next
  case (3 a s)
  then show ?case using uint_ge_0 [of a] by simp
next
  case (4 a s b t)
  then show ?case by (auto simp: word_less_def)
qed simp

section \<open>Searching\<close>

lemma memcmp_loop_0: "memcmp_loop m n p q 0 = 0 \<longleftrightarrow> (\<forall>i < n. m (p + i) = m (q + i))"
  by (induction n arbitrary: p q) (auto simp: Let_def All_less_Suc2 word_uint_eq_iff [symmetric])

text \<open>Where a string occurs first in another.\<close>

definition occurs_at :: "cstr \<Rightarrow> cstr \<Rightarrow> nat \<Rightarrow> bool" where
  "occurs_at s t k \<longleftrightarrow> k + length t \<le> length s \<and> take (length t) (drop k s) = t"

lemma is_cstr_nth: "is_cstr m p s \<Longrightarrow> i < length s \<Longrightarrow> m (p + i) = s ! i"
  by (simp add: is_cstr_def)

lemma memcmp_cstr:
  assumes "is_cstr m p s" and "is_cstr m q t" and "length t \<le> length s"
  shows "memcmp m p q (length t) = 0 \<longleftrightarrow> occurs_at s t 0"
proof -
  have "memcmp m p q (length t) = 0 \<longleftrightarrow> (\<forall>i < length t. s ! i = t ! i)"
    unfolding memcmp_def memcmp_loop_0 using assms by (auto simp: is_cstr_nth)
  then show ?thesis using assms(3) by (auto simp: occurs_at_def list_eq_iff_nth_eq)
qed

lemma occurs_at_Suc [simp]: "occurs_at (c # s) t (Suc k) \<longleftrightarrow> occurs_at s t k"
  by (simp add: occurs_at_def)

lemma strnstr_loop_first:
  assumes "is_cstr m p s" and "is_cstr m q t"
  shows "case strnstr_loop m p q (length s) (length t) of
      None \<Rightarrow> \<forall>k. \<not> occurs_at s t k
    | Some r \<Rightarrow> \<exists>k. r = p + k \<and> occurs_at s t k \<and> (\<forall>j < k. \<not> occurs_at s t j)"
  using assms(1)
proof (induction s arbitrary: p)
  case Nil
  then show ?case using memcmp_cstr [OF _ assms(2), of p "[]"]
    by (subst strnstr_loop.simps) (auto simp: occurs_at_def memcmp_def)
next
  case (Cons c s)
  let ?r = "strnstr_loop m p q (length (c # s)) (length t)"
  consider "length (c # s) < length t" | "length t \<le> length (c # s)" "occurs_at (c # s) t 0"
    | "length t \<le> length (c # s)" "\<not> occurs_at (c # s) t 0" by linarith
  then show ?case
  proof cases
    case 1
    then show ?thesis by (subst strnstr_loop.simps) (auto simp: occurs_at_def)
  next
    case 2
    then have "?r = Some p" using memcmp_cstr [OF Cons.prems assms(2)] by (subst strnstr_loop.simps) simp
    then show ?thesis using 2 by (auto intro: exI [of _ 0])
  next
    case 3
    then have r: "?r = strnstr_loop m (p + 1) q (length s) (length t)"
      using memcmp_cstr [OF Cons.prems assms(2)] by (subst strnstr_loop.simps) simp
    have all: "(\<forall>k. \<not> occurs_at s t k) \<longrightarrow> (\<forall>k. \<not> occurs_at (c # s) t k)"
      using 3(2) by (metis not0_implies_Suc occurs_at_Suc)
    have "\<exists>k'. p + 1 + k = p + k' \<and> occurs_at (c # s) t k' \<and> (\<forall>j < k'. \<not> occurs_at (c # s) t j)"
      if "occurs_at s t k" "\<forall>j < k. \<not> occurs_at s t j" for k
      using that 3(2) by (intro exI [of _ "Suc k"]) (auto simp: All_less_Suc2)
    then show ?thesis using Cons.IH [of "p + 1"] Cons.prems all unfolding r by (auto split: option.splits)
  qed
qed

lemma char_in_cstr: "is_cstr m r t \<Longrightarrow> char_in m r c = Some (c \<in> set t)"
  by (induction t arbitrary: r) (subst char_in.simps, auto)+

lemma strspn_loop_cstr:
  "is_cstr m p s \<Longrightarrow> is_cstr m a t \<Longrightarrow>
   strspn_loop m p a n = Some (n + length (takeWhile (\<lambda>c. c \<in> set t) s))"
  by (induction s arbitrary: p n) (subst strspn_loop.simps, simp add: char_in_cstr)+

lemma strcspn_loop_cstr:
  "is_cstr m p s \<Longrightarrow> is_cstr m a t \<Longrightarrow>
   strcspn_loop m p a n = Some (n + length (takeWhile (\<lambda>c. c \<notin> set t) s))"
  by (induction s arbitrary: p n) (subst strcspn_loop.simps, simp add: char_in_cstr)+

lemma strpbrk_cstr:
  "is_cstr m p s \<Longrightarrow> is_cstr m a t \<Longrightarrow>
   strpbrk m p a = Some (if \<exists>c \<in> set s. c \<in> set t
     then Some (p + length (takeWhile (\<lambda>c. c \<notin> set t) s)) else None)"
  by (induction s arbitrary: p) (subst strpbrk.simps, simp add: char_in_cstr)+

lemma check_bytes8_eq:
  "check_bytes8 m p v n = (if \<forall>i < n. m (p + i) = v then None else Some (p + (LEAST i. m (p + i) \<noteq> v)))"
proof (induction n arbitrary: p)
  case (Suc n)
  show ?case
  proof (cases "m p = v")
    case True
    have "(LEAST i. m (p + i) \<noteq> v) = Suc (LEAST i. m (p + 1 + i) \<noteq> v)" if bad: "\<not> (\<forall>i < n. m (p + 1 + i) = v)"
    proof -
      obtain i where "m (p + Suc i) \<noteq> v" using bad by auto
      then show ?thesis using Least_Suc [of "\<lambda>i. m (p + i) \<noteq> v" "Suc i"] True by simp
    qed
    then show ?thesis using Suc.IH [of "p + 1"] True by (auto simp: All_less_Suc2)
  next
    case False
    then have "(LEAST i. m (p + i) \<noteq> v) = 0" by (intro Least_eq_0) simp
    then show ?thesis using False by auto
  qed
qed simp

lemma check_bytes8_append:
  "check_bytes8 m p v (a + b) =
     (case check_bytes8 m p v a of Some r \<Rightarrow> Some r | None \<Rightarrow> check_bytes8 m (p + a) v b)"
  by (induction a arbitrary: p) (auto split: option.split)

lemma check_bytes8_word: "load64 m p \<noteq> replicate 8 v \<longleftrightarrow> check_bytes8 m p v 8 \<noteq> None"
proof -
  have "load64 m p = replicate 8 v \<longleftrightarrow> (\<forall>i < 8. m (p + i) = v)"
    by (auto simp: load64_def list_eq_iff_nth_eq)
  then show ?thesis by (auto simp: check_bytes8_eq)
qed

lemma memchr_inv_words_eq:
  "check_bytes8 m p v (w * 8 + n) =
     (case memchr_inv_words m w p v of Inl r \<Rightarrow> r | Inr q \<Rightarrow> check_bytes8 m q v n)"
proof (induction w arbitrary: p)
  case (Suc w)
  have "check_bytes8 m p v (Suc w * 8 + n) =
      (case check_bytes8 m p v 8 of Some r \<Rightarrow> Some r | None \<Rightarrow> check_bytes8 m (p + 8) v (w * 8 + n))"
    using check_bytes8_append [of m p v 8 "w * 8 + n"] by (simp add: add.assoc)
  then show ?case using Suc.IH [of "p + 8"] check_bytes8_word [of m p v] by (auto split: option.splits)
qed simp

section \<open>Properties\<close>

text \<open>
  C18. \<open>memmove\<close> copies the source area as it was before, whether or not the areas overlap, whichever
  way they overlap and however they are aligned, and changes nothing else. The fast \<open>memcpy\<close> it
  falls back on does the same when it is used forwards.
\<close>

theorem memmove_correct:
  "memmove m dest src count = (\<lambda>a. if dest \<le> a \<and> a < dest + count then m (src + (a - dest)) else m a) \<and>
   (dest \<le> src \<or> src + count \<le> dest \<longrightarrow> memcpy m dest src count = memmove m dest src count)"
  using memmove_copied [of m dest src count] memcpy_copied [of dest src count m]
  by (auto simp: copied_def forward_ok_def)

theorem memmove_correct_witness:
  "memmove (\<lambda>a. of_nat a) 16 8 12 20 = 12 \<and> memcpy (\<lambda>a. of_nat a) 8 16 12 10 = 18"
  using memmove_correct [of "\<lambda>a. of_nat a" 16 8 12] memmove_correct [of "\<lambda>a. of_nat a" 8 16 12] by simp

text \<open>
  \<open>strcmp\<close> returns on any two C strings, with 0 exactly when they are equal and a negative number
  exactly when the first comes before the second in the order of sequences of unsigned bytes.
\<close>

theorem strcmp_correct:
  assumes "is_cstr m p s" and "is_cstr m q t"
  shows "\<exists>r. strcmp m p q = Some r \<and> (r = 0 \<longleftrightarrow> s = t) \<and> (r < 0 \<longleftrightarrow> (s, t) \<in> lexord {(a, b). a < b})"
  using strcmp_cstr [OF assms] str_compare_eq_0 str_compare_less is_cstr_no_nul [OF assms(1)] is_cstr_no_nul [OF assms(2)]
  by auto

definition demo_mem :: memory where
  "demo_mem = (\<lambda>a. if a < 13 then [97, 98, 99, 98, 99, 0, 98, 99, 0, 97, 98, 120, 0] ! a else 0)"

lemma demo_mem_strings: "is_cstr demo_mem 0 [97, 98, 99, 98, 99]" "is_cstr demo_mem 6 [98, 99]" "is_cstr demo_mem 9 [97, 98, 120]"
  by (simp_all add: demo_mem_def)

theorem strcmp_correct_witness: "\<exists>r < 0. strcmp demo_mem 0 9 = Some r"
  using strcmp_correct [OF demo_mem_strings(1,3)] by auto

text \<open>
  C34. \<open>strlcpy\<close> into a buffer that does not overlap the source: the buffer then holds the longest
  prefix of the source that fits with its terminator, nothing outside the buffer is written, and the
  result is the length of the source.
\<close>

theorem strlcpy_correct:
  assumes "is_cstr m src s" and "sz \<noteq> 0" and "dest + sz \<le> src \<or> src + length s < dest"
  shows "\<exists>m1. strlcpy m dest src sz = Some (length s, m1) \<and> is_cstr m1 dest (take (sz - 1) s) \<and>
    (\<forall>a. a < dest \<or> dest + sz \<le> a \<longrightarrow> m1 a = m a)"
proof -
  let ?len = "if length s \<ge> sz then sz - 1 else length s"
  have f: "forward_ok dest src ?len" using assms(2,3) by (auto simp: forward_ok_def)
  let ?m1 = "(copied m dest src ?len)(dest + ?len := 0)"
  have "strlcpy m dest src sz = Some (length s, ?m1)"
    using strlen_cstr [OF assms(1)] assms(2) memcpy_copied [OF f] by (simp add: strlcpy_def Let_def)
  moreover have l: "length (take (sz - 1) s) = ?len" using assms(2) by auto
  have "is_cstr ?m1 dest (take (sz - 1) s)"
    unfolding is_cstr_def l using assms(1) by (auto simp: copied_def is_cstr_def)
  moreover have "\<forall>a. a < dest \<or> dest + sz \<le> a \<longrightarrow> ?m1 a = m a" using assms(2) by (auto simp: copied_def)
  ultimately show ?thesis by blast
qed

theorem strlcpy_correct_witness:
  "\<exists>m1. strlcpy demo_mem 20 0 4 = Some (5, m1) \<and> is_cstr m1 20 [97, 98, 99] \<and> m1 24 = demo_mem 24"
  using strlcpy_correct [OF demo_mem_strings(1), of 4 20] by auto

text \<open>
  \<open>strstr\<close> returns on C strings: the address of the first occurrence of the second string in the
  first, or NULL when there is none.
\<close>

theorem strstr_correct:
  assumes "is_cstr m p s" and "is_cstr m q t" and "length s < 2 ^ 64"
  shows "\<exists>r. strstr m p q = Some r \<and>
    (case r of None \<Rightarrow> \<forall>k. \<not> occurs_at s t k
     | Some a \<Rightarrow> \<exists>k. a = p + k \<and> occurs_at s t k \<and> (\<forall>j < k. \<not> occurs_at s t j))"
  using strnstr_loop_first [OF assms(1,2)] strlen_cstr [OF assms(2)] strnlen_cstr [OF assms(1)] assms(3)
  by (simp add: strstr_def strnstr_def min_def)

theorem strstr_correct_witness: "\<exists>r. strstr demo_mem 0 6 = Some r \<and> r \<noteq> None"
proof -
  have len: "length [97, 98, 99, 98, 99 :: u8] < 2 ^ 64" by simp
  have occ: "occurs_at [97, 98, 99, 98, 99] [98, 99] 1" by (simp add: occurs_at_def)
  obtain r where r: "strstr demo_mem 0 6 = Some r" and c: "case r of None \<Rightarrow> \<forall>k. \<not> occurs_at [97, 98, 99, 98, 99] [98, 99] k
     | Some a \<Rightarrow> \<exists>k. a = 0 + k \<and> occurs_at [97, 98, 99, 98, 99] [98, 99] k \<and>
         (\<forall>j < k. \<not> occurs_at [97, 98, 99, 98, 99] [98, 99] j)"
    using strstr_correct [OF demo_mem_strings(1,2) len] by (elim exE conjE)
  have "r \<noteq> None"
  proof
    assume "r = None"
    then show False using c occ by (simp only: option.case)
  qed
  then show ?thesis using r by blast
qed

text \<open>
  \<open>memchr_inv\<close>, which compares eight aligned bytes at a time, agrees with the byte by byte search
  on every area and every alignment.
\<close>

theorem memchr_inv_correct: "memchr_inv m start c bytes = check_bytes8 m start c bytes"
proof (cases "bytes \<le> 16")
  case False
  define pre where "pre = (if start mod 8 \<noteq> 0 then 8 - start mod 8 else 0)"
  have le: "pre \<le> bytes" using False by (auto simp: pre_def)
  have "check_bytes8 m start c bytes =
      (case check_bytes8 m start c pre of Some r \<Rightarrow> Some r | None \<Rightarrow> check_bytes8 m (start + pre) c (bytes - pre))"
    using check_bytes8_append [of m start c pre "bytes - pre"] le by simp
  also have "check_bytes8 m (start + pre) c (bytes - pre) =
      (case memchr_inv_words m ((bytes - pre) div 8) (start + pre) c of
         Inl r \<Rightarrow> r | Inr q \<Rightarrow> check_bytes8 m q c ((bytes - pre) mod 8))"
    using memchr_inv_words_eq [of m "start + pre" c "(bytes - pre) div 8" "(bytes - pre) mod 8"] by simp
  finally have "check_bytes8 m start c bytes =
      (case check_bytes8 m start c pre of Some r \<Rightarrow> Some r | None \<Rightarrow>
         (case memchr_inv_words m ((bytes - pre) div 8) (start + pre) c of
            Inl r \<Rightarrow> r | Inr q \<Rightarrow> check_bytes8 m q c ((bytes - pre) mod 8)))" .
  moreover have "pre = 0" if "start mod 8 = 0" using that by (simp only: pre_def if_False simp_thms)
  ultimately show ?thesis
    using False unfolding memchr_inv_def Let_def pre_def [symmetric]
    by (cases "start mod 8 = 0") (simp_all only: if_True if_False simp_thms check_bytes8.simps option.case)
qed (simp add: memchr_inv_def)

end
