(* ===== verification/Qsort.thy ===== *)
theory Qsort
  imports Cstring_Props "HOL-Library.Multiset"
begin

text \<open>
  The sort of \<open>lib/qsort.c\<close>, a Shell sort, on lists of elements. The source works on bytes and
  multiplies its indices by the width of an element; the gaps are kept in elements here, which is the
  same because every gap of the sequence 1, 4, 13, ... is three times the next one plus one.
\<close>

section \<open>The algorithm\<close>

definition swap_at :: "'a list \<Rightarrow> nat \<Rightarrow> nat \<Rightarrow> 'a list" where
  "swap_at xs i j = xs[i := xs ! j, j := xs ! i]"

function qsort_start :: "nat \<Rightarrow> nat \<Rightarrow> nat" where
  "qsort_start nel wgap =
     (let wgap1 = 3 * wgap + 1 in if wgap1 < (nel - 1) div 3 then qsort_start nel wgap1 else wgap1)"
  by pat_completeness auto
termination
  by (relation "measure (\<lambda>(nel, wgap). nel - wgap)") (auto simp: Let_def)

text \<open>
  The innermost loop moves the element at \<open>j\<close> down in steps of the gap. The gap is never 0; the test
  only makes the function total.
\<close>

function qsort_sift :: "('a \<Rightarrow> 'a \<Rightarrow> int) \<Rightarrow> nat \<Rightarrow> nat \<Rightarrow> 'a list \<Rightarrow> 'a list" where
  "qsort_sift cmp wgap j xs =
     (if wgap = 0 then xs
      else
        let j1 = j - wgap
        in if cmp (xs ! j1) (xs ! (j1 + wgap)) \<le> 0 then xs
           else
             let xs1 = swap_at xs j1 (j1 + wgap)
             in if j1 \<ge> wgap then qsort_sift cmp wgap j1 xs1 else xs1)"
  by pat_completeness auto
termination
  by (relation "measure (\<lambda>(cmp, wgap, j, xs). j)") auto

function qsort_pass :: "('a \<Rightarrow> 'a \<Rightarrow> int) \<Rightarrow> nat \<Rightarrow> nat \<Rightarrow> nat \<Rightarrow> 'a list \<Rightarrow> 'a list" where
  "qsort_pass cmp wgap nel i xs =
     (let xs1 = qsort_sift cmp wgap i xs
      in if i + 1 < nel then qsort_pass cmp wgap nel (i + 1) xs1 else xs1)"
  by pat_completeness auto
termination
  by (relation "measure (\<lambda>(cmp, wgap, nel, i, xs). nel - i)") auto

function qsort_gaps :: "('a \<Rightarrow> 'a \<Rightarrow> int) \<Rightarrow> nat \<Rightarrow> nat \<Rightarrow> 'a list \<Rightarrow> 'a list" where
  "qsort_gaps cmp nel wgap xs =
     (let xs1 = qsort_pass cmp wgap nel wgap xs;
          wgap1 = (wgap - 1) div 3
      in if wgap1 \<noteq> 0 then qsort_gaps cmp nel wgap1 xs1 else xs1)"
  by pat_completeness auto
termination
  by (relation "measure (\<lambda>(cmp, nel, wgap, xs). wgap)") auto

definition qsort :: "('a \<Rightarrow> 'a \<Rightarrow> int) \<Rightarrow> 'a list \<Rightarrow> 'a list" where
  "qsort cmp xs =
     (if length xs > 1 then qsort_gaps cmp (length xs) (qsort_start (length xs) 0) xs else xs)"

text \<open>The bytes of a C string end at the first NUL.\<close>

definition strcmp_compar :: "cstr \<Rightarrow> cstr \<Rightarrow> int" where
  "strcmp_compar s t = str_compare (takeWhile (\<lambda>c. c \<noteq> 0) s) (takeWhile (\<lambda>c. c \<noteq> 0) t)"

declare qsort_start.simps [simp del] qsort_sift.simps [simp del] qsort_pass.simps [simp del]
  qsort_gaps.simps [simp del]

section \<open>It permutes\<close>

lemma length_swap_at [simp]: "length (swap_at xs i j) = length xs"
  by (simp add: swap_at_def)

lemma nth_swap_at:
  "i < length xs \<Longrightarrow> j < length xs \<Longrightarrow> swap_at xs i j ! k = (if k = j then xs ! i else if k = i then xs ! j else xs ! k)"
  by (auto simp: swap_at_def nth_list_update)

lemma mset_swap_at: "i < length xs \<Longrightarrow> j < length xs \<Longrightarrow> mset (swap_at xs i j) = mset xs"
  by (simp add: swap_at_def mset_swap)

lemma qsort_sift_mset:
  "wgap \<le> j \<Longrightarrow> j < length xs \<Longrightarrow> mset (qsort_sift cmp wgap j xs) = mset xs \<and> length (qsort_sift cmp wgap j xs) = length xs"
proof (induction cmp wgap j xs rule: qsort_sift.induct)
  case (1 cmp wgap j xs)
  let ?j = "j - wgap"
  let ?ys = "swap_at xs ?j (?j + wgap)"
  have m: "mset ?ys = mset xs" "length ?ys = length xs" using "1.prems" by (simp_all add: mset_swap_at)
  show ?case
  proof (cases "wgap = 0 \<or> cmp (xs ! ?j) (xs ! (?j + wgap)) \<le> 0 \<or> \<not> ?j \<ge> wgap")
    case True
    then show ?thesis using m by (subst (1 2) qsort_sift.simps) (auto simp: Let_def)
  next
    case False
    then have "qsort_sift cmp wgap j xs = qsort_sift cmp wgap ?j ?ys"
      by (subst qsort_sift.simps) (simp add: Let_def)
    then show ?thesis using "1.IH" [OF _ refl _ refl] False m "1.prems" by simp
  qed
qed

lemma qsort_pass_mset:
  "wgap \<le> i \<Longrightarrow> i < length xs \<Longrightarrow> nel = length xs \<Longrightarrow>
   mset (qsort_pass cmp wgap nel i xs) = mset xs \<and> length (qsort_pass cmp wgap nel i xs) = length xs"
proof (induction cmp wgap nel i xs rule: qsort_pass.induct)
  case (1 cmp wgap nel i xs)
  note s = qsort_sift_mset [OF "1.prems"(1,2), of cmp]
  show ?case using "1.IH" [OF refl] "1.prems" s by (subst (1 2) qsort_pass.simps) (simp add: Let_def)
qed

lemma qsort_gaps_mset:
  "wgap < length xs \<Longrightarrow> nel = length xs \<Longrightarrow>
   mset (qsort_gaps cmp nel wgap xs) = mset xs \<and> length (qsort_gaps cmp nel wgap xs) = length xs"
proof (induction cmp nel wgap xs rule: qsort_gaps.induct)
  case (1 cmp nel wgap xs)
  have p: "mset (qsort_pass cmp wgap nel wgap xs) = mset xs" "length (qsort_pass cmp wgap nel wgap xs) = length xs"
    using qsort_pass_mset [of wgap wgap xs nel cmp] "1.prems" by auto
  have "(wgap - 1) div 3 < length xs" using "1.prems"(1) by linarith
  then show ?case using "1.IH" [OF refl refl] "1.prems" p by (subst (1 2) qsort_gaps.simps) (simp add: Let_def)
qed

lemma qsort_start_less: "3 * w + 1 < nel \<Longrightarrow> qsort_start nel w < nel"
proof (induction nel w rule: qsort_start.induct)
  case (1 nel w)
  show ?case
  proof (cases "3 * w + 1 < (nel - 1) div 3")
    case True
    then have "3 * (3 * w + 1) + 1 < nel" by presburger
    then show ?thesis using "1.IH" [OF refl True] True by (subst qsort_start.simps) (simp add: Let_def)
  next
    case False
    then show ?thesis using "1.prems" by (subst qsort_start.simps) (simp add: Let_def)
  qed
qed

text \<open>The gaps are those of the sequence 1, 4, 13, ...\<close>

inductive shell_gap :: "nat \<Rightarrow> bool" where
  one: "shell_gap 1"
| next_gap: "shell_gap g \<Longrightarrow> shell_gap (3 * g + 1)"

lemma qsort_start_gap_from: "w = 0 \<or> shell_gap w \<Longrightarrow> shell_gap (qsort_start nel w)"
proof (induction nel w rule: qsort_start.induct)
  case (1 nel w)
  have g: "shell_gap (3 * w + 1)" using "1.prems" shell_gap.intros by auto
  then show ?case using "1.IH" [OF refl] by (subst qsort_start.simps) (simp add: Let_def)
qed

lemma qsort_start_gap: "shell_gap (qsort_start nel 0)"
  by (simp add: qsort_start_gap_from)

section \<open>It sorts\<close>

text \<open>
  What the sort needs of a comparison function; the last pass, which has gap 1, is an insertion sort.
\<close>

locale comparison =
  fixes cmp :: "'a \<Rightarrow> 'a \<Rightarrow> int"
  assumes total: "cmp a b \<le> 0 \<or> cmp b a \<le> 0"
    and trans: "cmp a b \<le> 0 \<Longrightarrow> cmp b c \<le> 0 \<Longrightarrow> cmp a c \<le> 0"
begin

text \<open>All pairs up to \<open>n\<close> are in order except those that end in \<open>j\<close>.\<close>

definition almost :: "nat \<Rightarrow> nat \<Rightarrow> 'a list \<Rightarrow> bool" where
  "almost n j xs \<longleftrightarrow> (\<forall>a b. a < b \<and> b \<le> n \<and> b \<noteq> j \<longrightarrow> cmp (xs ! a) (xs ! b) \<le> 0)"

definition ordered :: "nat \<Rightarrow> 'a list \<Rightarrow> bool" where
  "ordered n xs \<longleftrightarrow> (\<forall>a b. a < b \<and> b \<le> n \<longrightarrow> cmp (xs ! a) (xs ! b) \<le> 0)"

lemma sift_ordered:
  "almost n j xs \<Longrightarrow> 1 \<le> j \<Longrightarrow> j \<le> n \<Longrightarrow> n < length xs \<Longrightarrow> ordered n (qsort_sift cmp 1 j xs)"
proof (induction j arbitrary: xs)
  case (Suc i)
  let ?ys = "swap_at xs i (Suc i)"
  show ?case
  proof (cases "cmp (xs ! i) (xs ! Suc i) \<le> 0")
    case True
    have "cmp (xs ! a) (xs ! Suc i) \<le> 0" if "a < Suc i" for a
    proof (cases "a = i")
      case False
      then have "cmp (xs ! a) (xs ! i) \<le> 0" using Suc.prems that by (auto simp: almost_def)
      then show ?thesis using trans True by blast
    qed (use True in simp)
    then have "ordered n xs" using Suc.prems(1) unfolding ordered_def almost_def by metis
    moreover have "qsort_sift cmp 1 (Suc i) xs = xs" using True by (subst qsort_sift.simps) (simp add: Let_def)
    ultimately show ?thesis by simp
  next
    case False
    then have up: "cmp (xs ! Suc i) (xs ! i) \<le> 0" using total by blast
    have y: "?ys ! k = (if k = Suc i then xs ! i else if k = i then xs ! Suc i else xs ! k)" for k
      using Suc.prems by (simp add: nth_swap_at)
    have al: "almost n i ?ys"
      unfolding almost_def
    proof (intro allI impI)
      fix a b assume ab: "a < b \<and> b \<le> n \<and> b \<noteq> i"
      show "cmp (?ys ! a) (?ys ! b) \<le> 0"
        using ab Suc.prems(1) up unfolding y almost_def by (cases "b = Suc i") auto
    qed
    have step: "qsort_sift cmp 1 (Suc i) xs = (if 1 \<le> i then qsort_sift cmp 1 i ?ys else ?ys)"
      using False by (subst qsort_sift.simps) (simp add: Let_def)
    show ?thesis
    proof (cases "1 \<le> i")
      case True
      then show ?thesis using Suc.IH [OF al] Suc.prems step by simp
    next
      case False
      then have "ordered n ?ys" using al unfolding ordered_def almost_def by auto
      then show ?thesis using step False by simp
    qed
  qed
qed simp

lemma sift_above: "j < k \<Longrightarrow> j < length xs \<Longrightarrow> 1 \<le> j \<Longrightarrow> qsort_sift cmp 1 j xs ! k = xs ! k"
proof (induction j arbitrary: xs)
  case (Suc i)
  have "swap_at xs i (Suc i) ! k = xs ! k" using Suc.prems by (simp add: nth_swap_at)
  then show ?case using Suc.IH [of "swap_at xs i (Suc i)"] Suc.prems
    by (subst qsort_sift.simps) (simp add: Let_def)
qed simp

lemma pass_ordered:
  "ordered (i - 1) xs \<Longrightarrow> 1 \<le> i \<Longrightarrow> i < length xs \<Longrightarrow> nel = length xs \<Longrightarrow>
   ordered (length xs - 1) (qsort_pass cmp 1 nel i xs)"
proof (induction "nel - i" arbitrary: i xs)
  case (Suc n)
  let ?ys = "qsort_sift cmp 1 i xs"
  have "almost i i xs" using Suc.prems(1,2) by (auto simp: almost_def ordered_def)
  then have o: "ordered i ?ys" using Suc.prems by (intro sift_ordered) auto
  have len: "length ?ys = length xs" using qsort_sift_mset [of 1 i xs cmp] Suc.prems by simp
  have step: "qsort_pass cmp 1 nel i xs = (if i + 1 < nel then qsort_pass cmp 1 nel (i + 1) ?ys else ?ys)"
    by (subst qsort_pass.simps) (simp add: Let_def)
  show ?case
  proof (cases "i + 1 < nel")
    case True
    have "ordered (length ?ys - 1) (qsort_pass cmp 1 nel (i + 1) ?ys)"
      using Suc.hyps(2) Suc.prems(4) True len o by (intro Suc.hyps(1)) auto
    then show ?thesis using step True len by simp
  next
    case False
    then have "length xs - 1 = i" using Suc.prems by simp
    then show ?thesis using step False o by simp
  qed
qed simp

lemma gaps_ordered:
  "shell_gap wgap \<Longrightarrow> wgap < length xs \<Longrightarrow> nel = length xs \<Longrightarrow>
   ordered (length xs - 1) (qsort_gaps cmp nel wgap xs)"
proof (induction arbitrary: xs rule: shell_gap.induct)
  case one
  then show ?case
    using pass_ordered [of 1 xs nel] by (subst qsort_gaps.simps) (simp add: Let_def ordered_def)
next
  case (next_gap g)
  let ?ys = "qsort_pass cmp (3 * g + 1) nel (3 * g + 1) xs"
  have pos: "0 < g" using next_gap.hyps by (induction rule: shell_gap.induct) auto
  have "length ?ys = length xs" using qsort_pass_mset next_gap.prems by blast
  moreover have "qsort_gaps cmp nel (3 * g + 1) xs = qsort_gaps cmp nel g ?ys"
    using pos by (subst qsort_gaps.simps) (simp add: Let_def)
  ultimately show ?case using next_gap.IH [of ?ys] next_gap.prems by simp
qed

lemma qsort_sorts: "sorted_wrt (\<lambda>a b. cmp a b \<le> 0) (qsort cmp xs)"
proof (cases "length xs > 1")
  case True
  let ?g = "qsort_start (length xs) 0"
  have g: "?g < length xs" using True by (intro qsort_start_less) simp
  have "ordered (length xs - 1) (qsort cmp xs)"
    using gaps_ordered [OF qsort_start_gap g refl] True by (simp add: qsort_def)
  moreover have "length (qsort cmp xs) = length xs"
    using qsort_gaps_mset [OF g refl] True by (simp add: qsort_def)
  ultimately show ?thesis using True by (auto simp: sorted_wrt_iff_nth_less ordered_def)
next
  case False
  then show ?thesis by (cases xs) (auto simp: qsort_def)
qed

end

lemma qsort_mset: "mset (qsort cmp xs) = mset xs"
proof (cases "length xs > 1")
  case True
  then have g: "qsort_start (length xs) 0 < length xs" by (intro qsort_start_less) simp
  show ?thesis using qsort_gaps_mset [OF g refl] True by (simp add: qsort_def)
qed (simp add: qsort_def)

text \<open>The comparison of strings meets the requirements.\<close>

lemma str_compare_antisym: "str_compare t s = - str_compare s t"
  by (induction s t rule: str_compare.induct) auto

lemma str_compare_trans:
  "str_compare a b \<le> 0 \<Longrightarrow> str_compare b c \<le> 0 \<Longrightarrow> 0 \<notin> set a \<Longrightarrow> 0 \<notin> set b \<Longrightarrow> str_compare a c \<le> 0"
proof (induction a b arbitrary: c rule: str_compare.induct)
  case (3 x xs c)
  then have "uint x \<noteq> 0" by (auto simp: uint_0_iff)
  then show ?case using 3 by (simp add: antisym)
next
  case (4 x xs y ys c)
  show ?case
  proof (cases c)
    case Nil
    then have "uint y = 0" using 4 by (simp add: antisym)
    then show ?thesis using 4 by (simp add: uint_0_iff)
  next
    case (Cons z zs)
    then show ?thesis using 4 by (auto simp: word_uint_eq_iff [symmetric] split: if_splits)
  qed
qed (case_tac c; simp)+

lemma takeWhile_no_nul: "0 \<notin> set (takeWhile (\<lambda>c. c \<noteq> 0) (s :: cstr))"
  by (auto dest: set_takeWhileD)

interpretation sc: comparison strcmp_compar
proof
  show "strcmp_compar a b \<le> 0 \<or> strcmp_compar b a \<le> 0" for a b
    unfolding strcmp_compar_def
    using str_compare_antisym [of "takeWhile (\<lambda>c. c \<noteq> 0) b" "takeWhile (\<lambda>c. c \<noteq> 0) a"] by linarith
  show "strcmp_compar a b \<le> 0 \<Longrightarrow> strcmp_compar b c \<le> 0 \<Longrightarrow> strcmp_compar a c \<le> 0" for a b c
    unfolding strcmp_compar_def by (rule str_compare_trans [OF _ _ takeWhile_no_nul takeWhile_no_nul])
qed

text \<open>
  C19. \<open>qsort\<close> rearranges the array and leaves it sorted, for every comparison function that is total
  and transitive.
\<close>

theorem qsort_correct:
  assumes "\<forall>a b. cmp a b \<le> 0 \<or> cmp b a \<le> 0"
    and "\<forall>a b c. cmp a b \<le> 0 \<longrightarrow> cmp b c \<le> 0 \<longrightarrow> cmp a c \<le> 0"
  shows "mset (qsort cmp xs) = mset xs \<and> sorted_wrt (\<lambda>a b. cmp a b \<le> 0) (qsort cmp xs)"
proof -
  have "comparison cmp" by unfold_locales (use assms in blast)+
  then show ?thesis using comparison.qsort_sorts qsort_mset by blast
qed

theorem qsort_correct_witness:
  "sorted_wrt (\<lambda>a b. a - b \<le> 0) (qsort (\<lambda>a b :: int. a - b) [5, 3, 9, 1, 7]) \<and>
   mset (qsort (\<lambda>a b :: int. a - b) [5, 3, 9, 1, 7]) = mset [5, 3, 9, 1, 7]"
  using qsort_correct [of "\<lambda>a b :: int. a - b" "[5, 3, 9, 1, 7]"] by (simp add: linear)

end
