(* ===== verification/Hashtable.thy ===== *)
theory Hashtable
  imports Qsort
begin

text \<open>
  The hash table behind the environment, \<open>lib/hashtable.c\<close>: open addressing with double hashing. The
  table is a list of nodes; node 0 is never used. Keys and values are C strings without their
  terminators, and NULL is None. A \<open>char\<close> is unsigned and a \<open>size_t\<close> has 32 bits, as on ARM. The words \<open>hval\<close>, \<open>hval2\<close> and \<open>idx\<close> keep the 32 bits of
  \<open>unsigned int\<close>; the probing loop, whose end depends on the table, is partial.

  What the file calls in other parts of the program are parameters, gathered in the record
  \<^theory_text>\<open>env_hooks\<close>: the functions behind the callback pointers (which are taken to leave the
  table alone, so that the guard against nested callbacks has nothing to do), \<open>env_callback_init\<close> and
  \<open>env_flags_init\<close> with the value they give the one field they set, the allocator behind \<open>strdup\<close>, and the regular expressions. The pointer
  \<open>change_ok\<close> of the table is a field of it.
\<close>

section \<open>Data\<close>

datatype env_op = env_op_create | env_op_delete | env_op_overwrite

datatype env_action = ENV_FIND | ENV_ENTER

record env_entry =
  ee_key :: "cstr option"
  ee_data :: "cstr option"
  ee_callback :: "nat option"
  ee_flags :: int

record env_entry_node =
  en_used :: int
  en_entry :: env_entry

record hsearch_data =
  ht_table :: "env_entry_node list option"
  ht_size :: u32
  ht_filled :: u32
  ht_change_ok :: "(env_entry \<Rightarrow> cstr option \<Rightarrow> env_op \<Rightarrow> int \<Rightarrow> int) option"

record env_hooks =
  hk_callback :: "nat \<Rightarrow> cstr \<Rightarrow> cstr option \<Rightarrow> env_op \<Rightarrow> int \<Rightarrow> int"
  hk_callback_init :: "hsearch_data \<Rightarrow> env_entry \<Rightarrow> nat option"
  hk_flags_init :: "hsearch_data \<Rightarrow> env_entry \<Rightarrow> int"
  hk_strdup_ok :: "cstr \<Rightarrow> bool"
  hk_regex :: "(cstr \<Rightarrow> (cstr \<Rightarrow> bool) option) option"

definition USED_FREE :: int where "USED_FREE = 0"
definition USED_DELETED :: int where "USED_DELETED = - 1"

definition H_NOCLEAR :: int where "H_NOCLEAR = 1"
definition H_FORCE :: int where "H_FORCE = 2"
definition H_INTERACTIVE :: int where "H_INTERACTIVE = 4"
definition H_HIDE_DOT :: int where "H_HIDE_DOT = 8"
definition H_MATCH_KEY :: int where "H_MATCH_KEY = 16"
definition H_MATCH_DATA :: int where "H_MATCH_DATA = 32"
definition H_MATCH_IDENT :: int where "H_MATCH_IDENT = 64"
definition H_MATCH_SUBSTR :: int where "H_MATCH_SUBSTR = 128"
definition H_MATCH_REGEX :: int where "H_MATCH_REGEX = 256"
definition H_MATCH_METHOD :: int where "H_MATCH_METHOD = H_MATCH_IDENT OR H_MATCH_SUBSTR OR H_MATCH_REGEX"

definition env_entry_zero :: env_entry where
  "env_entry_zero = \<lparr>ee_key = None, ee_data = None, ee_callback = None, ee_flags = 0\<rparr>"

definition env_entry_node_zero :: env_entry_node where
  "env_entry_node_zero = \<lparr>en_used = USED_FREE, en_entry = env_entry_zero\<rparr>"

definition ht_node :: "hsearch_data \<Rightarrow> u32 \<Rightarrow> env_entry_node" where
  "ht_node htab idx = the (ht_table htab) ! unat idx"

definition ht_update :: "hsearch_data \<Rightarrow> u32 \<Rightarrow> env_entry_node \<Rightarrow> hsearch_data" where
  "ht_update htab idx node = htab\<lparr>ht_table := Some ((the (ht_table htab))[unat idx := node])\<rparr>"

section \<open>Creating and destroying\<close>

partial_function (option) isprime_loop :: "u32 \<Rightarrow> u32 \<Rightarrow> u32 option" where
  "isprime_loop number dv =
     (if dv * dv < number \<and> number mod dv \<noteq> 0 then isprime_loop number (dv + 2) else Some dv)"

definition isprime :: "u32 \<Rightarrow> bool option" where
  "isprime number = map_option (\<lambda>dv. number mod dv \<noteq> 0) (isprime_loop number 3)"

partial_function (option) hcreate_size :: "u32 \<Rightarrow> u32 option" where
  "hcreate_size nel =
     Option.bind (isprime nel) (\<lambda>prime. if \<not> prime then hcreate_size (nel + 2) else Some nel)"

text \<open>The result is the return value, the error number (0 when it is not set) and the table.\<close>

definition hcreate_r :: "allocator \<Rightarrow> u32 \<Rightarrow> hsearch_data \<Rightarrow> (int \<times> int \<times> hsearch_data) option" where
  "hcreate_r calloc nel htab =
     (if ht_table htab \<noteq> None then Some (0, EINVAL, htab)
      else map_option (\<lambda>sz.
        let htab1 = htab\<lparr>ht_size := sz, ht_filled := 0\<rparr>
        in if \<not> calloc (unat (sz + 1)) then (0, ENOMEM, htab1)
           else (1, 0, htab1\<lparr>ht_table := Some (replicate (unat (sz + 1)) env_entry_node_zero)\<rparr>))
        (hcreate_size (nel OR 1)))"

text \<open>The strings of the entries are freed with the table, so nothing of it is left.\<close>

definition hdestroy_r :: "hsearch_data \<Rightarrow> hsearch_data" where
  "hdestroy_r htab = htab\<lparr>ht_table := None\<rparr>"

section \<open>Searching\<close>

definition strdup_opt :: "env_hooks \<Rightarrow> cstr option \<Rightarrow> cstr option" where
  "strdup_opt hooks s = (case s of None \<Rightarrow> None | Some t \<Rightarrow> if hk_strdup_ok hooks t then Some t else None)"

text \<open>Whether the first string is a prefix of the second, as \<open>strncmp\<close> with its length tells.\<close>

definition str_prefix :: "cstr \<Rightarrow> cstr \<Rightarrow> bool" where
  "str_prefix p s \<longleftrightarrow> take (length p) s = p"

text \<open>\<open>hmatch_r\<close>: the next used entry whose key starts with the string, 0 when there is none.\<close>

function hmatch_loop :: "hsearch_data \<Rightarrow> cstr \<Rightarrow> nat \<Rightarrow> nat" where
  "hmatch_loop htab match idx =
     (if idx < unat (ht_size htab) then
        let node = the (ht_table htab) ! idx
        in if en_used node \<le> 0 then hmatch_loop htab match (idx + 1)
           else if str_prefix match (the (ee_key (en_entry node))) then idx
           else hmatch_loop htab match (idx + 1)
      else 0)"
  by pat_completeness auto
termination
  by (relation "measure (\<lambda>(htab, match, idx). unat (ht_size htab) - idx)") auto

definition hmatch_r :: "cstr \<Rightarrow> nat \<Rightarrow> hsearch_data \<Rightarrow> nat \<times> env_entry option \<times> int" where
  "hmatch_r match last_idx htab =
     (let idx = hmatch_loop htab match (last_idx + 1)
      in if idx = 0 then (0, None, ESRCH) else (idx, Some (en_entry (the (ht_table htab) ! idx)), 0))"

definition do_callback :: "env_hooks \<Rightarrow> env_entry \<Rightarrow> cstr \<Rightarrow> cstr option \<Rightarrow> env_op \<Rightarrow> int \<Rightarrow> int" where
  "do_callback hooks e name value op_code flags =
     (case ee_callback e of None \<Rightarrow> 0 | Some cb \<Rightarrow> hk_callback hooks cb name value op_code flags)"

definition denied :: "hsearch_data \<Rightarrow> env_entry \<Rightarrow> cstr option \<Rightarrow> env_op \<Rightarrow> int \<Rightarrow> bool" where
  "denied htab e newval op_code flag =
     (case ht_change_ok htab of None \<Rightarrow> False | Some f \<Rightarrow> f e newval op_code flag \<noteq> 0)"

text \<open>
  What a search returns: the return value, the entry it points to (its index, None for NULL), the
  error number and the table.
\<close>

type_synonym hsearch_result = "int \<times> u32 option \<times> int \<times> hsearch_data"

definition compare_and_overwrite_entry ::
  "env_hooks \<Rightarrow> cstr \<Rightarrow> cstr option \<Rightarrow> env_action \<Rightarrow> hsearch_data \<Rightarrow> int \<Rightarrow> u32 \<Rightarrow> u32 \<Rightarrow> hsearch_result" where
  "compare_and_overwrite_entry hooks key data action htab flag hval idx =
     (let node = ht_node htab idx; e = en_entry node
      in if word_of_int (en_used node) = hval \<and> ee_key e = Some key then
           (case (action, data) of
              (ENV_ENTER, Some value) \<Rightarrow>
                if denied htab e data env_op_overwrite flag then (0, None, EPERM, htab)
                else if do_callback hooks e key data env_op_overwrite flag \<noteq> 0 then (0, None, EINVAL, htab)
                else
                  let htab1 = ht_update htab idx (node\<lparr>en_entry := e\<lparr>ee_data := strdup_opt hooks data\<rparr>\<rparr>)
                  in if strdup_opt hooks data = None then (0, None, ENOMEM, htab1)
                     else (sint idx, Some idx, 0, htab1)
            | _ \<Rightarrow> (sint idx, Some idx, 0, htab))
         else (- 1, None, 0, htab))"

text \<open>The first hash value of a key.\<close>

definition hash_string :: "cstr \<Rightarrow> u32" where
  "hash_string key = foldr (\<lambda>c hval. push_bit 4 hval + ucast c) key (of_nat (length key))"

definition hash_first :: "hsearch_data \<Rightarrow> cstr \<Rightarrow> u32" where
  "hash_first htab key =
     (let hval = hash_string key mod ht_size htab in if hval = 0 then hval + 1 else hval)"

text \<open>
  How probing ends: with a result of its own, or at an index where nothing was found, together with
  the first deleted slot on the way (0 when there was none).
\<close>

datatype probe_end = ProbeDone hsearch_result | ProbeStop u32 u32

partial_function (option) hsearch_loop ::
  "env_hooks \<Rightarrow> cstr \<Rightarrow> cstr option \<Rightarrow> env_action \<Rightarrow> hsearch_data \<Rightarrow> int \<Rightarrow> u32 \<Rightarrow> u32 \<Rightarrow> u32 \<Rightarrow> u32 \<Rightarrow>
   probe_end option" where
  "hsearch_loop hooks key data action htab flag hval hval2 idx first_deleted =
     (let idx1 = (if idx \<le> hval2 then ht_size htab + idx - hval2 else idx - hval2)
      in if idx1 = hval then Some (ProbeStop idx1 first_deleted)
         else
           let first_deleted1 = (if en_used (ht_node htab idx1) = USED_DELETED \<and> first_deleted = 0
                                 then idx1 else first_deleted);
               r = compare_and_overwrite_entry hooks key data action htab flag hval idx1
           in if fst r \<noteq> - 1 then Some (ProbeDone r)
              else if en_used (ht_node htab idx1) \<noteq> USED_FREE
              then hsearch_loop hooks key data action htab flag hval hval2 idx1 first_deleted1
              else Some (ProbeStop idx1 first_deleted1))"

definition hsearch_probe ::
  "env_hooks \<Rightarrow> cstr \<Rightarrow> cstr option \<Rightarrow> env_action \<Rightarrow> hsearch_data \<Rightarrow> int \<Rightarrow> probe_end option" where
  "hsearch_probe hooks key data action htab flag =
     (let hval = hash_first htab key; idx = hval
      in if en_used (ht_node htab idx) \<noteq> 0 then
           let first_deleted = (if en_used (ht_node htab idx) = USED_DELETED then idx else 0);
               r = compare_and_overwrite_entry hooks key data action htab flag hval idx;
               hval2 = 1 + hval mod (ht_size htab - 2)
           in if fst r \<noteq> - 1 then Some (ProbeDone r)
              else hsearch_loop hooks key data action htab flag hval hval2 idx first_deleted
         else Some (ProbeStop idx 0))"

section \<open>Entering and deleting\<close>

text \<open>\<open>_hdelete\<close>: the freed strings leave no pointer that could be used.\<close>

definition hdelete_slot :: "hsearch_data \<Rightarrow> u32 \<Rightarrow> hsearch_data" where
  "hdelete_slot htab idx =
     (let node = ht_node htab idx
      in (ht_update htab idx
            (node\<lparr>en_used := USED_DELETED,
                  en_entry := (en_entry node)\<lparr>ee_key := None, ee_data := None, ee_flags := 0\<rparr>\<rparr>))
         \<lparr>ht_filled := ht_filled htab - 1\<rparr>)"

definition henter_slot ::
  "env_hooks \<Rightarrow> cstr \<Rightarrow> cstr option \<Rightarrow> hsearch_data \<Rightarrow> int \<Rightarrow> u32 \<Rightarrow> u32 \<Rightarrow> hsearch_result" where
  "henter_slot hooks key data htab flag hval idx =
     (let node = ht_node htab idx;
          e = (en_entry node)\<lparr>ee_key := strdup_opt hooks (Some key), ee_data := strdup_opt hooks data\<rparr>;
          htab1 = ht_update htab idx (node\<lparr>en_used := sint hval, en_entry := e\<rparr>)
      in if ee_key e = None \<or> ee_data e = None then (0, None, ENOMEM, htab1)
         else
           let htab2 = htab1\<lparr>ht_filled := ht_filled htab1 + 1\<rparr>;
               e1 = e\<lparr>ee_callback := hk_callback_init hooks htab2 e\<rparr>;
               e2 = e1\<lparr>ee_flags := hk_flags_init hooks htab2 e1\<rparr>;
               htab3 = ht_update htab2 idx (node\<lparr>en_used := sint hval, en_entry := e2\<rparr>)
           in if denied htab3 e2 data env_op_create flag then (0, None, EPERM, hdelete_slot htab3 idx)
              else if do_callback hooks e2 key data env_op_create flag \<noteq> 0
              then (0, None, EINVAL, hdelete_slot htab3 idx)
              else (1, Some idx, 0, htab3))"

definition hsearch_r ::
  "env_hooks \<Rightarrow> cstr \<Rightarrow> cstr option \<Rightarrow> env_action \<Rightarrow> hsearch_data \<Rightarrow> int \<Rightarrow> hsearch_result option" where
  "hsearch_r hooks key data action htab flag =
     map_option (\<lambda>p.
       case p of
         ProbeDone r \<Rightarrow> r
       | ProbeStop idx first_deleted \<Rightarrow>
           if action = ENV_ENTER then
             if ht_filled htab = ht_size htab then (0, None, ENOMEM, htab)
             else henter_slot hooks key data htab flag (hash_first htab key)
                    (if first_deleted \<noteq> 0 then first_deleted else idx)
           else (0, None, ESRCH, htab))
       (hsearch_probe hooks key data action htab flag)"

text \<open>The result is the return value, the error number and the table.\<close>

definition hdelete_r :: "env_hooks \<Rightarrow> cstr \<Rightarrow> hsearch_data \<Rightarrow> int \<Rightarrow> (int \<times> int \<times> hsearch_data) option" where
  "hdelete_r hooks key htab flag =
     map_option (\<lambda>(ret, rv, err, htab1).
       if ret = 0 then (- ENOENT, ESRCH, htab1)
       else
         let idx = word_of_int ret; e = en_entry (ht_node htab1 idx)
         in if denied htab1 e None env_op_delete flag then (- EPERM, EPERM, htab1)
            else if do_callback hooks e key None env_op_delete flag \<noteq> 0 then (- EINVAL, EINVAL, htab1)
            else (0, 0, hdelete_slot htab1 idx))
       (hsearch_r hooks key None ENV_FIND htab 0)"

section \<open>Walking\<close>

text \<open>\<open>hwalk_r\<close> with a callback that may change the entry it is given.\<close>

function hwalk_loop :: "(env_entry \<Rightarrow> int \<times> env_entry) \<Rightarrow> nat \<Rightarrow> hsearch_data \<Rightarrow> int \<times> hsearch_data" where
  "hwalk_loop callback i htab =
     (if i \<le> unat (ht_size htab) then
        let node = the (ht_table htab) ! i
        in if en_used node > 0 then
             case callback (en_entry node) of (retval, e) \<Rightarrow>
               let htab1 = htab\<lparr>ht_table := Some ((the (ht_table htab))[i := node\<lparr>en_entry := e\<rparr>])\<rparr>
               in if retval \<noteq> 0 then (retval, htab1) else hwalk_loop callback (i + 1) htab1
           else hwalk_loop callback (i + 1) htab
      else (0, htab))"
  by pat_completeness auto
termination
  by (relation "measure (\<lambda>(callback, i, htab). Suc (unat (ht_size htab)) - i)") auto

definition hwalk_r :: "(env_entry \<Rightarrow> int \<times> env_entry) \<Rightarrow> hsearch_data \<Rightarrow> int \<times> hsearch_data" where
  "hwalk_r callback htab = hwalk_loop callback 1 htab"

declare hmatch_loop.simps [simp del] hwalk_loop.simps [simp del]

end
