(* ===== verification/Hashtable_Probe.thy ===== *)
theory Hashtable_Probe
  imports Hashtable
begin

text \<open>
  The probing order of the hash table: which slots a key visits, that a table of prime size has every
  slot visited once, the invariant of the table, and where \<open>hsearch_r\<close> ends its search.
\<close>

section \<open>The order of probing\<close>

definition prime_size :: "nat \<Rightarrow> bool" where
  "prime_size n \<longleftrightarrow> 1 < n \<and> (\<forall>d\<in>{2..<n}. \<not> d dvd n)"

definition probe :: "nat \<Rightarrow> nat \<Rightarrow> nat \<Rightarrow> nat \<Rightarrow> nat" where
  "probe n h h2 j = 1 + (h - 1 + j * (n - h2)) mod n"

lemma probe_0: "1 \<le> h \<Longrightarrow> h \<le> n \<Longrightarrow> probe n h h2 0 = h"
  by (simp add: probe_def)

lemma probe_range: "0 < n \<Longrightarrow> 1 \<le> probe n h h2 j \<and> probe n h h2 j \<le> n"
  by (simp add: probe_def Suc_le_eq)

lemma mod_step:
  fixes x n h2 :: nat
  assumes "x < n" "0 < h2" "h2 < n"
  shows "(x + (n - h2)) mod n = (if x < h2 then x + n - h2 else x - h2)"
proof (cases "x < h2")
  case True
  then show ?thesis using assms by simp
next
  case False
  then have "x + (n - h2) = (x - h2) + n" using assms by simp
  then have "(x + (n - h2)) mod n = (x - h2) mod n" by (simp only: mod_add_self2)
  then show ?thesis using False assms by simp
qed

lemma probe_Suc:
  assumes "0 < h2" "h2 < n"
  shows "probe n h h2 (Suc j) =
    (if probe n h h2 j \<le> h2 then n + probe n h h2 j - h2 else probe n h h2 j - h2)"
proof -
  let ?x = "(h - 1 + j * (n - h2)) mod n"
  have "(h - 1 + Suc j * (n - h2)) mod n = (?x + (n - h2)) mod n"
    by (simp only: mult_Suc add.assoc [symmetric] add.commute [of "n - h2"] mod_add_left_eq)
  moreover have "?x < n" using assms by simp
  ultimately have "probe n h h2 (Suc j) = 1 + (if ?x < h2 then ?x + n - h2 else ?x - h2)"
    using mod_step [of ?x n h2] assms by (simp only: probe_def)
  moreover have "probe n h h2 j = 1 + ?x" by (simp add: probe_def)
  ultimately show ?thesis using assms by (auto simp: Suc_le_eq Suc_diff_le add.commute)
qed

lemma prime_size_coprime:
  assumes "prime_size n" "0 < a" "a < n"
  shows "coprime a n"
proof -
  have "gcd a n dvd n" "gcd a n \<le> a" "0 < gcd a n" using assms by simp_all
  moreover have "gcd a n \<in> {2..<n} \<Longrightarrow> \<not> gcd a n dvd n" using assms unfolding prime_size_def by blast
  ultimately have "\<not> 2 \<le> gcd a n" using assms(3) by (meson atLeastLessThan_iff le_less_trans)
  with \<open>0 < gcd a n\<close> have "gcd a n = 1" by linarith
  then show ?thesis by (simp add: coprime_iff_gcd_eq_1)
qed

lemma probe_inj:
  assumes "prime_size n" "0 < h2" "h2 < n" "i < n" "j < n" "probe n h h2 i = probe n h h2 j"
  shows "i = j"
  using assms(4-6)
proof (induction i j rule: linorder_wlog)
  case (le i j)
  let ?s = "n - h2"
  have "(h - 1 + i * ?s) mod n = (h - 1 + j * ?s) mod n" using le by (simp add: probe_def)
  moreover have "h - 1 + i * ?s \<le> h - 1 + j * ?s" using le(1) by simp
  ultimately have "n dvd (h - 1 + j * ?s) - (h - 1 + i * ?s)" using mod_eq_dvd_iff_nat by metis
  then have "n dvd (j - i) * ?s" by (simp add: diff_mult_distrib)
  moreover have "coprime n ?s" using prime_size_coprime [of n ?s] assms by (simp add: coprime_commute)
  ultimately have "n dvd j - i" by (simp add: coprime_dvd_mult_left_iff)
  then have "j - i = 0 \<or> n \<le> j - i" by (auto dest: dvd_imp_le)
  then show ?case using le(1,3) by linarith
next
  case (sym i j)
  then show ?case by simp
qed

lemma probe_covers:
  assumes "prime_size n" "0 < h2" "h2 < n" "1 \<le> i" "i \<le> n"
  obtains j where "j < n" "probe n h h2 j = i"
proof -
  have "inj_on (probe n h h2) {..<n}" using probe_inj [OF assms(1-3)] by (auto simp: inj_on_def)
  then have "card (probe n h h2 ` {..<n}) = n" by (simp add: card_image)
  moreover have "probe n h h2 ` {..<n} \<subseteq> {1..n}" using probe_range [of n h h2] assms(4,5) by auto
  ultimately have "probe n h h2 ` {..<n} = {1..n}" by (simp add: card_subset_eq)
  then have "i \<in> probe n h h2 ` {..<n}" using assms(4,5) by simp
  then show thesis using that by auto
qed

lemma probe_n: "1 \<le> h \<Longrightarrow> h \<le> n \<Longrightarrow> probe n h h2 n = h"
  by (simp add: probe_def del: add_diff_assoc2)

section \<open>The slots of a key\<close>

definition ht_n :: "hsearch_data \<Rightarrow> nat" where "ht_n htab = unat (ht_size htab)"

definition ht_used :: "hsearch_data \<Rightarrow> nat \<Rightarrow> int" where
  "ht_used htab i = en_used (the (ht_table htab) ! i)"

definition ht_key :: "hsearch_data \<Rightarrow> nat \<Rightarrow> cstr option" where
  "ht_key htab i = ee_key (en_entry (the (ht_table htab) ! i))"

definition ht_data :: "hsearch_data \<Rightarrow> nat \<Rightarrow> cstr option" where
  "ht_data htab i = ee_data (en_entry (the (ht_table htab) ! i))"

definition key_slot :: "hsearch_data \<Rightarrow> cstr \<Rightarrow> nat \<Rightarrow> nat" where
  "key_slot htab key j =
     (let h = unat (hash_first htab key) in probe (ht_n htab) h (1 + h mod (ht_n htab - 2)) j)"

definition wf_size :: "hsearch_data \<Rightarrow> bool" where
  "wf_size htab \<longleftrightarrow> 5 \<le> ht_n htab \<and> ht_n htab < 2 ^ 31 \<and> prime_size (ht_n htab) \<and>
     (\<exists>tab. ht_table htab = Some tab \<and> length tab = ht_n htab + 1)"

text \<open>Slot \<open>i\<close> is on the probing path of the key, and no slot before it was never used.\<close>

definition on_path :: "hsearch_data \<Rightarrow> cstr \<Rightarrow> nat \<Rightarrow> bool" where
  "on_path htab key i \<longleftrightarrow>
     (\<exists>j<ht_n htab. key_slot htab key j = i \<and> (\<forall>l<j. ht_used htab (key_slot htab key l) \<noteq> USED_FREE))"

definition wf_slot :: "hsearch_data \<Rightarrow> nat \<Rightarrow> bool" where
  "wf_slot htab i \<longleftrightarrow> ht_used htab i = USED_FREE \<or> ht_used htab i = USED_DELETED \<or>
     (\<exists>key value. ht_key htab i = Some key \<and> ht_data htab i = Some value \<and>
        ht_used htab i = sint (hash_first htab key) \<and> on_path htab key i)"

definition live_slots :: "hsearch_data \<Rightarrow> nat set" where
  "live_slots htab = {i \<in> {1..ht_n htab}. ht_used htab i > 0}"

definition wf_htab :: "hsearch_data \<Rightarrow> bool" where
  "wf_htab htab \<longleftrightarrow> wf_size htab \<and> ht_used htab 0 = USED_FREE \<and>
     (\<forall>i\<in>{1..ht_n htab}. wf_slot htab i) \<and> inj_on (ht_key htab) (live_slots htab) \<and>
     unat (ht_filled htab) = card (live_slots htab)"

lemma hash_first_range:
  assumes "wf_size htab"
  shows "1 \<le> unat (hash_first htab key)" "unat (hash_first htab key) < ht_n htab"
proof -
  let ?x = "hash_string key mod ht_size htab"
  have n: "5 \<le> unat (ht_size htab)" using assms by (simp add: wf_size_def ht_n_def)
  then have "unat ?x < unat (ht_size htab)" by (simp add: unat_mod)
  moreover have "?x \<noteq> 0 \<Longrightarrow> 1 \<le> unat ?x" by (simp add: Suc_le_eq unat_gt_0)
  ultimately show "1 \<le> unat (hash_first htab key)" "unat (hash_first htab key) < ht_n htab"
    using n by (auto simp: hash_first_def ht_n_def Let_def)
qed

lemma key_slot_range: "wf_size htab \<Longrightarrow> 1 \<le> key_slot htab key j \<and> key_slot htab key j \<le> ht_n htab"
  using probe_range [of "ht_n htab"] by (simp add: key_slot_def Let_def wf_size_def)

lemma hash_second_range:
  assumes "wf_size htab"
  shows "0 < 1 + h mod (ht_n htab - 2)" "1 + h mod (ht_n htab - 2) < ht_n htab"
proof -
  have "5 \<le> ht_n htab" using assms by (simp add: wf_size_def)
  then have "h mod (ht_n htab - 2) < ht_n htab - 2" by simp
  with \<open>5 \<le> ht_n htab\<close> show "1 + h mod (ht_n htab - 2) < ht_n htab" by linarith
qed simp

lemma key_slot_0: "wf_size htab \<Longrightarrow> key_slot htab key 0 = unat (hash_first htab key)"
  using hash_first_range [of htab key] by (simp add: key_slot_def Let_def probe_0)

lemma key_slot_n: "wf_size htab \<Longrightarrow> key_slot htab key (ht_n htab) = unat (hash_first htab key)"
  using hash_first_range [of htab key] by (simp add: key_slot_def Let_def probe_n)

lemma key_slot_inj:
  "wf_size htab \<Longrightarrow> i < ht_n htab \<Longrightarrow> j < ht_n htab \<Longrightarrow> key_slot htab key i = key_slot htab key j \<Longrightarrow> i = j"
  using hash_second_range [of htab "unat (hash_first htab key)"]
  by (auto simp: key_slot_def Let_def wf_size_def intro: probe_inj)

lemma key_slot_covers:
  assumes "wf_size htab" "1 \<le> i" "i \<le> ht_n htab"
  obtains j where "j < ht_n htab" "key_slot htab key j = i"
  using probe_covers [of "ht_n htab" "1 + unat (hash_first htab key) mod (ht_n htab - 2)" i
      "unat (hash_first htab key)"] hash_second_range [of htab "unat (hash_first htab key)"] assms that
  by (auto simp: key_slot_def Let_def wf_size_def)

lemma key_slot_Suc:
  assumes "wf_size htab"
  shows "key_slot htab key (Suc j) =
    (let h2 = 1 + unat (hash_first htab key) mod (ht_n htab - 2); p = key_slot htab key j
     in if p \<le> h2 then ht_n htab + p - h2 else p - h2)"
  using probe_Suc [OF hash_second_range [OF assms, of "unat (hash_first htab key)"]]
  by (simp add: key_slot_def Let_def)

text \<open>The step of the loop in machine words.\<close>

lemma hash_second_word:
  assumes "wf_size htab"
  shows "unat (1 + hash_first htab key mod (ht_size htab - 2)) =
    1 + unat (hash_first htab key) mod (ht_n htab - 2)"
proof -
  have n: "5 \<le> unat (ht_size htab)" "unat (ht_size htab) < 2 ^ 31"
    using assms by (simp_all add: wf_size_def ht_n_def)
  then have "2 \<le> ht_size htab" by (simp add: word_le_nat_alt)
  then have "unat (ht_size htab - 2) = unat (ht_size htab) - 2" by (simp add: unat_sub)
  then have m: "unat (hash_first htab key mod (ht_size htab - 2)) = unat (hash_first htab key) mod (ht_n htab - 2)"
    by (simp add: unat_mod ht_n_def)
  have "unat (hash_first htab key) mod (ht_n htab - 2) < ht_n htab"
    using hash_second_range(2) [OF assms, of "unat (hash_first htab key)"] by linarith
  then have "unat (1 :: u32) + unat (hash_first htab key mod (ht_size htab - 2)) < 2 ^ LENGTH(32)"
    using m n by (simp add: ht_n_def)
  then show ?thesis using m by (subst unat_add_lem [THEN iffD1]) simp_all
qed

lemma step_word:
  fixes sz idx h2 :: u32
  assumes "unat sz < 2 ^ 31" "1 \<le> unat idx" "unat idx \<le> unat sz" "unat h2 < unat sz"
  shows "unat (if idx \<le> h2 then sz + idx - h2 else idx - h2) =
    (if unat idx \<le> unat h2 then unat sz + unat idx - unat h2 else unat idx - unat h2)"
proof (cases "idx \<le> h2")
  case True
  have a: "unat (sz + idx) = unat sz + unat idx"
    using assms by (subst unat_add_lem [THEN iffD1]) simp_all
  then have "h2 \<le> sz + idx" using assms by (simp add: word_le_nat_alt)
  then show ?thesis using True a by (simp add: unat_sub word_le_nat_alt)
next
  case False
  then have "h2 \<le> idx" by simp
  then show ?thesis using False by (simp add: unat_sub word_le_nat_alt)
qed

definition slot_word :: "hsearch_data \<Rightarrow> cstr \<Rightarrow> nat \<Rightarrow> u32" where
  "slot_word htab key j = of_nat (key_slot htab key j)"

lemma unat_slot_word: "wf_size htab \<Longrightarrow> unat (slot_word htab key j) = key_slot htab key j"
  using key_slot_range [of htab key j] by (simp add: slot_word_def wf_size_def unat_of_nat take_bit_nat_eq_self)

lemma slot_word_step:
  assumes "wf_size htab"
  shows "(let h2 = 1 + hash_first htab key mod (ht_size htab - 2); p = slot_word htab key j
     in if p \<le> h2 then ht_size htab + p - h2 else p - h2) = slot_word htab key (Suc j)"
proof -
  have "unat (1 + hash_first htab key mod (ht_size htab - 2)) < unat (ht_size htab)"
    using hash_second_word [OF assms] hash_second_range [OF assms] by (simp add: ht_n_def)
  then show ?thesis
    using key_slot_range [OF assms, of key j] assms key_slot_Suc [OF assms, of key j]
      step_word [of "ht_size htab" "slot_word htab key j" "1 + hash_first htab key mod (ht_size htab - 2)"]
    by (intro word_unat_eq_iff [THEN iffD2])
      (simp add: Let_def unat_slot_word hash_second_word wf_size_def ht_n_def)
qed

section \<open>Where the search ends\<close>

definition holds_key :: "hsearch_data \<Rightarrow> cstr \<Rightarrow> nat \<Rightarrow> bool" where
  "holds_key htab key i \<longleftrightarrow> ht_used htab i > 0 \<and> ht_key htab i = Some key"

fun first_del :: "hsearch_data \<Rightarrow> cstr \<Rightarrow> nat \<Rightarrow> u32" where
  "first_del htab key 0 = (if ht_used htab (key_slot htab key 0) = USED_DELETED then slot_word htab key 0 else 0)"
| "first_del htab key (Suc j) =
     (if ht_used htab (key_slot htab key (Suc j)) = USED_DELETED \<and> first_del htab key j = 0
      then slot_word htab key (Suc j) else first_del htab key j)"

lemma slot_word_0: "wf_size htab \<Longrightarrow> slot_word htab key 0 = hash_first htab key"
  by (intro word_unat_eq_iff [THEN iffD2]) (simp add: unat_slot_word key_slot_0)

lemma slot_word_n: "wf_size htab \<Longrightarrow> slot_word htab key (ht_n htab) = hash_first htab key"
  by (intro word_unat_eq_iff [THEN iffD2]) (simp add: unat_slot_word key_slot_n)

lemma slot_word_not_0: "wf_size htab \<Longrightarrow> slot_word htab key j \<noteq> 0"
  using unat_slot_word [of htab key j] key_slot_range [of htab key j] by auto

lemma slot_word_not_first:
  assumes "wf_size htab" "Suc j < ht_n htab"
  shows "slot_word htab key (Suc j) \<noteq> hash_first htab key"
proof
  assume "slot_word htab key (Suc j) = hash_first htab key"
  then have "key_slot htab key (Suc j) = key_slot htab key 0"
    using assms by (metis unat_slot_word slot_word_0)
  then show False using key_slot_inj [of htab "Suc j" 0 key] assms by simp
qed

lemma first_del_cases:
  assumes "wf_size htab"
  shows "(first_del htab key j = 0 \<and> (\<forall>l\<le>j. ht_used htab (key_slot htab key l) \<noteq> USED_DELETED)) \<or>
    (\<exists>l\<le>j. first_del htab key j = slot_word htab key l \<and> ht_used htab (key_slot htab key l) = USED_DELETED)"
proof (induction j)
  case (Suc j)
  then show ?case by (auto simp: le_Suc_eq)
qed (simp add: slot_word_not_0 [OF assms])

lemma sint_small:
  fixes w :: u32
  assumes "unat w < 2 ^ 31"
  shows "sint w = int (unat w)"
proof -
  have "int (unat w) < int (2 ^ 31)" using assms by (simp only: of_nat_less_iff)
  then have "uint w < 2 ^ 31" by simp
  moreover have "- (2 ^ 31) \<le> uint w" by (rule order_trans [OF _ uint_ge_0]) simp
  ultimately have "sint w = uint w" by (simp add: sint_uint signed_take_bit_int_eq_self)
  then show ?thesis by simp
qed

lemma sint_hash_first:
  assumes "wf_size htab"
  shows "sint (hash_first htab key) = uint (hash_first htab key)" "0 < sint (hash_first htab key)"
proof -
  have h: "1 \<le> unat (hash_first htab key)" "unat (hash_first htab key) < 2 ^ 31"
    using hash_first_range [OF assms, of key] assms by (simp_all add: wf_size_def)
  then have "int 0 < int (unat (hash_first htab key))" by (simp only: of_nat_less_iff)
  then show "sint (hash_first htab key) = uint (hash_first htab key)" "0 < sint (hash_first htab key)"
    using sint_small [OF h(2)] by simp_all
qed

lemma wf_htab_size: "wf_htab htab \<Longrightarrow> wf_size htab"
  by (simp add: wf_htab_def)

lemma wf_htab_slot: "wf_htab htab \<Longrightarrow> 1 \<le> i \<Longrightarrow> i \<le> ht_n htab \<Longrightarrow> wf_slot htab i"
  by (simp add: wf_htab_def)

lemma wf_slot_not_live: "wf_slot htab i \<Longrightarrow> wf_size htab \<Longrightarrow> \<not> ht_used htab i > 0 \<Longrightarrow> ht_used htab i = USED_FREE \<or> ht_used htab i = USED_DELETED"
  using sint_hash_first(2) unfolding wf_slot_def by metis

lemma wf_slot_live:
  assumes "wf_slot htab i" "ht_used htab i > 0"
  obtains key v where "ht_key htab i = Some key" "ht_data htab i = Some v"
    "ht_used htab i = sint (hash_first htab key)" "on_path htab key i"
  using assms by (auto simp: wf_slot_def USED_FREE_def USED_DELETED_def)

text \<open>In a well-formed table the quick comparison of the hash values changes nothing.\<close>

lemma matches_iff:
  assumes "wf_htab htab" "1 \<le> unat idx" "unat idx \<le> ht_n htab"
  shows "(word_of_int (en_used (ht_node htab idx)) = hash_first htab key \<and>
    ee_key (en_entry (ht_node htab idx)) = Some key) \<longleftrightarrow> holds_key htab key (unat idx)"
proof -
  have ws: "wf_slot htab (unat idx)" using assms by (simp add: wf_htab_slot)
  have n: "hash_first htab key \<noteq> 0" "hash_first htab key \<noteq> - 1"
  proof -
    show "hash_first htab key \<noteq> 0" using hash_first_range [OF wf_htab_size [OF assms(1)], of key] by auto
    show "hash_first htab key \<noteq> - 1"
    proof
      assume "hash_first htab key = - 1"
      then have "sint (hash_first htab key) = - 1" by simp
      then show False using sint_hash_first(2) [OF wf_htab_size [OF assms(1)], of key] by simp
    qed
  qed
  show ?thesis
  proof (cases "ht_used htab (unat idx) > 0")
    case True
    from ws True obtain k v where "ht_key htab (unat idx) = Some k" "ht_used htab (unat idx) = sint (hash_first htab k)"
      by (rule wf_slot_live)
    then show ?thesis using True by (auto simp: holds_key_def ht_node_def ht_used_def ht_key_def)
  next
    case False
    then show ?thesis using wf_slot_not_live [OF ws wf_htab_size [OF assms(1)]] n
      by (auto simp: holds_key_def ht_node_def ht_used_def USED_FREE_def USED_DELETED_def)
  qed
qed

lemma compare_miss:
  assumes "wf_htab htab" "1 \<le> unat idx" "unat idx \<le> ht_n htab"
    "\<not> holds_key htab key (unat idx)"
  shows "fst (compare_and_overwrite_entry hooks key data action htab flag (hash_first htab key) idx) = - 1"
  using matches_iff [OF assms(1-3), of key] assms(4)
  by (simp only: compare_and_overwrite_entry_def Let_def if_False fst_conv)

lemma compare_hit:
  assumes "wf_htab htab" "1 \<le> unat idx" "unat idx \<le> ht_n htab" "holds_key htab key (unat idx)"
  shows "fst (compare_and_overwrite_entry hooks key data action htab flag (hash_first htab key) idx) \<noteq> - 1"
proof -
  have "sint idx = int (unat idx)"
    using assms(1,3) by (intro sint_small) (simp add: wf_htab_def wf_size_def)
  then have "0 \<le> sint idx" by (simp only: of_nat_0_le_iff)
  then have "sint idx \<noteq> - 1" by linarith
  then show ?thesis using matches_iff [OF assms(1-3), of key] assms(4)
    by (simp only: compare_and_overwrite_entry_def Let_def if_True)
      (simp split: env_action.splits option.splits)
qed

lemma hsearch_loop_step:
  assumes "wf_htab htab" "Suc j < ht_n htab" "\<not> holds_key htab key (key_slot htab key (Suc j))"
    "ht_used htab (key_slot htab key (Suc j)) \<noteq> USED_FREE"
  shows "hsearch_loop hooks key data action htab flag (hash_first htab key)
      (1 + hash_first htab key mod (ht_size htab - 2)) (slot_word htab key j) (first_del htab key j) =
    hsearch_loop hooks key data action htab flag (hash_first htab key)
      (1 + hash_first htab key mod (ht_size htab - 2)) (slot_word htab key (Suc j)) (first_del htab key (Suc j))"
proof -
  note ws = wf_htab_size [OF assms(1)]
  have "fst (compare_and_overwrite_entry hooks key data action htab flag (hash_first htab key)
      (slot_word htab key (Suc j))) = - 1"
    using compare_miss [OF assms(1), of "slot_word htab key (Suc j)" key] assms(3) key_slot_range [OF ws]
    by (simp add: unat_slot_word [OF ws])
  moreover have "en_used (ht_node htab (slot_word htab key (Suc j))) = ht_used htab (key_slot htab key (Suc j))"
    by (simp add: ht_node_def ht_used_def unat_slot_word [OF ws])
  ultimately show ?thesis
    using slot_word_step [OF ws, of key j] slot_word_not_first [OF ws assms(2)] assms(4)
    by (subst hsearch_loop.simps) (simp add: Let_def)
qed

lemma hsearch_loop_steps:
  assumes "wf_htab htab" "j < ht_n htab"
    "\<forall>l\<le>j. \<not> holds_key htab key (key_slot htab key l) \<and> ht_used htab (key_slot htab key l) \<noteq> USED_FREE"
  shows "hsearch_probe hooks key data action htab flag =
    hsearch_loop hooks key data action htab flag (hash_first htab key)
      (1 + hash_first htab key mod (ht_size htab - 2)) (slot_word htab key j) (first_del htab key j)"
  using assms(2,3)
proof (induction j)
  case 0
  note ws = wf_htab_size [OF assms(1)]
  have "fst (compare_and_overwrite_entry hooks key data action htab flag (hash_first htab key)
      (slot_word htab key 0)) = - 1"
    using compare_miss [OF assms(1), of "slot_word htab key 0" key] 0 key_slot_range [OF ws]
    by (simp add: unat_slot_word [OF ws])
  moreover have "en_used (ht_node htab (slot_word htab key 0)) = ht_used htab (key_slot htab key 0)"
    by (simp add: ht_node_def ht_used_def unat_slot_word [OF ws])
  ultimately show ?case using 0
    by (simp add: hsearch_probe_def Let_def slot_word_0 [OF ws] USED_FREE_def)
next
  case (Suc j)
  then show ?case using hsearch_loop_step [OF assms(1), of j key] by simp
qed

lemma holds_key_unique:
  assumes "wf_htab htab" "holds_key htab key i" "holds_key htab key i'"
    "i \<in> {1..ht_n htab}" "i' \<in> {1..ht_n htab}"
  shows "i = i'"
  using assms by (auto simp: wf_htab_def holds_key_def live_slots_def inj_on_def)

lemma hsearch_probe_first_hit:
  assumes "wf_htab htab" "holds_key htab key (key_slot htab key 0)"
  shows "hsearch_probe hooks key data action htab flag =
    Some (ProbeDone (compare_and_overwrite_entry hooks key data action htab flag (hash_first htab key) (slot_word htab key 0)))"
proof -
  note ws = wf_htab_size [OF assms(1)]
  have "fst (compare_and_overwrite_entry hooks key data action htab flag (hash_first htab key) (slot_word htab key 0)) \<noteq> - 1"
    using compare_hit [OF assms(1), of "slot_word htab key 0" key] assms(2) key_slot_range [OF ws]
    by (simp add: unat_slot_word [OF ws])
  moreover have "en_used (ht_node htab (slot_word htab key 0)) \<noteq> 0"
    using assms(2) by (auto simp: ht_node_def holds_key_def ht_used_def unat_slot_word [OF ws])
  ultimately show ?thesis by (simp add: hsearch_probe_def Let_def slot_word_0 [OF ws])
qed

lemma hsearch_loop_hit:
  assumes "wf_htab htab" "Suc j < ht_n htab" "holds_key htab key (key_slot htab key (Suc j))"
  shows "hsearch_loop hooks key data action htab flag (hash_first htab key)
      (1 + hash_first htab key mod (ht_size htab - 2)) (slot_word htab key j) fd =
    Some (ProbeDone (compare_and_overwrite_entry hooks key data action htab flag (hash_first htab key) (slot_word htab key (Suc j))))"
proof -
  note ws = wf_htab_size [OF assms(1)]
  have "fst (compare_and_overwrite_entry hooks key data action htab flag (hash_first htab key) (slot_word htab key (Suc j))) \<noteq> - 1"
    using compare_hit [OF assms(1), of "slot_word htab key (Suc j)" key] assms(3) key_slot_range [OF ws]
    by (simp add: unat_slot_word [OF ws])
  then show ?thesis using slot_word_step [OF ws, of key j] slot_word_not_first [OF ws assms(2)]
    by (subst hsearch_loop.simps) (simp add: Let_def)
qed

lemma hsearch_probe_found:
  assumes "wf_htab htab" "holds_key htab key i" "i \<in> {1..ht_n htab}"
  shows "hsearch_probe hooks key data action htab flag =
    Some (ProbeDone (compare_and_overwrite_entry hooks key data action htab flag (hash_first htab key) (of_nat i)))"
proof -
  note ws = wf_htab_size [OF assms(1)]
  have "wf_slot htab i" "ht_used htab i > 0" using assms by (simp_all add: wf_htab_slot holds_key_def)
  then obtain k v where "ht_key htab i = Some k" "on_path htab k i" by (rule wf_slot_live)
  then have "on_path htab key i" using assms(2) by (simp add: holds_key_def)
  then obtain j where j: "j < ht_n htab" "key_slot htab key j = i"
      "\<forall>l<j. ht_used htab (key_slot htab key l) \<noteq> USED_FREE"
    by (auto simp: on_path_def)
  have miss: "\<not> holds_key htab key (key_slot htab key l)" if l: "l < j" for l
  proof
    assume "holds_key htab key (key_slot htab key l)"
    then have "key_slot htab key l = i"
      using holds_key_unique [OF assms(1)] assms(2,3) key_slot_range [OF ws, of key l] by simp
    then show False using key_slot_inj [OF ws, of l j key] j l by simp
  qed
  have w: "slot_word htab key j = of_nat i" using j(2) by (simp add: slot_word_def)
  show ?thesis
  proof (cases j)
    case 0
    then show ?thesis using hsearch_probe_first_hit [OF assms(1), of key] assms(2) j(2) w by simp
  next
    case (Suc m)
    then have "hsearch_probe hooks key data action htab flag =
      hsearch_loop hooks key data action htab flag (hash_first htab key)
        (1 + hash_first htab key mod (ht_size htab - 2)) (slot_word htab key m) (first_del htab key m)"
      using j miss by (intro hsearch_loop_steps [OF assms(1)]) auto
    then show ?thesis using hsearch_loop_hit [OF assms(1), of m key] Suc j assms(2) w by simp
  qed
qed

lemma hsearch_loop_free:
  assumes "wf_htab htab" "Suc j < ht_n htab" "ht_used htab (key_slot htab key (Suc j)) = USED_FREE"
  shows "hsearch_loop hooks key data action htab flag (hash_first htab key)
      (1 + hash_first htab key mod (ht_size htab - 2)) (slot_word htab key j) fd =
    Some (ProbeStop (slot_word htab key (Suc j)) fd)"
proof -
  note ws = wf_htab_size [OF assms(1)]
  have "\<not> holds_key htab key (key_slot htab key (Suc j))" using assms(3) by (simp add: holds_key_def USED_FREE_def)
  then have "fst (compare_and_overwrite_entry hooks key data action htab flag (hash_first htab key) (slot_word htab key (Suc j))) = - 1"
    using compare_miss [OF assms(1), of "slot_word htab key (Suc j)" key] key_slot_range [OF ws]
    by (simp add: unat_slot_word [OF ws])
  moreover have "en_used (ht_node htab (slot_word htab key (Suc j))) = USED_FREE"
    using assms(3) by (simp add: ht_node_def ht_used_def unat_slot_word [OF ws])
  ultimately show ?thesis
    using slot_word_step [OF ws, of key j] slot_word_not_first [OF ws assms(2)]
    by (subst hsearch_loop.simps) (simp add: Let_def USED_FREE_def USED_DELETED_def)
qed

lemma hsearch_loop_round:
  assumes "wf_htab htab" "Suc j = ht_n htab"
  shows "hsearch_loop hooks key data action htab flag (hash_first htab key)
      (1 + hash_first htab key mod (ht_size htab - 2)) (slot_word htab key j) fd =
    Some (ProbeStop (hash_first htab key) fd)"
  using slot_word_step [OF wf_htab_size [OF assms(1)], of key j] slot_word_n [OF wf_htab_size [OF assms(1)], of key] assms(2)
  by (subst hsearch_loop.simps) (simp add: Let_def)

text \<open>
  When the key is not in the table, the slot a new entry would take is on the key's path and holds
  nothing, unless every slot holds an entry.
\<close>

definition good_stop :: "hsearch_data \<Rightarrow> cstr \<Rightarrow> u32 \<Rightarrow> u32 \<Rightarrow> bool" where
  "good_stop htab key idx fd \<longleftrightarrow>
     (let s = unat (if fd \<noteq> 0 then fd else idx)
      in s \<in> {1..ht_n htab} \<and> (on_path htab key s \<and> ht_used htab s \<le> 0 \<or> live_slots htab = {1..ht_n htab}))"

lemma good_stop_deleted:
  assumes "wf_size htab" "fd = slot_word htab key l" "l < ht_n htab"
    "ht_used htab (key_slot htab key l) = USED_DELETED"
    "\<forall>m<l. ht_used htab (key_slot htab key m) \<noteq> USED_FREE"
  shows "good_stop htab key idx fd"
  using assms key_slot_range [of htab key l] slot_word_not_0 [of htab key l]
  by (auto simp: good_stop_def Let_def unat_slot_word on_path_def USED_DELETED_def)

lemma good_stop_free:
  assumes "wf_size htab" "l < ht_n htab" "ht_used htab (key_slot htab key l) = USED_FREE"
    "\<forall>m<l. ht_used htab (key_slot htab key m) \<noteq> USED_FREE"
  shows "good_stop htab key (slot_word htab key l) 0"
  using assms key_slot_range [of htab key l]
  by (auto simp: good_stop_def Let_def unat_slot_word on_path_def USED_FREE_def)

lemma hsearch_probe_absent_free:
  assumes "wf_htab htab" "J < ht_n htab" "ht_used htab (key_slot htab key J) = USED_FREE"
    "\<forall>l<J. \<not> holds_key htab key (key_slot htab key l) \<and> ht_used htab (key_slot htab key l) \<noteq> USED_FREE"
  shows "\<exists>idx fd. hsearch_probe hooks key data action htab flag = Some (ProbeStop idx fd) \<and> good_stop htab key idx fd"
proof (cases J)
  case 0
  note ws = wf_htab_size [OF assms(1)]
  have "en_used (ht_node htab (hash_first htab key)) = 0"
    using assms(3) 0 by (simp add: ht_node_def ht_used_def key_slot_0 [OF ws] USED_FREE_def)
  then have "hsearch_probe hooks key data action htab flag = Some (ProbeStop (slot_word htab key 0) 0)"
    by (simp add: hsearch_probe_def Let_def slot_word_0 [OF ws])
  then show ?thesis using good_stop_free [OF ws, of 0 key] assms 0 by auto
next
  case (Suc m)
  note ws = wf_htab_size [OF assms(1)]
  have "hsearch_probe hooks key data action htab flag = Some (ProbeStop (slot_word htab key J) (first_del htab key m))"
    using hsearch_loop_steps [OF assms(1), of m key] hsearch_loop_free [OF assms(1), of m key] assms(2-4) Suc
    by (simp add: less_Suc_eq_le)
  moreover have "good_stop htab key (slot_word htab key J) (first_del htab key m)"
    using first_del_cases [OF ws, of key m]
  proof (elim disjE exE conjE)
    assume "first_del htab key m = 0"
    then show ?thesis using good_stop_free [OF ws assms(2,3)] assms(4) by simp
  next
    fix l assume "l \<le> m" "first_del htab key m = slot_word htab key l" "ht_used htab (key_slot htab key l) = USED_DELETED"
    then show ?thesis using assms(2,4) Suc by (intro good_stop_deleted [OF ws, where l = l]) auto
  qed
  ultimately show ?thesis by blast
qed

lemma hsearch_probe_absent_full:
  assumes "wf_htab htab"
    "\<forall>l<ht_n htab. \<not> holds_key htab key (key_slot htab key l) \<and> ht_used htab (key_slot htab key l) \<noteq> USED_FREE"
  shows "\<exists>idx fd. hsearch_probe hooks key data action htab flag = Some (ProbeStop idx fd) \<and> good_stop htab key idx fd"
proof -
  note ws = wf_htab_size [OF assms(1)]
  define m where "m = ht_n htab - 1"
  have m: "Suc m = ht_n htab" using ws by (simp add: m_def wf_size_def)
  have "hsearch_probe hooks key data action htab flag = Some (ProbeStop (hash_first htab key) (first_del htab key m))"
    using hsearch_loop_steps [OF assms(1), of m key] hsearch_loop_round [OF assms(1) m] assms(2) m
    by (simp add: less_Suc_eq_le [symmetric])
  moreover have "good_stop htab key (hash_first htab key) (first_del htab key m)"
    using first_del_cases [OF ws, of key m]
  proof (elim disjE exE conjE)
    assume z: "first_del htab key m = 0" "\<forall>l\<le>m. ht_used htab (key_slot htab key l) \<noteq> USED_DELETED"
    have "ht_used htab i > 0" if i: "i \<in> {1..ht_n htab}" for i
    proof -
      from i have "1 \<le> i" "i \<le> ht_n htab" by simp_all
      then obtain l where "l < ht_n htab" "key_slot htab key l = i" by (rule key_slot_covers [OF ws, of i key])
      then show ?thesis using z(2) assms(2) m wf_slot_not_live [OF wf_htab_slot [OF assms(1)] ws, of i] i
        by (metis atLeastAtMost_iff less_Suc_eq_le)
    qed
    then have "live_slots htab = {1..ht_n htab}" by (auto simp: live_slots_def)
    then show ?thesis using z hash_first_range [OF ws, of key] by (simp add: good_stop_def Let_def)
  next
    fix l assume "l \<le> m" "first_del htab key m = slot_word htab key l" "ht_used htab (key_slot htab key l) = USED_DELETED"
    then show ?thesis using assms(2) m by (intro good_stop_deleted [OF ws, where l = l]) auto
  qed
  ultimately show ?thesis by blast
qed

lemma hsearch_probe_absent:
  assumes "wf_htab htab" "\<forall>i\<in>{1..ht_n htab}. \<not> holds_key htab key i"
  obtains idx fd where "hsearch_probe hooks key data action htab flag = Some (ProbeStop idx fd)"
    "good_stop htab key idx fd"
proof -
  let ?P = "\<lambda>J. J < ht_n htab \<and> ht_used htab (key_slot htab key J) = USED_FREE"
  have nh: "\<not> holds_key htab key (key_slot htab key l)" for l
    using assms key_slot_range [OF wf_htab_size [OF assms(1)], of key l] by simp
  have "\<exists>idx fd. hsearch_probe hooks key data action htab flag = Some (ProbeStop idx fd) \<and> good_stop htab key idx fd"
  proof (cases "\<exists>J. ?P J")
    case True
    then have "\<exists>J. ?P J \<and> (\<forall>l<J. \<not> ?P l)" by (simp only: exists_least_iff [of ?P])
    then obtain J where J: "?P J" "\<forall>l<J. \<not> ?P l" by (elim exE conjE) simp
    from J have "\<forall>l<J. ht_used htab (key_slot htab key l) \<noteq> USED_FREE" by (auto intro: less_trans)
    then show ?thesis using J(1) nh by (intro hsearch_probe_absent_free [OF assms(1), where J = J]) simp_all
  next
    case False
    then show ?thesis using nh by (intro hsearch_probe_absent_full [OF assms(1)]) auto
  qed
  then show thesis using that by blast
qed

end
