(* ===== verification/Hashtable_Map.thy ===== *)
theory Hashtable_Map
  imports Hashtable_Probe
begin

text \<open>
  The hash table as a finite map: what a table maps a key to, and what writing one slot does to the
  invariant and to that map.
\<close>

section \<open>The map of a table\<close>

definition ht_map :: "hsearch_data \<Rightarrow> cstr \<Rightarrow> cstr option" where
  "ht_map htab key =
     (case find (\<lambda>node. en_used node > 0 \<and> ee_key (en_entry node) = Some key) (the (ht_table htab)) of
        None \<Rightarrow> None
      | Some node \<Rightarrow> ee_data (en_entry node))"

lemma wf_htab_length: "wf_htab htab \<Longrightarrow> length (the (ht_table htab)) = Suc (ht_n htab)"
  by (auto simp: wf_htab_def wf_size_def)

lemma holds_key_range: "wf_htab htab \<Longrightarrow> holds_key htab key i \<Longrightarrow> i < Suc (ht_n htab) \<Longrightarrow> i \<in> {1..ht_n htab}"
  by (cases i) (auto simp: wf_htab_def holds_key_def USED_FREE_def)

lemma ht_map_holds:
  assumes "wf_htab htab" "holds_key htab key i" "i \<in> {1..ht_n htab}"
  shows "ht_map htab key = ht_data htab i"
proof -
  let ?P = "\<lambda>node. en_used node > 0 \<and> ee_key (en_entry node) = Some key"
  let ?tab = "the (ht_table htab)"
  have i: "i < length ?tab" using assms wf_htab_length by simp
  have "\<not> (\<exists>j<i. ?P (?tab ! j))"
  proof
    assume "\<exists>j<i. ?P (?tab ! j)"
    then obtain j where "j < i" "holds_key htab key j" by (auto simp: holds_key_def ht_used_def ht_key_def)
    moreover have "j \<in> {1..ht_n htab}" using holds_key_range [OF assms(1)] assms(3) calculation by simp
    ultimately show False using holds_key_unique [OF assms(1)] assms(2,3) by blast
  qed
  then have "find ?P ?tab = Some (?tab ! i)"
    using i assms(2) by (auto simp: find_Some_iff holds_key_def ht_used_def ht_key_def)
  then show ?thesis by (simp add: ht_map_def ht_data_def)
qed

lemma ht_map_absent:
  assumes "wf_htab htab" "\<forall>i\<in>{1..ht_n htab}. \<not> holds_key htab key i"
  shows "ht_map htab key = None"
proof -
  have "find (\<lambda>node. en_used node > 0 \<and> ee_key (en_entry node) = Some key) (the (ht_table htab)) = None"
    unfolding find_None_iff
  proof (rule notI, elim bexE exE conjE)
    fix node assume "node \<in> set (the (ht_table htab))" "en_used node > 0" "ee_key (en_entry node) = Some key"
    then obtain i where "i < Suc (ht_n htab)" "holds_key htab key i"
      using wf_htab_length [OF assms(1)] by (auto simp: in_set_conv_nth holds_key_def ht_used_def ht_key_def)
    then show False using holds_key_range [OF assms(1)] assms(2) by blast
  qed
  then show ?thesis by (simp add: ht_map_def)
qed

lemma live_data:
  assumes "wf_htab htab" "holds_key htab key i" "i \<in> {1..ht_n htab}"
  obtains v where "ht_data htab i = Some v"
proof -
  have "wf_slot htab i" "ht_used htab i > 0" using assms by (simp_all add: wf_htab_slot holds_key_def)
  then obtain k v where "ht_data htab i = Some v" by (rule wf_slot_live)
  then show thesis by (rule that)
qed

lemma ht_map_None_iff:
  assumes "wf_htab htab"
  shows "ht_map htab key = None \<longleftrightarrow> (\<forall>i\<in>{1..ht_n htab}. \<not> holds_key htab key i)"
proof
  assume none: "ht_map htab key = None"
  show "\<forall>i\<in>{1..ht_n htab}. \<not> holds_key htab key i"
  proof (intro ballI notI)
    fix i assume i: "i \<in> {1..ht_n htab}" "holds_key htab key i"
    obtain v where "ht_data htab i = Some v" by (rule live_data [OF assms i(2,1)])
    then show False using ht_map_holds [OF assms i(2,1)] none by simp
  qed
qed (rule ht_map_absent [OF assms])

lemma ht_map_Some:
  assumes "wf_htab htab" "ht_map htab key = Some v"
  obtains i where "i \<in> {1..ht_n htab}" "holds_key htab key i" "ht_data htab i = Some v"
  using assms(2) ht_map_None_iff [OF assms(1), of key] ht_map_holds [OF assms(1)] that
  by (metis option.distinct(1))

section \<open>Writing one slot\<close>

definition put_node :: "hsearch_data \<Rightarrow> nat \<Rightarrow> env_entry_node \<Rightarrow> u32 \<Rightarrow> hsearch_data" where
  "put_node htab i node f = htab\<lparr>ht_table := Some ((the (ht_table htab))[i := node]), ht_filled := f\<rparr>"

lemma put_node_size [simp]:
  "ht_size (put_node htab i node f) = ht_size htab" "ht_n (put_node htab i node f) = ht_n htab"
  "ht_change_ok (put_node htab i node f) = ht_change_ok htab" "ht_filled (put_node htab i node f) = f"
  "hash_first (put_node htab i node f) = hash_first htab" "key_slot (put_node htab i node f) = key_slot htab"
  by (simp_all add: put_node_def ht_n_def hash_first_def key_slot_def fun_eq_iff)

lemma put_node_nth:
  assumes "wf_htab htab" "i \<in> {1..ht_n htab}"
  shows "the (ht_table (put_node htab i node f)) ! j = (if j = i then node else the (ht_table htab) ! j)"
  using assms wf_htab_length [OF assms(1)] by (auto simp: put_node_def nth_list_update)

lemma put_node_fields:
  assumes "wf_htab htab" "i \<in> {1..ht_n htab}"
  shows "ht_used (put_node htab i node f) j = (if j = i then en_used node else ht_used htab j)"
    "ht_key (put_node htab i node f) j = (if j = i then ee_key (en_entry node) else ht_key htab j)"
    "ht_data (put_node htab i node f) j = (if j = i then ee_data (en_entry node) else ht_data htab j)"
  using put_node_nth [OF assms] by (simp_all add: ht_used_def ht_key_def ht_data_def)

lemma put_node_wf_size: "wf_size htab \<Longrightarrow> wf_size (put_node htab i node f)"
  by (auto simp: wf_size_def put_node_def ht_n_def)

lemma put_node_put_node [simp]:
  "put_node (put_node htab i node f) i node' f' = put_node htab i node' f'"
  by (simp add: put_node_def)

lemma on_path_mono:
  assumes "on_path htab key i" "ht_size htab' = ht_size htab"
    "\<And>j. ht_used htab j \<noteq> USED_FREE \<Longrightarrow> ht_used htab' j \<noteq> USED_FREE"
  shows "on_path htab' key i"
proof -
  have "key_slot htab' = key_slot htab" "ht_n htab' = ht_n htab"
    using assms(2) by (simp_all add: key_slot_def hash_first_def ht_n_def fun_eq_iff)
  then show ?thesis using assms(1,3) unfolding on_path_def by metis
qed

lemma put_node_path:
  assumes "wf_htab htab" "i \<in> {1..ht_n htab}" "en_used node \<noteq> USED_FREE" "on_path htab key j"
  shows "on_path (put_node htab i node f) key j"
  using assms(3) by (intro on_path_mono [OF assms(4)]) (simp_all add: put_node_fields [OF assms(1,2)])

lemma put_node_other:
  assumes "wf_htab htab" "i \<in> {1..ht_n htab}" "en_used node \<noteq> USED_FREE" "j \<in> {1..ht_n htab}" "j \<noteq> i"
  shows "wf_slot (put_node htab i node f) j"
proof -
  have "wf_slot htab j" using assms by (simp add: wf_htab_slot)
  then show ?thesis using put_node_path [OF assms(1-3), of _ j f] assms(5)
    unfolding wf_slot_def by (simp add: put_node_fields [OF assms(1,2)]) blast
qed

lemma filled_le:
  assumes "wf_htab htab"
  shows "card (live_slots htab) \<le> ht_n htab" "finite (live_slots htab)" "ht_n htab < 2 ^ 31"
proof -
  have "live_slots htab \<subseteq> {1..ht_n htab}" by (auto simp: live_slots_def)
  then show "card (live_slots htab) \<le> ht_n htab" using card_mono [of "{1..ht_n htab}" "live_slots htab"] by simp
  show "finite (live_slots htab)" by (simp add: live_slots_def)
  show "ht_n htab < 2 ^ 31" using assms by (simp add: wf_htab_def wf_size_def)
qed

subsection \<open>Storing an entry\<close>

definition stores :: "hsearch_data \<Rightarrow> nat \<Rightarrow> env_entry_node \<Rightarrow> cstr \<Rightarrow> cstr \<Rightarrow> bool" where
  "stores htab i node key v \<longleftrightarrow> en_used node = sint (hash_first htab key) \<and>
     ee_key (en_entry node) = Some key \<and> ee_data (en_entry node) = Some v"

lemma stores_used: "wf_size htab \<Longrightarrow> stores htab i node key v \<Longrightarrow> en_used node > 0 \<and> en_used node \<noteq> USED_FREE"
  using sint_hash_first(2) [of htab key] by (auto simp: stores_def USED_FREE_def)

lemma put_entry_holds:
  assumes "wf_htab htab" "i \<in> {1..ht_n htab}" "stores htab i node key v"
  shows "holds_key (put_node htab i node f) k j \<longleftrightarrow> (if j = i then k = key else holds_key htab k j)"
  using stores_used [OF wf_htab_size [OF assms(1)] assms(3)] assms(3)
  by (auto simp: holds_key_def put_node_fields [OF assms(1,2)] stores_def)

lemma put_entry_live:
  assumes "wf_htab htab" "i \<in> {1..ht_n htab}" "stores htab i node key v"
  shows "live_slots (put_node htab i node f) = insert i (live_slots htab)"
  using stores_used [OF wf_htab_size [OF assms(1)] assms(3)] assms(2)
  by (auto simp: live_slots_def put_node_fields [OF assms(1,2)])

lemma put_entry_wf:
  assumes "wf_htab htab" "i \<in> {1..ht_n htab}" "stores htab i node key v" "on_path htab key i"
    "\<forall>j\<in>{1..ht_n htab}. j \<noteq> i \<longrightarrow> \<not> holds_key htab key j"
    "f = (if ht_used htab i > 0 then ht_filled htab else ht_filled htab + 1)"
  shows "wf_htab (put_node htab i node f)"
proof -
  let ?h = "put_node htab i node f"
  note used = stores_used [OF wf_htab_size [OF assms(1)] assms(3)]
  have slots: "\<forall>j\<in>{1..ht_n ?h}. wf_slot ?h j"
  proof
    fix j assume j: "j \<in> {1..ht_n ?h}"
    show "wf_slot ?h j"
    proof (cases "j = i")
      case True
      then show ?thesis using put_node_path [OF assms(1,2) _ assms(4), of node f] used assms(3)
        by (simp add: wf_slot_def put_node_fields [OF assms(1,2)] stores_def)
    next
      case False
      then show ?thesis using put_node_other [OF assms(1,2), of node j f] used j by simp
    qed
  qed
  have inj: "inj_on (ht_key ?h) (live_slots ?h)"
    unfolding put_entry_live [OF assms(1-3)]
  proof (rule inj_onI)
    fix a b assume ab: "a \<in> insert i (live_slots htab)" "b \<in> insert i (live_slots htab)" "ht_key ?h a = ht_key ?h b"
    have "inj_on (ht_key htab) (live_slots htab)" using assms(1) by (simp add: wf_htab_def)
    then show "a = b" using ab assms(3,5)
      by (auto simp: put_node_fields [OF assms(1,2)] stores_def live_slots_def holds_key_def inj_on_def split: if_splits)
  qed
  have "unat f = card (insert i (live_slots htab))"
  proof (cases "ht_used htab i > 0")
    case True
    then have "insert i (live_slots htab) = live_slots htab" using assms(2) by (auto simp: live_slots_def)
    then show ?thesis using True assms(1,6) by (simp add: wf_htab_def)
  next
    case False
    then have "i \<notin> live_slots htab" by (simp add: live_slots_def)
    moreover have "unat (ht_filled htab) = card (live_slots htab)" using assms(1) by (simp add: wf_htab_def)
    moreover have "unat (ht_filled htab + 1) = unat (ht_filled htab) + 1"
      using filled_le [OF assms(1)] calculation(2) by (subst unat_add_lem [THEN iffD1]) simp_all
    ultimately show ?thesis using False assms(6) filled_le(2) [OF assms(1)] by simp
  qed
  moreover have "ht_used ?h 0 = USED_FREE" using assms(1,2) by (simp add: put_node_fields [OF assms(1,2)] wf_htab_def)
  ultimately show ?thesis using slots inj assms(1) put_entry_live [OF assms(1-3), of f]
    by (simp add: wf_htab_def put_node_wf_size)
qed

lemma put_entry_map:
  assumes "wf_htab htab" "i \<in> {1..ht_n htab}" "stores htab i node key v"
    "wf_htab (put_node htab i node f)" "ht_used htab i > 0 \<Longrightarrow> ht_key htab i = Some key"
  shows "ht_map (put_node htab i node f) = (ht_map htab)(key \<mapsto> v)"
proof
  fix k
  let ?h = "put_node htab i node f"
  note holds = put_entry_holds [OF assms(1-3), of f]
  show "ht_map ?h k = ((ht_map htab)(key \<mapsto> v)) k"
  proof (cases "k = key")
    case True
    then have "ht_map ?h k = ht_data ?h i" using assms(2) holds by (intro ht_map_holds [OF assms(4)]) simp_all
    then show ?thesis using True assms(3) by (simp add: put_node_fields [OF assms(1,2)] stores_def)
  next
    case False
    show ?thesis
    proof (cases "ht_map htab k")
      case None
      then have "\<forall>j\<in>{1..ht_n ?h}. \<not> holds_key ?h k j"
        using False holds ht_map_None_iff [OF assms(1), of k] by simp
      then have "ht_map ?h k = None" using ht_map_None_iff [OF assms(4), of k] by blast
      then show ?thesis using None False by simp
    next
      case (Some w)
      obtain j where j: "j \<in> {1..ht_n htab}" "holds_key htab k j" "ht_data htab j = Some w"
        by (rule ht_map_Some [OF assms(1) Some])
      then have "j \<noteq> i" using False assms(5) by (auto simp: holds_key_def)
      then have "ht_map ?h k = ht_data ?h j" using j holds by (intro ht_map_holds [OF assms(4)]) simp_all
      then show ?thesis using j \<open>j \<noteq> i\<close> False Some by (simp add: put_node_fields [OF assms(1,2)])
    qed
  qed
qed

subsection \<open>Deleting an entry\<close>

lemma put_deleted_live:
  assumes "wf_htab htab" "i \<in> {1..ht_n htab}" "en_used node = USED_DELETED"
  shows "live_slots (put_node htab i node f) = live_slots htab - {i}"
  using assms(3) by (auto simp: live_slots_def put_node_fields [OF assms(1,2)] USED_DELETED_def)

lemma put_deleted_wf:
  assumes "wf_htab htab" "i \<in> {1..ht_n htab}" "en_used node = USED_DELETED" "ht_used htab i > 0"
    "f = ht_filled htab - 1"
  shows "wf_htab (put_node htab i node f)"
proof -
  let ?h = "put_node htab i node f"
  have nf: "en_used node \<noteq> USED_FREE" using assms(3) by (simp add: USED_DELETED_def USED_FREE_def)
  have "wf_slot ?h i" using assms(3) by (simp add: wf_slot_def put_node_fields [OF assms(1,2)])
  then have slots: "\<forall>j\<in>{1..ht_n ?h}. wf_slot ?h j"
    using put_node_other [OF assms(1,2) nf, of _ f] by (metis put_node_size(2))
  have "inj_on (ht_key htab) (live_slots htab)" using assms(1) by (simp add: wf_htab_def)
  then have inj: "inj_on (ht_key ?h) (live_slots ?h)"
    unfolding put_deleted_live [OF assms(1-3)] by (auto simp: inj_on_def put_node_fields [OF assms(1,2)])
  have live: "i \<in> live_slots htab" using assms(2,4) by (simp add: live_slots_def)
  have c: "unat (ht_filled htab) = card (live_slots htab)" using assms(1) by (simp add: wf_htab_def)
  then have "0 < unat (ht_filled htab)" using live filled_le(2) [OF assms(1)] by (auto simp: card_gt_0_iff)
  then have "1 \<le> ht_filled htab" by (simp add: word_le_nat_alt)
  then have "unat f = unat (ht_filled htab) - 1" using assms(5) by (simp add: unat_sub)
  then have "unat f = card (live_slots ?h)"
    using c live filled_le(2) [OF assms(1)] by (simp add: put_deleted_live [OF assms(1-3)])
  moreover have "ht_used ?h 0 = USED_FREE" using assms(1,2) by (simp add: put_node_fields [OF assms(1,2)] wf_htab_def)
  ultimately show ?thesis using slots inj assms(1) by (simp add: wf_htab_def put_node_wf_size)
qed

lemma put_deleted_map:
  assumes "wf_htab htab" "i \<in> {1..ht_n htab}" "en_used node = USED_DELETED" "holds_key htab key i"
    "wf_htab (put_node htab i node f)"
  shows "ht_map (put_node htab i node f) = (ht_map htab)(key := None)"
proof
  fix k
  let ?h = "put_node htab i node f"
  have holds: "holds_key ?h k' j \<longleftrightarrow> j \<noteq> i \<and> holds_key htab k' j" for k' j
    using assms(3) by (auto simp: holds_key_def put_node_fields [OF assms(1,2)] USED_DELETED_def)
  show "ht_map ?h k = ((ht_map htab)(key := None)) k"
  proof (cases "\<exists>j\<in>{1..ht_n htab}. j \<noteq> i \<and> holds_key htab k j")
    case True
    then obtain j where j: "j \<in> {1..ht_n htab}" "j \<noteq> i" "holds_key htab k j" by blast
    then have "k \<noteq> key" using holds_key_unique [OF assms(1)] assms(2,4) by blast
    then show ?thesis using j holds ht_map_holds [OF assms(5), of k j] ht_map_holds [OF assms(1), of k j]
      by (simp add: put_node_fields [OF assms(1,2)])
  next
    case False
    then have "ht_map ?h k = None" using holds ht_map_None_iff [OF assms(5)] by auto
    moreover have "ht_map htab k = None" if ne: "k \<noteq> key"
      using False ne assms(4) ht_map_None_iff [OF assms(1), of k] by (auto simp: holds_key_def)
    ultimately show ?thesis by simp
  qed
qed

end
