(* ===== verification/Hashtable_Ops.thy ===== *)
theory Hashtable_Ops
  imports Hashtable_Map
begin

text \<open>
  What the operations of the hash table do: searching, entering and deleting on the table are lookup,
  update and removal on its map, and whatever rejects a change leaves the map as it was.
\<close>

section \<open>Finding\<close>

lemma slot_word_of_nat:
  assumes "wf_htab htab" "i \<in> {1..ht_n htab}"
  shows "unat (of_nat i :: u32) = i" "sint (of_nat i :: u32) = int i"
proof -
  have i: "i < 2 ^ 31" using assms filled_le(3) [OF assms(1)] by simp
  then show u: "unat (of_nat i :: u32) = i" by (simp add: unat_of_nat take_bit_nat_eq_self)
  then show "sint (of_nat i :: u32) = int i" using sint_small [of "of_nat i"] i by simp
qed

lemma present_slot:
  assumes "wf_htab htab" "ht_map htab key = Some v"
  obtains i where "i \<in> {1..ht_n htab}" "holds_key htab key i" "ht_data htab i = Some v"
    "word_of_int (en_used (ht_node htab (of_nat i))) = hash_first htab key \<and>
     ee_key (en_entry (ht_node htab (of_nat i))) = Some key"
proof -
  obtain i where i: "i \<in> {1..ht_n htab}" "holds_key htab key i" "ht_data htab i = Some v"
    by (rule ht_map_Some [OF assms])
  moreover have "word_of_int (en_used (ht_node htab (of_nat i))) = hash_first htab key \<and>
     ee_key (en_entry (ht_node htab (of_nat i))) = Some key"
    using matches_iff [OF assms(1), of "of_nat i" key] i slot_word_of_nat [OF assms(1) i(1)] by simp
  ultimately show thesis by (rule that)
qed

lemma find_present:
  assumes "wf_htab htab" "ht_map htab key = Some v"
  obtains i where "i \<in> {1..ht_n htab}" "holds_key htab key i" "ht_data htab i = Some v"
    "hsearch_r hooks key data ENV_FIND htab flag = Some (int i, Some (of_nat i), 0, htab)"
proof -
  obtain i where i: "i \<in> {1..ht_n htab}" "holds_key htab key i" "ht_data htab i = Some v"
    and m: "word_of_int (en_used (ht_node htab (of_nat i))) = hash_first htab key \<and>
     ee_key (en_entry (ht_node htab (of_nat i))) = Some key"
    by (rule present_slot [OF assms])
  have "compare_and_overwrite_entry hooks key data ENV_FIND htab flag (hash_first htab key) (of_nat i) =
      (int i, Some (of_nat i), 0, htab)"
    using m slot_word_of_nat [OF assms(1) i(1)] by (simp add: compare_and_overwrite_entry_def Let_def)
  then have "hsearch_r hooks key data ENV_FIND htab flag = Some (int i, Some (of_nat i), 0, htab)"
    by (simp add: hsearch_r_def hsearch_probe_found [OF assms(1) i(2,1)])
  then show thesis by (rule that [OF i])
qed

lemma find_absent:
  assumes "wf_htab htab" "ht_map htab key = None"
  shows "hsearch_r hooks key data ENV_FIND htab flag = Some (0, None, ESRCH, htab)"
proof -
  have "\<forall>i\<in>{1..ht_n htab}. \<not> holds_key htab key i" using assms by (simp add: ht_map_None_iff)
  then obtain idx fd where "hsearch_probe hooks key data ENV_FIND htab flag = Some (ProbeStop idx fd)"
    by (rule hsearch_probe_absent [OF assms(1)])
  then show ?thesis by (simp add: hsearch_r_def)
qed

section \<open>Entering\<close>

lemma overwrite_result:
  assumes "wf_htab htab" "i \<in> {1..ht_n htab}" "holds_key htab key i"
    "word_of_int (en_used (ht_node htab (of_nat i))) = hash_first htab key \<and>
     ee_key (en_entry (ht_node htab (of_nat i))) = Some key"
    "hk_strdup_ok hooks v"
  shows "let e = en_entry (ht_node htab (of_nat i))
    in hsearch_r hooks key (Some v) ENV_ENTER htab flag = Some
      (if denied htab e (Some v) env_op_overwrite flag then (0, None, EPERM, htab)
       else if do_callback hooks e key (Some v) env_op_overwrite flag \<noteq> 0 then (0, None, EINVAL, htab)
       else (int i, Some (of_nat i), 0,
         put_node htab i ((ht_node htab (of_nat i))\<lparr>en_entry := e\<lparr>ee_data := Some v\<rparr>\<rparr>) (ht_filled htab)))"
proof -
  have "ht_update htab (of_nat i) node = put_node htab i node (ht_filled htab)" for node
    using slot_word_of_nat [OF assms(1,2)] by (simp add: ht_update_def put_node_def)
  then have "compare_and_overwrite_entry hooks key (Some v) ENV_ENTER htab flag (hash_first htab key) (of_nat i) =
      (let e = en_entry (ht_node htab (of_nat i))
       in if denied htab e (Some v) env_op_overwrite flag then (0, None, EPERM, htab)
       else if do_callback hooks e key (Some v) env_op_overwrite flag \<noteq> 0 then (0, None, EINVAL, htab)
       else (int i, Some (of_nat i), 0,
         put_node htab i ((ht_node htab (of_nat i))\<lparr>en_entry := e\<lparr>ee_data := Some v\<rparr>\<rparr>) (ht_filled htab)))"
    using assms(4,5) slot_word_of_nat [OF assms(1,2)]
    by (simp add: compare_and_overwrite_entry_def Let_def strdup_opt_def)
  then show ?thesis
    by (simp add: hsearch_r_def hsearch_probe_found [OF assms(1,3,2)] Let_def)
qed

lemma overwrite_wf:
  assumes "wf_htab htab" "i \<in> {1..ht_n htab}" "holds_key htab key i"
    "node = ht_node htab (of_nat i)"
    "htab' = put_node htab i (node\<lparr>en_entry := (en_entry node)\<lparr>ee_data := Some v\<rparr>\<rparr>) (ht_filled htab)"
  shows "wf_htab htab' \<and> ht_map htab' = (ht_map htab)(key \<mapsto> v)"
proof -
  let ?node = "node\<lparr>en_entry := (en_entry node)\<lparr>ee_data := Some v\<rparr>\<rparr>"
  have n: "node = the (ht_table htab) ! i" using assms(4) slot_word_of_nat [OF assms(1,2)] by (simp add: ht_node_def)
  have "wf_slot htab i" "ht_used htab i > 0" using assms by (simp_all add: wf_htab_slot holds_key_def)
  then obtain k w where kw: "ht_key htab i = Some k" "ht_data htab i = Some w"
      "ht_used htab i = sint (hash_first htab k)" "on_path htab k i" by (rule wf_slot_live)
  have "k = key" using kw(1) assms(3) by (simp add: holds_key_def)
  then have st: "stores htab i ?node key v" and path: "on_path htab key i"
    using kw n by (simp_all add: stores_def ht_used_def ht_key_def)
  have "\<forall>j\<in>{1..ht_n htab}. j \<noteq> i \<longrightarrow> \<not> holds_key htab key j"
    using holds_key_unique [OF assms(1) _ assms(3) _ assms(2)] by blast
  then have wf: "wf_htab htab'"
    using put_entry_wf [OF assms(1,2) st path, of "ht_filled htab"] assms(3,5) by (simp add: holds_key_def)
  then show ?thesis using put_entry_map [OF assms(1,2) st, of "ht_filled htab"] assms(3,5)
    by (simp add: holds_key_def)
qed

text \<open>What a new entry becomes: the fields the program gives it besides its key and value.\<close>

definition new_entry :: "env_hooks \<Rightarrow> cstr \<Rightarrow> cstr \<Rightarrow> hsearch_data \<Rightarrow> u32 \<Rightarrow> u32 \<Rightarrow> env_entry" where
  "new_entry hooks key v htab hval idx =
     (let e = (en_entry (ht_node htab idx))\<lparr>ee_key := Some key, ee_data := Some v\<rparr>;
          htab2 = put_node htab (unat idx) ((ht_node htab idx)\<lparr>en_used := sint hval, en_entry := e\<rparr>) (ht_filled htab + 1);
          e1 = e\<lparr>ee_callback := hk_callback_init hooks htab2 e\<rparr>
      in e1\<lparr>ee_flags := hk_flags_init hooks htab2 e1\<rparr>)"

lemma hdelete_slot_put:
  "hdelete_slot htab idx =
    put_node htab (unat idx)
      ((ht_node htab idx)\<lparr>en_used := USED_DELETED,
         en_entry := (en_entry (ht_node htab idx))\<lparr>ee_key := None, ee_data := None, ee_flags := 0\<rparr>\<rparr>)
      (ht_filled htab - 1)"
  by (simp add: hdelete_slot_def ht_update_def put_node_def Let_def)

lemma ht_update_put_node:
  "ht_filled (ht_update htab idx node) = ht_filled htab"
  "(ht_update htab idx node)\<lparr>ht_filled := f\<rparr> = put_node htab (unat idx) node f"
  "ht_update (put_node htab (unat idx) node' f) idx node = put_node htab (unat idx) node f"
  by (cases htab, simp add: ht_update_def put_node_def)+

lemma henter_slot_result:
  assumes "hk_strdup_ok hooks key" "hk_strdup_ok hooks v" "e = new_entry hooks key v htab hval idx"
    "htab3 = put_node htab (unat idx) ((ht_node htab idx)\<lparr>en_used := sint hval, en_entry := e\<rparr>) (ht_filled htab + 1)"
  shows "henter_slot hooks key (Some v) htab flag hval idx =
    (if denied htab3 e (Some v) env_op_create flag then (0, None, EPERM, hdelete_slot htab3 idx)
     else if do_callback hooks e key (Some v) env_op_create flag \<noteq> 0 then (0, None, EINVAL, hdelete_slot htab3 idx)
     else (1, Some idx, 0, htab3))"
  using assms(1,2) unfolding assms(3,4)
  by (simp add: henter_slot_def new_entry_def strdup_opt_def ht_update_put_node Let_def)

lemma new_entry_key: "ee_key (new_entry hooks key v htab hval idx) = Some key"
  "ee_data (new_entry hooks key v htab hval idx) = Some v"
  by (simp_all add: new_entry_def Let_def)

lemma create_wf:
  assumes "wf_htab htab" "unat idx \<in> {1..ht_n htab}" "on_path htab key (unat idx)" "ht_used htab (unat idx) \<le> 0"
    "ht_map htab key = None" "ee_key e = Some key" "ee_data e = Some v"
    "htab3 = put_node htab (unat idx)
       ((ht_node htab idx)\<lparr>en_used := sint (hash_first htab key), en_entry := e\<rparr>) (ht_filled htab + 1)"
  shows "wf_htab htab3 \<and> ht_map htab3 = (ht_map htab)(key \<mapsto> v) \<and>
    wf_htab (hdelete_slot htab3 idx) \<and> ht_map (hdelete_slot htab3 idx) = ht_map htab"
proof -
  let ?node = "(ht_node htab idx)\<lparr>en_used := sint (hash_first htab key), en_entry := e\<rparr>"
  have st: "stores htab (unat idx) ?node key v" using assms(6,7) by (simp add: stores_def)
  have nk: "\<forall>j\<in>{1..ht_n htab}. \<not> holds_key htab key j" using assms(1,5) by (simp add: ht_map_None_iff)
  have wf3: "wf_htab htab3"
    using put_entry_wf [OF assms(1,2) st assms(3), of "ht_filled htab + 1"] nk assms(4,8) by simp
  have map3: "ht_map htab3 = (ht_map htab)(key \<mapsto> v)"
    using put_entry_map [OF assms(1,2) st, of "ht_filled htab + 1"] wf3 assms(4,8) by simp
  have i3: "unat idx \<in> {1..ht_n htab3}" using assms(2,8) by simp
  have h3: "holds_key htab3 key (unat idx)"
    using put_entry_holds [OF assms(1,2) st, of "ht_filled htab + 1"] assms(8) by simp
  let ?del = "(ht_node htab3 idx)\<lparr>en_used := USED_DELETED,
      en_entry := (en_entry (ht_node htab3 idx))\<lparr>ee_key := None, ee_data := None, ee_flags := 0\<rparr>\<rparr>"
  have wfd: "wf_htab (hdelete_slot htab3 idx)"
    unfolding hdelete_slot_put using h3 by (intro put_deleted_wf [OF wf3 i3]) (simp_all add: holds_key_def)
  have "ht_map (hdelete_slot htab3 idx) = (ht_map htab3)(key := None)"
    unfolding hdelete_slot_put using put_deleted_map [OF wf3 i3 _ h3] wfd by (simp add: hdelete_slot_put)
  then have "ht_map (hdelete_slot htab3 idx) = ht_map htab" using map3 assms(5) by auto
  then show ?thesis using wf3 map3 wfd by simp
qed

text \<open>Entering a key that is not in the table.\<close>

lemma enter_absent:
  assumes "wf_htab htab" "ht_map htab key = None" "hk_strdup_ok hooks key" "hk_strdup_ok hooks v"
  obtains ret rv err htab' where
    "hsearch_r hooks key (Some v) ENV_ENTER htab flag = Some (ret, rv, err, htab')" "wf_htab htab'"
    "ret = 0 \<and> rv = None \<and> ht_map htab' = ht_map htab \<and>
       (err = ENOMEM \<and> ht_filled htab = ht_size htab \<or> err \<in> {EPERM, EINVAL} \<and> ht_filled htab \<noteq> ht_size htab) \<or>
     ret = 1 \<and> err = 0 \<and> rv \<noteq> None \<and> ht_map htab' = (ht_map htab)(key \<mapsto> v) \<and>
       ee_key (en_entry (ht_node htab' (the rv))) = Some key \<and> ee_data (en_entry (ht_node htab' (the rv))) = Some v"
    "ht_change_ok htab = None \<and> (\<forall>cb n x op_code f. hk_callback hooks cb n x op_code f = 0) \<and>
     ht_filled htab \<noteq> ht_size htab \<longrightarrow> ret > 0"
    "ht_size htab' = ht_size htab \<and> ht_change_ok htab' = ht_change_ok htab"
proof (cases "ht_filled htab = ht_size htab")
  case True
  have "\<forall>i\<in>{1..ht_n htab}. \<not> holds_key htab key i" using assms(1,2) by (simp add: ht_map_None_iff)
  then obtain idx fd where "hsearch_probe hooks key (Some v) ENV_ENTER htab flag = Some (ProbeStop idx fd)"
    by (rule hsearch_probe_absent [OF assms(1)])
  then have "hsearch_r hooks key (Some v) ENV_ENTER htab flag = Some (0, None, ENOMEM, htab)"
    using True by (simp add: hsearch_r_def)
  then show thesis by (rule that) (simp_all add: assms(1) True)
next
  case False
  have "\<forall>i\<in>{1..ht_n htab}. \<not> holds_key htab key i" using assms(1,2) by (simp add: ht_map_None_iff)
  then obtain idx fd where p: "hsearch_probe hooks key (Some v) ENV_ENTER htab flag = Some (ProbeStop idx fd)"
      "good_stop htab key idx fd"
    by (rule hsearch_probe_absent [OF assms(1)])
  define s where "s = (if fd \<noteq> 0 then fd else idx)"
  have "live_slots htab \<noteq> {1..ht_n htab}"
  proof
    assume "live_slots htab = {1..ht_n htab}"
    then have "unat (ht_filled htab) = unat (ht_size htab)" using assms(1) by (simp add: wf_htab_def ht_n_def)
    then show False using False by (simp add: word_unat_eq_iff)
  qed
  then have s: "unat s \<in> {1..ht_n htab}" "on_path htab key (unat s)" "ht_used htab (unat s) \<le> 0"
    using p(2) by (simp_all add: good_stop_def s_def Let_def)
  define e where "e = new_entry hooks key v htab (hash_first htab key) s"
  define htab3 where "htab3 = put_node htab (unat s)
    ((ht_node htab s)\<lparr>en_used := sint (hash_first htab key), en_entry := e\<rparr>) (ht_filled htab + 1)"
  have cw: "wf_htab htab3 \<and> ht_map htab3 = (ht_map htab)(key \<mapsto> v) \<and>
      wf_htab (hdelete_slot htab3 s) \<and> ht_map (hdelete_slot htab3 s) = ht_map htab"
    using create_wf [OF assms(1) s assms(2) _ _ htab3_def] new_entry_key e_def by simp
  have sz3: "ht_size htab3 = ht_size htab" "ht_change_ok htab3 = ht_change_ok htab" by (simp_all add: htab3_def)
  then have sz: "ht_size (hdelete_slot htab3 s) = ht_size htab" "ht_change_ok (hdelete_slot htab3 s) = ht_change_ok htab"
    by (simp_all add: hdelete_slot_put)
  have en: "en_entry (ht_node htab3 s) = e"
    using put_node_nth [OF assms(1) s(1)] by (simp add: htab3_def ht_node_def)
  have r: "hsearch_r hooks key (Some v) ENV_ENTER htab flag = Some
     (if denied htab3 e (Some v) env_op_create flag then (0, None, EPERM, hdelete_slot htab3 s)
      else if do_callback hooks e key (Some v) env_op_create flag \<noteq> 0 then (0, None, EINVAL, hdelete_slot htab3 s)
      else (1, Some s, 0, htab3))"
    using p(1) False henter_slot_result [OF assms(3,4) e_def htab3_def] by (simp add: hsearch_r_def s_def)
  consider "denied htab3 e (Some v) env_op_create flag"
    | "\<not> denied htab3 e (Some v) env_op_create flag" "do_callback hooks e key (Some v) env_op_create flag \<noteq> 0"
    | "\<not> denied htab3 e (Some v) env_op_create flag" "do_callback hooks e key (Some v) env_op_create flag = 0"
    by blast
  then show thesis
  proof cases
    case 1
    then have "hsearch_r hooks key (Some v) ENV_ENTER htab flag = Some (0, None, EPERM, hdelete_slot htab3 s)" using r by simp
    then show thesis
      by (rule that) (use 1 in \<open>simp_all add: cw False sz denied_def sz3 split: option.splits\<close>)
  next
    case 2
    then have "hsearch_r hooks key (Some v) ENV_ENTER htab flag = Some (0, None, EINVAL, hdelete_slot htab3 s)" using r by simp
    then show thesis
      by (rule that) (use 2 in \<open>auto simp: cw False sz do_callback_def split: option.splits\<close>)
  next
    case 3
    then have "hsearch_r hooks key (Some v) ENV_ENTER htab flag = Some (1, Some s, 0, htab3)" using r by simp
    then show thesis by (rule that) (simp_all add: cw en e_def new_entry_key sz3)
  qed
qed

text \<open>Entering a key that is in the table.\<close>

lemma enter_present:
  assumes "wf_htab htab" "ht_map htab key = Some w" "hk_strdup_ok hooks v"
  obtains ret rv err htab' where
    "hsearch_r hooks key (Some v) ENV_ENTER htab flag = Some (ret, rv, err, htab')" "wf_htab htab'"
    "ret = 0 \<and> rv = None \<and> ht_map htab' = ht_map htab \<and> err \<in> {EPERM, EINVAL} \<or>
     ret > 0 \<and> err = 0 \<and> rv \<noteq> None \<and> ht_map htab' = (ht_map htab)(key \<mapsto> v) \<and>
       ee_key (en_entry (ht_node htab' (the rv))) = Some key \<and> ee_data (en_entry (ht_node htab' (the rv))) = Some v"
    "ht_change_ok htab = None \<and> (\<forall>cb n x op_code f. hk_callback hooks cb n x op_code f = 0) \<longrightarrow> ret > 0"
    "ht_size htab' = ht_size htab \<and> ht_change_ok htab' = ht_change_ok htab"
proof -
  obtain i where i: "i \<in> {1..ht_n htab}" "holds_key htab key i" "ht_data htab i = Some w"
    and m: "word_of_int (en_used (ht_node htab (of_nat i))) = hash_first htab key \<and>
     ee_key (en_entry (ht_node htab (of_nat i))) = Some key"
    by (rule present_slot [OF assms(1,2)])
  define e where "e = en_entry (ht_node htab (of_nat i))"
  define htab1 where "htab1 = put_node htab i ((ht_node htab (of_nat i))\<lparr>en_entry := e\<lparr>ee_data := Some v\<rparr>\<rparr>) (ht_filled htab)"
  have r: "hsearch_r hooks key (Some v) ENV_ENTER htab flag = Some
      (if denied htab e (Some v) env_op_overwrite flag then (0, None, EPERM, htab)
       else if do_callback hooks e key (Some v) env_op_overwrite flag \<noteq> 0 then (0, None, EINVAL, htab)
       else (int i, Some (of_nat i), 0, htab1))"
    using overwrite_result [OF assms(1) i(1,2) m assms(3), of flag] by (simp add: e_def htab1_def Let_def)
  have wf: "wf_htab htab1 \<and> ht_map htab1 = (ht_map htab)(key \<mapsto> v)"
    using overwrite_wf [OF assms(1) i(1,2) refl] by (simp add: htab1_def e_def)
  have en: "en_entry (ht_node htab1 (of_nat i)) = e\<lparr>ee_data := Some v\<rparr>"
    using put_node_nth [OF assms(1) i(1)] slot_word_of_nat [OF assms(1) i(1)] by (simp add: htab1_def ht_node_def)
  have ek: "ee_key e = Some key" using m by (simp add: e_def)
  have sz1: "ht_size htab1 = ht_size htab" "ht_change_ok htab1 = ht_change_ok htab" by (simp_all add: htab1_def)
  consider "denied htab e (Some v) env_op_overwrite flag"
    | "\<not> denied htab e (Some v) env_op_overwrite flag" "do_callback hooks e key (Some v) env_op_overwrite flag \<noteq> 0"
    | "\<not> denied htab e (Some v) env_op_overwrite flag" "do_callback hooks e key (Some v) env_op_overwrite flag = 0"
    by blast
  then show thesis
  proof cases
    case 1
    then have "hsearch_r hooks key (Some v) ENV_ENTER htab flag = Some (0, None, EPERM, htab)" using r by simp
    then show thesis by (rule that) (use 1 in \<open>simp_all add: assms(1) denied_def split: option.splits\<close>)
  next
    case 2
    then have "hsearch_r hooks key (Some v) ENV_ENTER htab flag = Some (0, None, EINVAL, htab)" using r by simp
    then show thesis by (rule that) (use 2 in \<open>auto simp: assms(1) do_callback_def split: option.splits\<close>)
  next
    case 3
    then have "hsearch_r hooks key (Some v) ENV_ENTER htab flag = Some (int i, Some (of_nat i), 0, htab1)" using r by simp
    then show thesis by (rule that) (use i(1) in \<open>simp_all add: wf en ek sz1\<close>)
  qed
qed

section \<open>Deleting\<close>

lemma hdelete_absent:
  assumes "wf_htab htab" "ht_map htab key = None"
  shows "hdelete_r hooks key htab flag = Some (- ENOENT, ESRCH, htab)"
  using find_absent [OF assms] by (simp add: hdelete_r_def)

lemma hdelete_present:
  assumes "wf_htab htab" "ht_map htab key = Some v"
  obtains ret err htab' where
    "hdelete_r hooks key htab flag = Some (ret, err, htab')" "wf_htab htab'"
    "ret = - EPERM \<and> err = EPERM \<and> htab' = htab \<or> ret = - EINVAL \<and> err = EINVAL \<and> htab' = htab \<or>
     ret = 0 \<and> err = 0 \<and> ht_map htab' = (ht_map htab)(key := None) \<and> ht_size htab' = ht_size htab \<and>
       ht_change_ok htab' = ht_change_ok htab"
    "ht_change_ok htab = None \<and> (\<forall>cb n x op_code f. hk_callback hooks cb n x op_code f = 0) \<longrightarrow> ret = 0"
proof -
  obtain i where i: "i \<in> {1..ht_n htab}" "holds_key htab key i"
    and f: "hsearch_r hooks key None ENV_FIND htab 0 = Some (int i, Some (of_nat i), 0, htab)"
    by (rule find_present [OF assms])
  define e where "e = en_entry (ht_node htab (of_nat i))"
  have w: "word_of_int (int i) = (of_nat i :: u32)" by simp
  have u: "unat (of_nat i :: u32) = i" using slot_word_of_nat [OF assms(1) i(1)] by simp
  have r: "hdelete_r hooks key htab flag = Some
      (if denied htab e None env_op_delete flag then (- EPERM, EPERM, htab)
       else if do_callback hooks e key None env_op_delete flag \<noteq> 0 then (- EINVAL, EINVAL, htab)
       else (0, 0, hdelete_slot htab (of_nat i)))"
    using f i(1) by (simp add: hdelete_r_def Let_def e_def)
  have wf: "wf_htab (hdelete_slot htab (of_nat i))"
    unfolding hdelete_slot_put u using i(2) by (intro put_deleted_wf [OF assms(1) i(1)]) (simp_all add: holds_key_def)
  have map: "ht_map (hdelete_slot htab (of_nat i)) = (ht_map htab)(key := None)"
    using put_deleted_map [OF assms(1) i(1) _ i(2)] wf by (simp add: hdelete_slot_put u)
  have sz: "ht_size (hdelete_slot htab (of_nat i)) = ht_size htab"
      "ht_change_ok (hdelete_slot htab (of_nat i)) = ht_change_ok htab"
    by (simp_all add: hdelete_slot_put)
  consider "denied htab e None env_op_delete flag"
    | "\<not> denied htab e None env_op_delete flag" "do_callback hooks e key None env_op_delete flag \<noteq> 0"
    | "\<not> denied htab e None env_op_delete flag" "do_callback hooks e key None env_op_delete flag = 0"
    by blast
  then show thesis
  proof cases
    case 1
    then have "hdelete_r hooks key htab flag = Some (- EPERM, EPERM, htab)" using r by simp
    then show thesis by (rule that) (use 1 in \<open>simp_all add: assms(1) denied_def split: option.splits\<close>)
  next
    case 2
    then have "hdelete_r hooks key htab flag = Some (- EINVAL, EINVAL, htab)" using r by simp
    then show thesis by (rule that) (use 2 in \<open>auto simp: assms(1) do_callback_def split: option.splits\<close>)
  next
    case 3
    then have "hdelete_r hooks key htab flag = Some (0, 0, hdelete_slot htab (of_nat i))" using r by simp
    then show thesis by (rule that) (simp_all add: wf map sz)
  qed
qed

section \<open>Creating\<close>

definition prime_scan :: "nat \<Rightarrow> nat \<Rightarrow> bool" where
  "prime_scan n d \<longleftrightarrow> odd d \<and> 3 \<le> d \<and> (d = 3 \<or> (d - 2) * (d - 2) < n) \<and> (\<forall>q. 3 \<le> q \<and> q < d \<and> odd q \<longrightarrow> \<not> q dvd n)"

lemma prime_scan_next:
  assumes "prime_scan n d" "d * d < n" "\<not> d dvd n"
  shows "prime_scan n (d + 2)"
proof -
  have "\<not> q dvd n" if q: "3 \<le> q" "q < d + 2" "odd q" for q
  proof (cases "q < d")
    case True
    then show ?thesis using assms(1) q by (simp add: prime_scan_def)
  next
    case False
    then have "q = d \<or> q = d + 1" using q by linarith
    then show ?thesis using assms q by (auto simp: prime_scan_def)
  qed
  then show ?thesis using assms by (auto simp: prime_scan_def)
qed

lemma prime_scan_end:
  assumes "prime_scan n d" "odd n" "5 \<le> n" "n \<le> d * d \<or> d dvd n"
  shows "\<not> d dvd n \<longleftrightarrow> prime_size n"
proof
  assume nd: "\<not> d dvd n"
  have "\<not> e dvd n" if e: "e \<in> {2..<n}" for e
  proof
    assume "e dvd n"
    then obtain f where f: "n = e * f" by (auto elim: dvdE)
    have "odd e" "odd f" "1 < f" using f assms(2,3) e by (auto intro: Suc_lessI)
    then have "3 \<le> e" "3 \<le> f" using e by (auto simp: numeral_3_eq_3 Suc_le_eq intro: Suc_lessI dest: odd_pos)
    then have "d \<le> e" "d \<le> f" using assms(1) \<open>odd e\<close> \<open>odd f\<close> f unfolding prime_scan_def
      by (meson dvd_triv_left dvd_triv_right not_le)+
    moreover have "d \<noteq> e" using nd f by auto
    ultimately have "d * d < e * f" using assms(1) by (intro mult_less_le_imp_less) (auto simp: prime_scan_def)
    then show False using nd assms(4) f by simp
  qed
  then show "prime_size n" using assms(3) by (simp add: prime_size_def)
next
  assume p: "prime_size n"
  show "\<not> d dvd n"
  proof
    assume dv: "d dvd n"
    then have "d \<le> n" using assms(3) by (intro dvd_imp_le) simp_all
    moreover have "d \<noteq> n"
    proof
      assume "d = n"
      then have "(d - 2) * (d - 2) < d" using assms(1,3) by (auto simp: prime_scan_def)
      moreover have "3 * (d - 2) \<le> (d - 2) * (d - 2)" using assms(3) \<open>d = n\<close> by (intro mult_le_mono1) linarith
      ultimately show False using assms(3) \<open>d = n\<close> by linarith
    qed
    ultimately show False using p dv assms(1) by (auto simp: prime_size_def prime_scan_def)
  qed
qed

lemma prime_scan_bound:
  assumes "prime_scan n d" "n < 2 ^ 31"
  shows "d < 2 ^ 16" "d * d < 2 ^ 32"
proof -
  show d: "d < 2 ^ 16"
  proof (rule ccontr)
    assume "\<not> d < 2 ^ 16"
    then have "2 ^ 16 - 2 \<le> d - 2" "d \<noteq> 3" by auto
    then have "(2 ^ 16 - 2) * (2 ^ 16 - 2) \<le> (d - 2) * (d - 2)" by (intro mult_le_mono)
    then show False using assms \<open>d \<noteq> 3\<close> by (simp add: prime_scan_def)
  qed
  then have "d * d < 2 ^ 16 * 2 ^ 16" by (intro mult_strict_mono) simp_all
  then show "d * d < 2 ^ 32" by simp
qed

lemma isprime_loop_result:
  assumes "unat number < 2 ^ 31" "prime_scan (unat number) (unat dv)"
  obtains r where "isprime_loop number dv = Some r" "prime_scan (unat number) (unat r)"
    "unat number \<le> unat r * unat r \<or> unat r dvd unat number"
proof -
  have "\<exists>r. isprime_loop number dv = Some r \<and> prime_scan (unat number) (unat r) \<and>
      (unat number \<le> unat r * unat r \<or> unat r dvd unat number)"
    using assms(2)
  proof (induction "unat number - unat dv" arbitrary: dv rule: less_induct)
    case less
    note b = prime_scan_bound [OF less.prems assms(1)]
    have sq: "unat (dv * dv) = unat dv * unat dv" using b(2) by (subst unat_mult_lem [THEN iffD1]) simp_all
    have cond: "dv * dv < number \<and> number mod dv \<noteq> 0 \<longleftrightarrow> unat dv * unat dv < unat number \<and> \<not> unat dv dvd unat number"
      using sq by (simp add: word_less_nat_alt word_unat_eq_iff unat_mod dvd_eq_mod_eq_0)
    show ?case
    proof (cases "unat dv * unat dv < unat number \<and> \<not> unat dv dvd unat number")
      case True
      have u2: "unat (dv + 2) = unat dv + 2" using b(1) by (subst unat_add_lem [THEN iffD1]) simp_all
      have "unat dv \<le> unat dv * unat dv" by simp
      then have "unat number - unat (dv + 2) < unat number - unat dv" using True u2 by linarith
      moreover have "prime_scan (unat number) (unat (dv + 2))"
        using prime_scan_next [OF less.prems] True u2 by simp
      ultimately show ?thesis using less.hyps [of "dv + 2"] True cond by (subst isprime_loop.simps) simp
    next
      case False
      then have "isprime_loop number dv = Some dv" using cond by (subst isprime_loop.simps) auto
      then show ?thesis using False less.prems by (auto simp: not_less)
    qed
  qed
  then show thesis using that by blast
qed

lemma isprime_result:
  assumes "unat number < 2 ^ 31" "odd (unat number)" "3 \<le> unat number"
  shows "isprime number = Some (unat number \<noteq> 3 \<and> prime_size (unat number))"
proof -
  have "prime_scan (unat number) (unat (3 :: u32))" by (auto simp: prime_scan_def)
  then obtain r where r: "isprime_loop number 3 = Some r" "prime_scan (unat number) (unat r)"
      "unat number \<le> unat r * unat r \<or> unat r dvd unat number"
    by (rule isprime_loop_result [OF assms(1)])
  have m: "number mod r \<noteq> 0 \<longleftrightarrow> \<not> unat r dvd unat number"
    by (simp add: word_unat_eq_iff unat_mod dvd_eq_mod_eq_0)
  show ?thesis
  proof (cases "unat number = 3")
    case True
    have "isprime_loop number 3 = Some 3" using True by (subst isprime_loop.simps) (simp add: word_less_nat_alt)
    then show ?thesis using True by (simp add: isprime_def word_unat_eq_iff unat_mod)
  next
    case False
    have "unat number \<noteq> 4" using assms(2) by auto
    then have "5 \<le> unat number" using assms(3) False by linarith
    then show ?thesis using prime_scan_end [OF r(2) assms(2) _ r(3)] r(1) m False by (simp add: isprime_def)
  qed
qed

lemma prime_size_odd:
  assumes "prime_size p" "5 \<le> p"
  shows "odd p"
proof -
  have "2 \<in> {2..<p}" using assms(2) by simp
  then show ?thesis using assms(1) unfolding prime_size_def by blast
qed

lemma hcreate_size_result:
  assumes "prime_size p" "5 \<le> p" "p < 2 ^ 31" "odd (unat nel)" "3 \<le> unat nel" "unat nel \<le> p"
  obtains sz where "hcreate_size nel = Some sz" "prime_size (unat sz)" "5 \<le> unat sz" "unat nel \<le> unat sz" "unat sz \<le> p"
proof -
  have "\<exists>sz. hcreate_size nel = Some sz \<and> prime_size (unat sz) \<and> 5 \<le> unat sz \<and> unat nel \<le> unat sz \<and> unat sz \<le> p"
    using assms(4-6)
  proof (induction "p - unat nel" arbitrary: nel rule: less_induct)
    case less
    have "unat nel < 2 ^ 31" using less.prems assms(3) by simp
    then have pr: "isprime nel = Some (unat nel \<noteq> 3 \<and> prime_size (unat nel))"
      using less.prems by (intro isprime_result)
    show ?case
    proof (cases "unat nel \<noteq> 3 \<and> prime_size (unat nel)")
      case True
      moreover have "unat nel \<noteq> 4" using less.prems(1) by auto
      ultimately have "5 \<le> unat nel" using less.prems(2) by linarith
      moreover have "hcreate_size nel = Some nel" using pr True by (subst hcreate_size.simps) simp
      ultimately show ?thesis using True less.prems by simp
    next
      case False
      then have "unat nel \<noteq> p" using assms(1,2) by auto
      moreover have "unat nel + 1 \<noteq> p" using prime_size_odd [OF assms(1,2)] less.prems(1) by auto
      ultimately have lt: "unat nel + 2 \<le> p" using less.prems(3) by linarith
      then have u2: "unat (nel + 2) = unat nel + 2"
        using assms(3) by (subst unat_add_lem [THEN iffD1]) simp_all
      have "hcreate_size nel = hcreate_size (nel + 2)" using pr False by (subst hcreate_size.simps) simp
      moreover have "\<exists>sz. hcreate_size (nel + 2) = Some sz \<and> prime_size (unat sz) \<and> 5 \<le> unat sz \<and>
          unat (nel + 2) \<le> unat sz \<and> unat sz \<le> p"
        using less.prems lt u2 by (intro less.hyps) auto
      ultimately show ?thesis using u2 by auto
    qed
  qed
  then show thesis using that by blast
qed

lemma empty_wf:
  assumes "prime_size (unat sz)" "5 \<le> unat sz" "unat sz < 2 ^ 31"
    "ht_table htab = Some (replicate (unat sz + 1) env_entry_node_zero)" "ht_size htab = sz" "ht_filled htab = 0"
  shows "wf_htab htab \<and> ht_map htab = Map.empty"
proof -
  have used: "i \<le> unat sz \<Longrightarrow> ht_used htab i = USED_FREE" for i
    using assms(4) by (cases i) (simp_all add: ht_used_def env_entry_node_zero_def)
  then have "live_slots htab = {}" using assms(5) by (auto simp: live_slots_def ht_n_def USED_FREE_def)
  then have wf: "wf_htab htab" using assms used
    by (simp add: wf_htab_def wf_size_def ht_n_def wf_slot_def)
  moreover have "\<not> holds_key htab key i" if "i \<in> {1..ht_n htab}" for key i
    using that used assms(5) by (simp add: holds_key_def ht_n_def USED_FREE_def)
  ultimately show ?thesis by (auto simp: ht_map_None_iff)
qed

lemma hcreate_ok:
  assumes "ht_table htab = None" "prime_size p" "5 \<le> p" "p < 2 ^ 31" "2 \<le> unat nel" "unat nel \<le> p"
    "\<forall>n. calloc n"
  obtains htab' where "hcreate_r calloc nel htab = Some (1, 0, htab')" "wf_htab htab'" "ht_map htab' = Map.empty"
    "unat nel \<le> ht_n htab'" "ht_n htab' \<le> p" "ht_filled htab' = 0" "ht_change_ok htab' = ht_change_ok htab"
proof -
  have "unat (nel OR 1) = unat nel OR unat (1 :: u32)" by (rule unsigned_or_eq)
  then have o: "unat (nel OR 1) = unat nel + of_bool (even (unat nel))" by (simp only: unsigned_1 or_one_eq)
  moreover have "odd (unat nel) \<Longrightarrow> 3 \<le> unat nel" using assms(5) by presburger
  ultimately have n: "odd (unat (nel OR 1))" "3 \<le> unat (nel OR 1)" "unat (nel OR 1) \<le> p" "unat nel \<le> unat (nel OR 1)"
    using assms(5,6) prime_size_odd [OF assms(2,3)] by (auto intro: Suc_leI le_neq_implies_less)
  obtain sz where sz: "hcreate_size (nel OR 1) = Some sz" "prime_size (unat sz)" "5 \<le> unat sz"
      "unat (nel OR 1) \<le> unat sz" "unat sz \<le> p"
    by (rule hcreate_size_result [OF assms(2-4) n(1-3)])
  have u: "unat (sz + 1) = unat sz + 1" using sz assms(4) by (subst unat_add_lem [THEN iffD1]) simp_all
  define htab' where "htab' = htab\<lparr>ht_size := sz, ht_filled := 0, ht_table := Some (replicate (unat sz + 1) env_entry_node_zero)\<rparr>"
  have "hcreate_r calloc nel htab = Some (1, 0, htab')"
    using assms(1,7) sz(1) u by (simp add: hcreate_r_def htab'_def Let_def)
  moreover have "wf_htab htab' \<and> ht_map htab' = Map.empty"
    using sz assms(4) by (intro empty_wf [where sz = sz]) (simp_all add: htab'_def)
  ultimately show thesis by (elim conjE, intro that [of htab']) (use sz n(4) in \<open>simp_all add: ht_n_def htab'_def\<close>)
qed

end
