(* ===== verification/Hashtable_Props.thy ===== *)
theory Hashtable_Props
  imports Hashtable_Ops
begin

text \<open>
  The properties of the hash table operations, and the contract of a store of strings that the table
  is shown to meet.
\<close>

section \<open>A store of strings\<close>

datatype store_op = StoreEnter cstr cstr | StoreRemove cstr

fun store_op_key :: "store_op \<Rightarrow> cstr" where
  "store_op_key (StoreEnter k v) = k"
| "store_op_key (StoreRemove k) = k"

fun apply_store_op :: "(cstr \<Rightarrow> cstr option) \<Rightarrow> store_op \<Rightarrow> cstr \<Rightarrow> cstr option" where
  "apply_store_op m (StoreEnter k v) = m(k \<mapsto> v)"
| "apply_store_op m (StoreRemove k) = m(k := None)"

fun run_store ::
  "('s \<Rightarrow> cstr \<Rightarrow> cstr \<Rightarrow> 's option) \<Rightarrow> ('s \<Rightarrow> cstr \<Rightarrow> 's option) \<Rightarrow> store_op list \<Rightarrow> 's \<Rightarrow> 's option" where
  "run_store enter rem [] s = Some s"
| "run_store enter rem (StoreEnter k v # ops) s = Option.bind (enter s k v) (run_store enter rem ops)"
| "run_store enter rem (StoreRemove k # ops) s = Option.bind (rem s k) (run_store enter rem ops)"

locale string_store =
  fixes inv :: "'s \<Rightarrow> bool" and lookup :: "'s \<Rightarrow> cstr \<Rightarrow> cstr option" and room :: "'s \<Rightarrow> nat"
    and enter :: "'s \<Rightarrow> cstr \<Rightarrow> cstr \<Rightarrow> 's option" and rem :: "'s \<Rightarrow> cstr \<Rightarrow> 's option"
  assumes finite_lookup: "inv s \<Longrightarrow> finite (dom (lookup s))"
    and enter_law: "inv s \<Longrightarrow> card (insert k (dom (lookup s))) \<le> room s \<Longrightarrow>
      \<exists>s'. enter s k v = Some s' \<and> inv s' \<and> lookup s' = (lookup s)(k \<mapsto> v) \<and> room s' = room s"
    and remove_law: "inv s \<Longrightarrow>
      \<exists>s'. rem s k = Some s' \<and> inv s' \<and> lookup s' = (lookup s)(k := None) \<and> room s' = room s"
begin

lemma run_law:
  assumes "inv s" "card (dom (lookup s) \<union> store_op_key ` set ops) \<le> room s"
  shows "\<exists>s'. run_store enter rem ops s = Some s' \<and> inv s' \<and> lookup s' = foldl apply_store_op (lookup s) ops \<and>
    room s' = room s"
  using assms
proof (induction ops arbitrary: s)
  case (Cons x ops)
  have fin: "finite (dom (lookup s) \<union> store_op_key ` set (x # ops))" using finite_lookup [OF Cons.prems(1)] by simp
  show ?case
  proof (cases x)
    case (StoreEnter k v)
    have "insert k (dom (lookup s)) \<subseteq> dom (lookup s) \<union> store_op_key ` set (x # ops)" using StoreEnter by auto
    from card_mono [OF fin this] have "card (insert k (dom (lookup s))) \<le> room s"
      using Cons.prems(2) by linarith
    then obtain s1 where s1: "enter s k v = Some s1" "inv s1" "lookup s1 = (lookup s)(k \<mapsto> v)" "room s1 = room s"
      using enter_law [OF Cons.prems(1)] by blast
    have "dom (lookup s1) \<union> store_op_key ` set ops = dom (lookup s) \<union> store_op_key ` set (x # ops)"
      using s1(3) StoreEnter by auto
    then have "card (dom (lookup s1) \<union> store_op_key ` set ops) \<le> room s1" using Cons.prems(2) s1(4) by simp
    from Cons.IH [OF s1(2) this] show ?thesis
      by (simp only: s1 StoreEnter run_store.simps Option.bind.simps foldl.simps apply_store_op.simps)
  next
    case (StoreRemove k)
    obtain s1 where s1: "rem s k = Some s1" "inv s1" "lookup s1 = (lookup s)(k := None)" "room s1 = room s"
      using remove_law [OF Cons.prems(1)] by blast
    have "dom (lookup s1) \<union> store_op_key ` set ops \<subseteq> dom (lookup s) \<union> store_op_key ` set (x # ops)"
      using s1(3) by auto
    from card_mono [OF fin this] have "card (dom (lookup s1) \<union> store_op_key ` set ops) \<le> room s1"
      using Cons.prems(2) s1(4) by linarith
    from Cons.IH [OF s1(2) this] show ?thesis
      by (simp only: s1 StoreRemove run_store.simps Option.bind.simps foldl.simps apply_store_op.simps)
  qed
qed simp

end

section \<open>The table is such a store\<close>

text \<open>
  The state is the table together with what it calls and the flags of the call. Nothing may object to
  a change: no \<open>change_ok\<close>, callbacks that accept everything and an allocator that does not fail.
\<close>

type_synonym table_state = "env_hooks \<times> int \<times> hsearch_data"

definition accepting :: "env_hooks \<Rightarrow> hsearch_data \<Rightarrow> bool" where
  "accepting hooks htab \<longleftrightarrow> ht_change_ok htab = None \<and> (\<forall>s. hk_strdup_ok hooks s) \<and>
     (\<forall>cb n x op_code f. hk_callback hooks cb n x op_code f = 0)"

fun table_inv :: "table_state \<Rightarrow> bool" where
  "table_inv (hooks, flag, htab) \<longleftrightarrow> wf_htab htab \<and> accepting hooks htab"

fun table_lookup :: "table_state \<Rightarrow> cstr \<Rightarrow> cstr option" where
  "table_lookup (hooks, flag, htab) = ht_map htab"

fun table_room :: "table_state \<Rightarrow> nat" where
  "table_room (hooks, flag, htab) = ht_n htab"

fun table_enter :: "table_state \<Rightarrow> cstr \<Rightarrow> cstr \<Rightarrow> table_state option" where
  "table_enter (hooks, flag, htab) k v =
     Option.bind (hsearch_r hooks k (Some v) ENV_ENTER htab flag)
       (\<lambda>(ret, rv, err, htab1). if ret = 0 then None else Some (hooks, flag, htab1))"

fun table_remove :: "table_state \<Rightarrow> cstr \<Rightarrow> table_state option" where
  "table_remove (hooks, flag, htab) k =
     map_option (\<lambda>(ret, err, htab1). (hooks, flag, htab1)) (hdelete_r hooks k htab flag)"

lemma dom_ht_map:
  assumes "wf_htab htab"
  shows "dom (ht_map htab) = (\<lambda>i. the (ht_key htab i)) ` live_slots htab"
proof (intro equalityI subsetI)
  fix k assume "k \<in> dom (ht_map htab)"
  then obtain v where "ht_map htab k = Some v" by blast
  then obtain i where "i \<in> {1..ht_n htab}" "holds_key htab k i" by (rule ht_map_Some [OF assms])
  then show "k \<in> (\<lambda>i. the (ht_key htab i)) ` live_slots htab"
    by (auto simp: holds_key_def live_slots_def intro!: image_eqI [where x = i])
next
  fix k assume "k \<in> (\<lambda>i. the (ht_key htab i)) ` live_slots htab"
  then obtain i where i: "i \<in> live_slots htab" "k = the (ht_key htab i)" by blast
  then have "wf_slot htab i" "ht_used htab i > 0" using assms by (auto simp: live_slots_def wf_htab_slot)
  then obtain k' v where "ht_key htab i = Some k'" by (rule wf_slot_live)
  then have "holds_key htab k i" using i by (simp add: holds_key_def live_slots_def)
  then show "k \<in> dom (ht_map htab)" using ht_map_None_iff [OF assms, of k] i by (auto simp: live_slots_def)
qed

lemma card_dom_ht_map:
  assumes "wf_htab htab"
  shows "card (dom (ht_map htab)) = unat (ht_filled htab)" "finite (dom (ht_map htab))"
proof -
  have "\<exists>k. ht_key htab i = Some k" if i: "i \<in> live_slots htab" for i
  proof -
    have "wf_slot htab i" "ht_used htab i > 0" using assms i by (auto simp: live_slots_def wf_htab_slot)
    then obtain k v where "ht_key htab i = Some k" by (rule wf_slot_live)
    then show ?thesis by blast
  qed
  then have "inj_on (\<lambda>i. the (ht_key htab i)) (live_slots htab)"
    using assms unfolding wf_htab_def inj_on_def by (metis option.sel)
  then show "card (dom (ht_map htab)) = unat (ht_filled htab)"
    using assms by (simp add: dom_ht_map [OF assms] card_image wf_htab_def)
  show "finite (dom (ht_map htab))" using filled_le(2) [OF assms] by (simp add: dom_ht_map [OF assms])
qed

lemma accepting_enter:
  assumes "wf_htab htab" "accepting hooks htab" "card (insert k (dom (ht_map htab))) \<le> ht_n htab"
  shows "\<exists>ret rv err htab1. hsearch_r hooks k (Some v) ENV_ENTER htab flag = Some (ret, rv, err, htab1) \<and> ret \<noteq> 0 \<and>
    wf_htab htab1 \<and> accepting hooks htab1 \<and> ht_map htab1 = (ht_map htab)(k \<mapsto> v) \<and> ht_n htab1 = ht_n htab"
proof (cases "ht_map htab k")
  case None
  then have "k \<notin> dom (ht_map htab)" by blast
  then have "unat (ht_filled htab) \<noteq> unat (ht_size htab)"
    using assms(3) card_dom_ht_map [OF assms(1)] by (simp add: ht_n_def)
  then have nf: "ht_filled htab \<noteq> ht_size htab" by (simp add: word_unat_eq_iff)
  have s: "hk_strdup_ok hooks k" "hk_strdup_ok hooks v" using assms(2) by (simp_all add: accepting_def)
  show ?thesis
    by (rule enter_absent [OF assms(1) None s, of flag], intro exI, rule conjI, assumption)
      (use assms(2) nf in \<open>auto simp: accepting_def ht_n_def\<close>)
next
  case (Some w)
  have s: "hk_strdup_ok hooks v" using assms(2) by (simp add: accepting_def)
  show ?thesis
    by (rule enter_present [OF assms(1) Some s, of flag], intro exI, rule conjI, assumption)
      (use assms(2) in \<open>auto simp: accepting_def ht_n_def\<close>)
qed

lemma accepting_remove:
  assumes "wf_htab htab" "accepting hooks htab"
  shows "\<exists>ret err htab1. hdelete_r hooks k htab flag = Some (ret, err, htab1) \<and> wf_htab htab1 \<and>
    accepting hooks htab1 \<and> ht_map htab1 = (ht_map htab)(k := None) \<and> ht_n htab1 = ht_n htab"
proof (cases "ht_map htab k")
  case None
  then have "(ht_map htab)(k := None) = ht_map htab" by auto
  then show ?thesis using hdelete_absent [OF assms(1) None] assms by simp
next
  case (Some w)
  show ?thesis
    by (rule hdelete_present [OF assms(1) Some, of hooks flag], intro exI, rule conjI, assumption)
      (use assms(2) in \<open>auto simp: accepting_def ht_n_def\<close>)
qed

interpretation hs: string_store table_inv table_lookup table_room table_enter table_remove
proof
  fix s :: table_state and k v :: cstr
  obtain hooks flag htab where s: "s = (hooks, flag, htab)" by (cases s)
  show "finite (dom (table_lookup s))" if "table_inv s"
    using that card_dom_ht_map(2) by (simp add: s)
  show "\<exists>s'. table_enter s k v = Some s' \<and> table_inv s' \<and> table_lookup s' = (table_lookup s)(k \<mapsto> v) \<and>
      table_room s' = table_room s"
    if "table_inv s" "card (insert k (dom (table_lookup s))) \<le> table_room s"
    using that accepting_enter [of htab hooks k v flag] by (auto simp: s)
  show "\<exists>s'. table_remove s k = Some s' \<and> table_inv s' \<and> table_lookup s' = (table_lookup s)(k := None) \<and>
      table_room s' = table_room s"
    if "table_inv s"
    using that accepting_remove [of htab hooks k flag] by (auto simp: s)
qed

section \<open>Properties\<close>

text \<open>A small table and hooks that accept everything, for the examples.\<close>

definition table5 :: hsearch_data where
  "table5 = \<lparr>ht_table = Some (replicate 6 env_entry_node_zero), ht_size = 5, ht_filled = 0, ht_change_ok = None\<rparr>"

definition calm_hooks :: env_hooks where
  "calm_hooks = \<lparr>hk_callback = \<lambda>cb n v op_code f. 0, hk_callback_init = \<lambda>htab e. None,
     hk_flags_init = \<lambda>htab e. ee_flags e, hk_strdup_ok = \<lambda>s. True, hk_regex = None\<rparr>"

lemma prime_5: "prime_size 5"
  by code_simp

lemma table5_ok: "wf_htab table5 \<and> ht_map table5 = Map.empty"
  by (rule empty_wf [where sz = 5]) (simp_all add: prime_5 table5_def)

lemma calm_accepting: "ht_change_ok htab = None \<Longrightarrow> accepting calm_hooks htab"
  by (simp add: accepting_def calm_hooks_def)

text \<open>
  C12. Searching for a key (\<open>hsearch_r\<close> with \<open>ENV_FIND\<close>) always returns and is the lookup in the map of
  the table. For a key that has a value it gives the positive index of the slot with that key and
  value; otherwise it gives 0, a NULL entry and \<open>ESRCH\<close>. The table does not change.
\<close>

theorem hsearch_find_correct:
  assumes "wf_htab htab"
  shows "case ht_map htab key of
      None \<Rightarrow> hsearch_r hooks key data ENV_FIND htab flag = Some (0, None, ESRCH, htab)
    | Some v \<Rightarrow> (\<exists>i. 1 \<le> i \<and> i \<le> ht_n htab \<and>
        hsearch_r hooks key data ENV_FIND htab flag = Some (int i, Some (of_nat i), 0, htab) \<and>
        ht_key htab i = Some key \<and> ht_data htab i = Some v)"
proof (cases "ht_map htab key")
  case None
  then show ?thesis using find_absent [OF assms None] by simp
next
  case (Some v)
  obtain i where "i \<in> {1..ht_n htab}" "holds_key htab key i" "ht_data htab i = Some v"
      "hsearch_r hooks key data ENV_FIND htab flag = Some (int i, Some (of_nat i), 0, htab)"
    by (rule find_present [OF assms Some])
  then show ?thesis using Some by (auto simp: holds_key_def)
qed

theorem hsearch_find_correct_witness:
  "\<exists>htab i. wf_htab htab \<and> ht_map htab [98] = Some [49] \<and> 1 \<le> i \<and>
     hsearch_r calm_hooks [98] None ENV_FIND htab 0 = Some (int i, Some (of_nat i), 0, htab) \<and> ht_data htab i = Some [49]"
proof -
  obtain htab where h: "wf_htab htab" "ht_map htab = (ht_map table5)([98] \<mapsto> [49])"
    using accepting_enter [of table5 calm_hooks "[98]" "[49]" 0] table5_ok calm_accepting [of table5]
    by (auto simp: table5_def ht_n_def)
  then show ?thesis using table5_ok
      hsearch_find_correct [OF h(1), where key = "[98]" and hooks = calm_hooks and data = None and flag = 0] by auto
qed



text \<open>
  C17. Deleting a key (\<open>hdelete_r\<close>) always returns and keeps the table well-formed. A key without a
  value gives \<open>-ENOENT\<close>, a veto of \<open>change_ok\<close> or of the callback gives \<open>-EPERM\<close> or \<open>-EINVAL\<close> and
  changes nothing; otherwise it returns 0 and exactly that key is gone.
\<close>

theorem hdelete_correct:
  assumes "wf_htab htab"
  shows "\<exists>ret err htab'. hdelete_r hooks key htab flag = Some (ret, err, htab') \<and> wf_htab htab' \<and>
    (if ht_map htab key = None then ret = - ENOENT \<and> htab' = htab
     else ret \<in> {- EPERM, - EINVAL} \<and> htab' = htab \<or> ret = 0 \<and> ht_map htab' = (ht_map htab)(key := None))"
proof (cases "ht_map htab key")
  case None
  then show ?thesis using hdelete_absent [OF assms None] assms by simp
next
  case (Some w)
  show ?thesis
    by (rule hdelete_present [OF assms Some, of hooks flag], intro exI, rule conjI, assumption) (use Some in auto)
qed

theorem hdelete_correct_witness:
  "\<exists>htab ret err htab'. ht_map htab = [[98] \<mapsto> [49]] \<and> hdelete_r calm_hooks [98] htab 0 = Some (ret, err, htab') \<and>
     wf_htab htab' \<and> (htab' = htab \<or> ht_map htab' = Map.empty)"
proof -
  obtain htab where h: "wf_htab htab" "ht_map htab = (ht_map table5)([98] \<mapsto> [49])"
    using accepting_enter [of table5 calm_hooks "[98]" "[49]" 0] table5_ok calm_accepting [of table5]
    by (auto simp: table5_def ht_n_def)
  have m: "ht_map htab = [[98] \<mapsto> [49]]" using h(2) table5_ok by simp
  have "\<exists>ret err htab'. hdelete_r calm_hooks [98] htab 0 = Some (ret, err, htab') \<and> wf_htab htab' \<and>
      (htab' = htab \<or> ht_map htab' = (ht_map htab)([98] := None))"
    using hdelete_correct [OF h(1), of calm_hooks "[98]" 0] by (auto split: if_splits)
  then show ?thesis using m by (intro exI [of _ htab]) simp
qed



text \<open>
  C9. With hooks that accept everything, the hash table implements a finite map: any sequence of
  entering and deleting, starting from any well-formed table, returns from every call, succeeds as
  long as the distinct keys fit in the table, and ends in a table whose map is what the same sequence
  of updates and removals makes of the first table's map.
\<close>

theorem hashtable_refines_map:
  assumes "wf_htab htab" "accepting hooks htab"
    "card (dom (ht_map htab) \<union> store_op_key ` set ops) \<le> ht_n htab"
  shows "\<exists>htab'. run_store table_enter table_remove ops (hooks, flag, htab) = Some (hooks, flag, htab') \<and>
    wf_htab htab' \<and> ht_map htab' = foldl apply_store_op (ht_map htab) ops"
proof -
  have keep: "run_store table_enter table_remove xs (hooks, flag, h) = Some s \<Longrightarrow> \<exists>h'. s = (hooks, flag, h')" for xs h s
  proof (induction xs arbitrary: h)
    case (Cons x xs)
    then show ?case by (cases x) (auto simp: Option.bind_eq_Some_conv split: if_splits prod.splits)
  qed auto
  obtain s where s: "run_store table_enter table_remove ops (hooks, flag, htab) = Some s" "table_inv s"
      "table_lookup s = foldl apply_store_op (ht_map htab) ops"
    using hs.run_law [of "(hooks, flag, htab)" ops] assms by auto
  obtain h' where "s = (hooks, flag, h')" using keep [OF s(1)] by blast
  then show ?thesis using s by simp
qed

theorem hashtable_refines_map_witness:
  "\<exists>htab'. run_store table_enter table_remove [StoreEnter [98] [49], StoreEnter [103] [50], StoreRemove [98]]
       (calm_hooks, 0, table5) = Some (calm_hooks, 0, htab') \<and>
     ht_map htab' = [[103] \<mapsto> [50]]"
proof -
  have "card {[98], [103] :: cstr} \<le> 5" by simp
  then show ?thesis
    using hashtable_refines_map [of table5 calm_hooks "[StoreEnter [98] [49], StoreEnter [103] [50], StoreRemove [98]]" 0]
      table5_ok calm_accepting [of table5]
    by (auto simp: table5_def ht_n_def insert_commute fun_upd_twist)
qed

end
