(* ===== verification/Hashtable_Io.thy ===== *)
theory Hashtable_Io
  imports Hashtable_Props
begin

text \<open>
  Exporting the table as text and importing it, the second half of \<open>lib/hashtable.c\<close>. Sizes are
  natural numbers. The result of an export is the text it writes to the buffer, whose other bytes are
  0; whether the text fits is a property, not part of the definition. An import reads its copy of the
  text from left to right and writes only to what it has read, so the unread rest of the copy is its
  state.
\<close>

section \<open>Export\<close>

definition cmpkey :: "env_entry \<Rightarrow> env_entry \<Rightarrow> int" where
  "cmpkey e1 e2 = strcmp_compar (the (ee_key e1)) (the (ee_key e2))"

fun str_contains :: "cstr \<Rightarrow> cstr \<Rightarrow> bool" where
  "str_contains s pat = (str_prefix pat s \<or> (case s of [] \<Rightarrow> False | c # t \<Rightarrow> str_contains t pat))"

declare str_contains.simps [simp del]

definition match_string :: "env_hooks \<Rightarrow> int \<Rightarrow> cstr \<Rightarrow> cstr \<Rightarrow> (cstr \<Rightarrow> bool) option \<Rightarrow> bool" where
  "match_string hooks flag str pat priv =
     (let meth = flag AND H_MATCH_METHOD
      in if meth = H_MATCH_IDENT then str = pat
         else if meth = H_MATCH_SUBSTR then str_contains str pat
         else if meth = H_MATCH_REGEX \<and> hk_regex hooks \<noteq> None then (case priv of None \<Rightarrow> False | Some slre \<Rightarrow> slre str)
         else False)"

fun match_entry :: "env_hooks \<Rightarrow> env_entry \<Rightarrow> int \<Rightarrow> cstr list \<Rightarrow> bool" where
  "match_entry hooks ep flag [] = False"
| "match_entry hooks ep flag (arg # argv) =
     (let priv = (case hk_regex hooks of None \<Rightarrow> None | Some compile \<Rightarrow> compile arg)
      in if hk_regex hooks \<noteq> None \<and> priv = None then False
         else if flag AND H_MATCH_KEY \<noteq> 0 \<and> match_string hooks flag (the (ee_key ep)) arg priv then True
         else if flag AND H_MATCH_DATA \<noteq> 0 \<and> match_string hooks flag (the (ee_data ep)) arg priv then True
         else match_entry hooks ep flag argv)"

definition export_selected :: "env_hooks \<Rightarrow> int \<Rightarrow> cstr list \<Rightarrow> env_entry_node \<Rightarrow> bool" where
  "export_selected hooks flag argv node \<longleftrightarrow> en_used node > 0 \<and>
     \<not> (argv \<noteq> [] \<and> \<not> match_entry hooks (en_entry node) flag argv) \<and>
     \<not> (flag AND H_HIDE_DOT \<noteq> 0 \<and> (case the (ee_key (en_entry node)) of [] \<Rightarrow> False | c # s \<Rightarrow> c = 46))"

definition export_list :: "env_hooks \<Rightarrow> hsearch_data \<Rightarrow> int \<Rightarrow> cstr list \<Rightarrow> env_entry list" where
  "export_list hooks htab flag argv =
     map en_entry (filter (export_selected hooks flag argv) (drop 1 (take (unat (ht_size htab) + 1) (the (ht_table htab)))))"

text \<open>The length that the first pass computes for one entry.\<close>

definition export_entry_len :: "u8 \<Rightarrow> env_entry \<Rightarrow> nat" where
  "export_entry_len sep e =
     length (the (ee_key e)) +
     (if sep = 0 then length (the (ee_data e))
      else (\<Sum>c\<leftarrow>the (ee_data e). if c = sep \<or> c = 92 then 2 else 1)) + 2"

definition export_totlen :: "u8 \<Rightarrow> env_entry list \<Rightarrow> nat" where
  "export_totlen sep es = (\<Sum>e\<leftarrow>es. export_entry_len sep e)"

text \<open>The second pass.\<close>

definition export_value :: "u8 \<Rightarrow> cstr \<Rightarrow> u8 list" where
  "export_value sep s = concat (map (\<lambda>c. if c = sep \<or> c = 92 then [92, c] else [c]) s)"

definition export_entry :: "u8 \<Rightarrow> env_entry \<Rightarrow> u8 list" where
  "export_entry sep e = the (ee_key e) @ [61] @ export_value sep (the (ee_data e)) @ [sep]"

definition export_text :: "u8 \<Rightarrow> env_entry list \<Rightarrow> u8 list" where
  "export_text sep es = concat (map (export_entry sep) es) @ [0]"

text \<open>
  \<open>hexport_r\<close>: the error number, or the size it returns and the text it has written to the buffer. The
  buffer is the caller's or a new one.
\<close>

definition hexport_r ::
  "env_hooks \<Rightarrow> allocator \<Rightarrow> hsearch_data \<Rightarrow> u8 \<Rightarrow> int \<Rightarrow> bool \<Rightarrow> nat \<Rightarrow> cstr list \<Rightarrow> int + nat \<times> u8 list" where
  "hexport_r hooks calloc htab sep flag has_resp bsize argv =
     (let es = export_list hooks htab flag argv;
          totlen = export_totlen sep es;
          sorted = qsort cmpkey es;
          sz = (if bsize \<noteq> 0 then bsize else totlen + 1)
      in if bsize \<noteq> 0 \<and> bsize < totlen + 1 then Inl ENOMEM
         else if \<not> has_resp \<and> \<not> calloc sz then Inl ENOMEM
         else Inr (sz, export_text sep sorted))"

section \<open>Import\<close>

text \<open>An entry of the list of variables is None once it has been seen.\<close>

definition drop_var_from_set :: "cstr \<Rightarrow> cstr option list \<Rightarrow> bool \<times> cstr option list" where
  "drop_var_from_set name vars =
     (if vars = [] then (True, vars)
      else (Some name \<in> set vars, map (\<lambda>v. if v = Some name then None else v) vars))"

text \<open>
  The removal of carriage returns: the bytes that are kept, and how many were left out. The bytes are
  those of the text, without the terminator behind it.
\<close>

fun crlf_kept :: "u8 list \<Rightarrow> u8 list" where
  "crlf_kept [] = []"
| "crlf_kept (c # rest) =
     (if c = 0 then []
      else if c = 13 \<and> rest \<noteq> [] \<and> hd rest = 10 then crlf_kept rest
      else c # crlf_kept rest)"

fun crlf_ignored :: "u8 list \<Rightarrow> nat" where
  "crlf_ignored [] = 0"
| "crlf_ignored (c # rest) =
     (if c = 0 then 0
      else if c = 13 \<and> rest \<noteq> [] \<and> hd rest = 10 then Suc (crlf_ignored rest)
      else crlf_ignored rest)"

datatype import_item = ImportSkip | ImportDelete cstr | ImportSet cstr cstr

fun import_value :: "u8 \<Rightarrow> u8 list \<Rightarrow> u8 list \<times> u8 list" where
  "import_value sep [] = ([], [])"
| "import_value sep (c # rest) =
     (if c = 0 \<or> c = sep then ([], c # rest)
      else
        case rest of
          d # rest1 \<Rightarrow>
            if c = 92 \<and> d \<noteq> 0 then (case import_value sep rest1 of (v, r) \<Rightarrow> (d # v, r))
            else (case import_value sep rest of (v, r) \<Rightarrow> (c # v, r))
        | [] \<Rightarrow> ([c], []))"

text \<open>
  One round of the parser at the rest of the buffer: what it finds, and the rest behind it. The
  terminator at the end of the buffer stops every inner loop.
\<close>

definition import_entry :: "u8 \<Rightarrow> u8 list \<Rightarrow> import_item \<times> u8 list" where
  "import_entry sep rest0 =
     (let rest = dropWhile isblank rest0
      in if hd rest = 35 then (ImportSkip, tl (dropWhile (\<lambda>c. c \<noteq> 0 \<and> c \<noteq> sep) rest))
         else
           let name = takeWhile (\<lambda>c. c \<noteq> 61 \<and> c \<noteq> 0 \<and> c \<noteq> sep) rest;
               dp = dropWhile (\<lambda>c. c \<noteq> 61 \<and> c \<noteq> 0 \<and> c \<noteq> sep) rest
           in if hd dp = 0 \<or> hd (tl dp) = 0 \<or> hd dp = sep \<or> hd (tl dp) = sep
              then (ImportDelete name, tl (if hd dp = 61 then tl dp else dp))
              else case import_value sep (tl dp) of (value, dp1) \<Rightarrow> (ImportSet name value, tl dp1))"

text \<open>
  What is done with an entry. The result is None when a search does not end, the error number, or
  what is left of the list of variables and the table.
\<close>

type_synonym import_state = "int \<times> hsearch_data + cstr option list \<times> hsearch_data"

fun himport_item ::
  "env_hooks \<Rightarrow> int \<Rightarrow> cstr option list \<Rightarrow> hsearch_data \<Rightarrow> import_item \<Rightarrow> import_state option" where
  "himport_item hooks flag vars htab ImportSkip = Some (Inr (vars, htab))"
| "himport_item hooks flag vars htab (ImportDelete name) =
     (case drop_var_from_set name vars of (found, vars1) \<Rightarrow>
        if \<not> found then Some (Inr (vars1, htab))
        else map_option (\<lambda>(ret, err, htab1). Inr (vars1, htab1)) (hdelete_r hooks name htab flag))"
| "himport_item hooks flag vars htab (ImportSet name value) =
     (if name = [] then Some (Inl (EINVAL, htab))
      else case drop_var_from_set name vars of (found, vars1) \<Rightarrow>
        if \<not> found then Some (Inr (vars1, htab))
        else map_option (\<lambda>(ret, rv, err, htab1). Inr (vars1, htab1))
               (hsearch_r hooks name (Some value) ENV_ENTER htab flag))"

text \<open>
  The parsing loop: \<open>blen\<close> is the length of the buffer with its terminator and \<open>sz\<close> the size of the
  text in it. Every round shortens the rest of a terminated buffer; the test for it only makes the
  function total.
\<close>

function himport_loop ::
  "env_hooks \<Rightarrow> int \<Rightarrow> u8 \<Rightarrow> nat \<Rightarrow> nat \<Rightarrow> cstr option list \<Rightarrow> hsearch_data \<Rightarrow> u8 list \<Rightarrow> import_state option" where
  "himport_loop hooks flag sep blen sz vars htab rest =
     Option.bind (himport_item hooks flag vars htab (fst (import_entry sep rest))) (\<lambda>r.
       case r of
         Inl e \<Rightarrow> Some (Inl e)
       | Inr (vars1, htab1) \<Rightarrow>
           if blen - length (snd (import_entry sep rest)) < sz \<and> hd (snd (import_entry sep rest)) \<noteq> 0 \<and>
              length (snd (import_entry sep rest)) < length rest
           then himport_loop hooks flag sep blen sz vars1 htab1 (snd (import_entry sep rest))
           else Some (Inr (vars1, htab1)))"
  by pat_completeness auto
termination
  by (relation "measure (\<lambda>(hooks, flag, sep, blen, sz, vars, htab, rest). length rest)") auto

fun himport_leftover :: "env_hooks \<Rightarrow> int \<Rightarrow> cstr option list \<Rightarrow> hsearch_data \<Rightarrow> hsearch_data option" where
  "himport_leftover hooks flag [] htab = Some htab"
| "himport_leftover hooks flag (None # vars) htab = himport_leftover hooks flag vars htab"
| "himport_leftover hooks flag (Some v # vars) htab =
     Option.bind (hdelete_r hooks v htab flag) (\<lambda>(ret, err, htab1). himport_leftover hooks flag vars htab1)"

definition ENV_MIN_ENTRIES :: int where "ENV_MIN_ENTRIES = 64"
definition ENV_MAX_ENTRIES :: int where "ENV_MAX_ENTRIES = 512"

text \<open>The table an import starts from, or the error of creating one.\<close>

definition himport_table ::
  "allocator \<Rightarrow> hsearch_data \<Rightarrow> nat \<Rightarrow> int \<Rightarrow> cstr list \<Rightarrow> (int \<times> int \<times> hsearch_data) option" where
  "himport_table calloc htab sz flag vars =
     (let htab1 = (if flag AND H_NOCLEAR = 0 \<and> vars = [] \<and> ht_table htab \<noteq> None then hdestroy_r htab else htab)
      in if ht_table htab1 = None then
           let nent = ENV_MIN_ENTRIES + int (sz div 8);
               nent1 = (if nent > ENV_MAX_ENTRIES then ENV_MAX_ENTRIES else nent)
           in hcreate_r calloc (word_of_int nent1) htab1
         else Some (1, 0, htab1))"

text \<open>
  \<open>himport_r\<close>: the return value, the error number and the table; \<open>env_append\<close> is the option
  \<open>CONFIG_ENV_APPEND\<close>. The parameter \<open>size\<close> of the source is the length of the text.
\<close>

definition himport_r ::
  "env_hooks \<Rightarrow> allocator \<Rightarrow> bool \<Rightarrow> hsearch_data \<Rightarrow> u8 list \<Rightarrow> u8 \<Rightarrow> int \<Rightarrow> bool \<Rightarrow> cstr list \<Rightarrow>
   (int \<times> int \<times> hsearch_data) option" where
  "himport_r hooks malloc env_append htab env sep flag0 crlf_is_lf vars =
     (let sz = length env; flag = (if env_append then flag0 OR H_NOCLEAR else flag0)
      in if \<not> malloc (sz + 1) then Some (0, ENOMEM, htab)
         else Option.bind (himport_table malloc htab sz flag vars) (\<lambda>(ret, err, htab1).
           if ret = 0 then Some (0, err, htab1)
           else if sz = 0 then Some (1, 0, htab1)
           else
             let buf = env @ [0];
                 kept = crlf_kept env;
                 buf1 = (if crlf_is_lf then kept @ drop (length kept) buf else buf);
                 sz1 = (if crlf_is_lf then sz - crlf_ignored env else sz)
             in Option.bind (himport_loop hooks flag sep (sz + 1) sz1 (map Some vars) htab1 buf1) (\<lambda>r.
                  case r of
                    Inl (e, htab2) \<Rightarrow> Some (0, e, htab2)
                  | Inr (left, htab2) \<Rightarrow>
                      if flag AND H_NOCLEAR \<noteq> 0 then Some (1, 0, htab2)
                      else map_option (\<lambda>htab3. (1, 0, htab3)) (himport_leftover hooks flag left htab2))))"

declare himport_loop.simps [simp del]

end
