(* ===== verification/Hashtable_Roundtrip.thy ===== *)
theory Hashtable_Roundtrip
  imports Hashtable_Io
begin

text \<open>
  Exporting and importing: what is written stays in the buffer, except in one case, and reading it
  back gives the same variables.
\<close>

section \<open>Parsing one exported entry\<close>

definition exportable_key :: "u8 \<Rightarrow> cstr \<Rightarrow> bool" where
  "exportable_key sep k \<longleftrightarrow> k \<noteq> [] \<and> \<not> isblank (hd k) \<and> hd k \<noteq> 35 \<and> (\<forall>c\<in>set k. c \<noteq> 0 \<and> c \<noteq> 61 \<and> c \<noteq> sep)"

definition exportable_value :: "cstr \<Rightarrow> bool" where
  "exportable_value v \<longleftrightarrow> v \<noteq> [] \<and> 0 \<notin> set v"

lemma import_value_plain:
  "c \<noteq> 0 \<Longrightarrow> c \<noteq> sep \<Longrightarrow> c \<noteq> 92 \<Longrightarrow> import_value sep r = (v, r') \<Longrightarrow> import_value sep (c # r) = (c # v, r')"
  by (cases r) simp_all

lemma import_value_escaped:
  "d \<noteq> 0 \<Longrightarrow> 92 \<noteq> sep \<Longrightarrow> import_value sep r = (v, r') \<Longrightarrow> import_value sep (92 # d # r) = (d # v, r')"
  by simp

lemma import_export_value:
  assumes "sep = 0 \<or> sep = 10" "0 \<notin> set v"
  shows "import_value sep (export_value sep v @ sep # tail) = (v, sep # tail)"
  using assms(2)
proof (induction v)
  case Nil
  then show ?case by (simp add: export_value_def)
next
  case (Cons c v)
  have IH: "import_value sep (export_value sep v @ sep # tail) = (v, sep # tail)" using Cons by simp
  have c: "c \<noteq> 0" "92 \<noteq> sep" using Cons.prems assms(1) by auto
  show ?case
  proof (cases "c = sep \<or> c = 92")
    case True
    then have "export_value sep (c # v) = 92 # c # export_value sep v" by (simp add: export_value_def)
    then show ?thesis using import_value_escaped [OF c IH] by simp
  next
    case False
    then have "export_value sep (c # v) = c # export_value sep v" by (simp add: export_value_def)
    then show ?thesis using import_value_plain [OF c(1) _ _ IH] False by simp
  qed
qed

lemma export_value_hd:
  assumes "sep = 0 \<or> sep = 10" "exportable_value v"
  shows "hd (export_value sep v @ rest) \<noteq> 0 \<and> hd (export_value sep v @ rest) \<noteq> sep"
  using assms by (cases v) (auto simp: export_value_def exportable_value_def)

lemma import_exported_entry:
  assumes "sep = 0 \<or> sep = 10" "exportable_key sep k" "exportable_value v" "ee_key e = Some k" "ee_data e = Some v"
  shows "import_entry sep (export_entry sep e @ tail) = (ImportSet k v, tail)"
proof -
  let ?rest = "k @ 61 # export_value sep v @ sep # tail"
  let ?P = "\<lambda>c :: u8. c \<noteq> 61 \<and> c \<noteq> 0 \<and> c \<noteq> sep"
  have all: "\<forall>c\<in>set k. ?P c" using assms(2) by (auto simp: exportable_key_def)
  have e: "export_entry sep e @ tail = ?rest" using assms(4,5) by (simp add: export_entry_def)
  have b: "dropWhile isblank ?rest = ?rest" "hd ?rest \<noteq> 35"
    using assms(2) by (cases k; simp add: exportable_key_def)+
  have d: "takeWhile ?P ?rest = k" "dropWhile ?P ?rest = 61 # export_value sep v @ sep # tail"
    using all by (auto simp: takeWhile_append dropWhile_append)
  have "0 \<notin> set v" using assms(3) by (simp add: exportable_value_def)
  note iv = import_export_value [OF assms(1) this, of tail]
  have "(61 :: u8) \<noteq> sep" using assms(1) by auto
  then show ?thesis using b d iv export_value_hd [OF assms(1,3), of "sep # tail"]
    by (simp only: e import_entry_def Let_def) simp
qed

section \<open>Importing exported entries\<close>

section \<open>Entries that may be created\<close>

text \<open>
  Nothing vetoes the creation of a variable: neither \<open>change_ok\<close>, given the flags that \<open>env_flags_init\<close>
  chooses for it, nor the callback that \<open>env_callback_init\<close> chooses.
\<close>

definition creatable ::
  "env_hooks \<Rightarrow> (env_entry \<Rightarrow> cstr option \<Rightarrow> env_op \<Rightarrow> int \<Rightarrow> int) option \<Rightarrow> int \<Rightarrow> cstr \<Rightarrow> cstr \<Rightarrow> bool" where
  "creatable hooks change_ok flag key v \<longleftrightarrow>
     (\<forall>htab hval idx. let e = new_entry hooks key v htab hval idx
        in (case change_ok of None \<Rightarrow> True | Some f \<Rightarrow> f e (Some v) env_op_create flag = 0) \<and>
           do_callback hooks e key (Some v) env_op_create flag = 0)"

lemma enter_absent_slot:
  assumes "wf_htab htab" "ht_map htab key = None"
  obtains s where "unat s \<in> {1..ht_n htab}" "on_path htab key (unat s) \<and> ht_used htab (unat s) \<le> 0 \<or> ht_filled htab = ht_size htab"
    "hsearch_r hooks key (Some v) ENV_ENTER htab flag =
      Some (if ht_filled htab = ht_size htab then (0, None, ENOMEM, htab)
            else henter_slot hooks key (Some v) htab flag (hash_first htab key) s)"
proof -
  have "\<forall>i\<in>{1..ht_n htab}. \<not> holds_key htab key i" using assms by (simp add: ht_map_None_iff)
  then obtain idx fd where p: "hsearch_probe hooks key (Some v) ENV_ENTER htab flag = Some (ProbeStop idx fd)"
      "good_stop htab key idx fd"
    by (rule hsearch_probe_absent [OF assms(1)])
  define s where "s = (if fd \<noteq> 0 then fd else idx)"
  have "ht_filled htab = ht_size htab" if full: "live_slots htab = {1..ht_n htab}"
  proof -
    have "unat (ht_filled htab) = unat (ht_size htab)" using assms(1) full by (simp add: wf_htab_def ht_n_def)
    then show ?thesis by (simp add: word_unat_eq_iff)
  qed
  then show thesis using p by (intro that [of s]) (auto simp: good_stop_def s_def Let_def hsearch_r_def)
qed

lemma enter_creatable:
  assumes "wf_htab htab" "ht_map htab k = None" "\<forall>s. hk_strdup_ok hooks s" "creatable hooks (ht_change_ok htab) flag k v"
    "card (insert k (dom (ht_map htab))) \<le> ht_n htab"
  shows "\<exists>ret rv err htab1. hsearch_r hooks k (Some v) ENV_ENTER htab flag = Some (ret, rv, err, htab1) \<and> ret \<noteq> 0 \<and>
    wf_htab htab1 \<and> ht_map htab1 = (ht_map htab)(k \<mapsto> v) \<and> ht_n htab1 = ht_n htab \<and> ht_change_ok htab1 = ht_change_ok htab"
proof -
  have nf: "ht_filled htab \<noteq> ht_size htab"
  proof
    assume "ht_filled htab = ht_size htab"
    moreover have "k \<notin> dom (ht_map htab)" using assms(2) by blast
    ultimately show False using assms(5) card_dom_ht_map [OF assms(1)] by (simp add: ht_n_def)
  qed
  obtain s where s1: "unat s \<in> {1..ht_n htab}"
      "on_path htab k (unat s) \<and> ht_used htab (unat s) \<le> 0 \<or> ht_filled htab = ht_size htab"
      "hsearch_r hooks k (Some v) ENV_ENTER htab flag =
        Some (if ht_filled htab = ht_size htab then (0, None, ENOMEM, htab)
              else henter_slot hooks k (Some v) htab flag (hash_first htab k) s)"
    by (rule enter_absent_slot [OF assms(1,2)])
  then have s: "on_path htab k (unat s)" "ht_used htab (unat s) \<le> 0"
      "hsearch_r hooks k (Some v) ENV_ENTER htab flag = Some (henter_slot hooks k (Some v) htab flag (hash_first htab k) s)"
    using nf by simp_all
  define e where "e = new_entry hooks k v htab (hash_first htab k) s"
  define htab3 where "htab3 = put_node htab (unat s)
    ((ht_node htab s)\<lparr>en_used := sint (hash_first htab k), en_entry := e\<rparr>) (ht_filled htab + 1)"
  have "ht_change_ok htab3 = ht_change_ok htab" "ht_n htab3 = ht_n htab" by (simp_all add: htab3_def)
  moreover from this have "\<not> denied htab3 e (Some v) env_op_create flag" "do_callback hooks e k (Some v) env_op_create flag = 0"
    using assms(4) by (auto simp: creatable_def denied_def e_def Let_def split: option.splits)
  then have "hsearch_r hooks k (Some v) ENV_ENTER htab flag = Some (1, Some s, 0, htab3)"
    using s(3) henter_slot_result [OF _ _ e_def htab3_def, of flag] assms(3) by simp
  moreover have "wf_htab htab3 \<and> ht_map htab3 = (ht_map htab)(k \<mapsto> v)"
    using create_wf [OF assms(1) s1(1) s(1,2) assms(2) _ _ htab3_def] new_entry_key e_def by simp
  ultimately show ?thesis
    by (intro exI [of _ 1] exI [of _ "Some s"] exI [of _ 0] exI [of _ htab3]) simp
qed

lemma accepting_creatable: "accepting hooks htab \<Longrightarrow> creatable hooks (ht_change_ok htab) flag k v"
  by (simp add: creatable_def accepting_def do_callback_def Let_def split: option.split)

definition entry_pair :: "env_entry \<Rightarrow> cstr \<times> cstr" where
  "entry_pair e = (the (ee_key e), the (ee_data e))"

definition exportable :: "u8 \<Rightarrow> env_entry \<Rightarrow> bool" where
  "exportable sep e \<longleftrightarrow> (\<exists>k v. ee_key e = Some k \<and> ee_data e = Some v \<and> exportable_key sep k \<and> exportable_value v)"

lemma export_entry_hd:
  assumes "exportable sep e"
  shows "export_entry sep e \<noteq> []" "hd (export_entry sep e) \<noteq> 0" "4 \<le> length (export_entry sep e)"
proof -
  from assms obtain k v where kv: "ee_key e = Some k" "ee_data e = Some v" "exportable_key sep k" "exportable_value v"
    by (auto simp: exportable_def)
  obtain a k' where "k = a # k'" "a \<noteq> 0" using kv(3) by (cases k) (auto simp: exportable_key_def)
  moreover obtain b v' where "v = b # v'" using kv(4) by (cases v) (auto simp: exportable_value_def)
  ultimately show "export_entry sep e \<noteq> []" "hd (export_entry sep e) \<noteq> 0" "4 \<le> length (export_entry sep e)"
    using kv by (simp_all add: export_entry_def export_value_def)
qed

lemma import_exported:
  assumes "sep = 0 \<or> sep = 10" "\<forall>e\<in>set es. exportable sep e" "es \<noteq> []"
    "wf_htab htab" "\<forall>e\<in>set es. creatable hooks (ht_change_ok htab) flag (fst (entry_pair e)) (snd (entry_pair e))"
    "card (dom (ht_map htab) \<union> fst ` entry_pair ` set es) \<le> ht_n htab"
    "blen = Suc sz" "rest = concat (map (export_entry sep) es) @ 0 # zs" "zs \<noteq> []"
    "length rest \<le> blen" "\<forall>s. hk_strdup_ok hooks s" "distinct (map fst (map entry_pair es))"
    "dom (ht_map htab) \<inter> fst ` entry_pair ` set es = {}"
  shows "\<exists>htab'. himport_loop hooks flag sep blen sz [] htab rest = Some (Inr ([], htab')) \<and> wf_htab htab' \<and>
    ht_map htab' = foldl (\<lambda>m e. m(fst (entry_pair e) \<mapsto> snd (entry_pair e))) (ht_map htab) es"
  using assms(2-6,8,10,12,13)
proof (induction es arbitrary: htab rest)
  case (Cons e es)
  define tail where "tail = concat (map (export_entry sep) es) @ 0 # zs"
  have ex: "exportable sep e" using Cons.prems(1) by simp
  then obtain k v where kv: "ee_key e = Some k" "ee_data e = Some v" "exportable_key sep k" "exportable_value v"
    by (auto simp: exportable_def)
  have rest: "rest = export_entry sep e @ tail" using Cons.prems(6) by (simp add: tail_def)
  have ie: "import_entry sep rest = (ImportSet k v, tail)"
    unfolding rest using kv by (intro import_exported_entry [OF assms(1)])
  have fin: "finite (dom (ht_map htab) \<union> fst ` entry_pair ` set (e # es))"
    using card_dom_ht_map(2) [OF Cons.prems(3)] by simp
  have pe: "entry_pair e = (k, v)" using kv by (simp add: entry_pair_def)
  have "insert k (dom (ht_map htab)) \<subseteq> dom (ht_map htab) \<union> fst ` entry_pair ` set (e # es)" using pe by auto
  from card_mono [OF fin this] have "card (insert k (dom (ht_map htab))) \<le> ht_n htab"
    using Cons.prems(5) by linarith
  moreover have "ht_map htab k = None" using Cons.prems(9) pe by auto
  moreover have "creatable hooks (ht_change_ok htab) flag k v" using Cons.prems(4) pe by simp
  ultimately obtain ret rv err htab1 where
    h: "hsearch_r hooks k (Some v) ENV_ENTER htab flag = Some (ret, rv, err, htab1)"
      "wf_htab htab1" "ht_change_ok htab1 = ht_change_ok htab" "ht_map htab1 = (ht_map htab)(k \<mapsto> v)" "ht_n htab1 = ht_n htab"
    using enter_creatable [OF Cons.prems(3) _ assms(11), of k flag v] by blast
  have "k \<noteq> []" using kv(3) by (simp add: exportable_key_def)
  then have item: "himport_item hooks flag [] htab (ImportSet k v) = Some (Inr ([], htab1))"
    using h(1) by (simp add: drop_var_from_set_def)
  show ?case
  proof (cases "es = []")
    case True
    then have "hd tail = 0" by (simp add: tail_def)
    then have "himport_loop hooks flag sep blen sz [] htab rest = Some (Inr ([], htab1))"
      using ie item by (subst himport_loop.simps) simp
    then show ?thesis using h(2)
      by (intro exI [of _ htab1]) (simp only: True foldl.simps pe fst_conv snd_conv h(4) simp_thms)
  next
    case False
    then obtain e1 es1 where es: "es = e1 # es1" by (cases es) auto
    then have "exportable sep e1" using Cons.prems(1) by simp
    from export_entry_hd [OF this] have x: "hd tail \<noteq> 0" "4 \<le> length tail" by (simp_all add: tail_def es)
    have len: "length tail < length rest" using export_entry_hd(1) [OF ex] by (simp add: rest)
    have "blen - length tail < sz" using x len Cons.prems(7) assms(7) by linarith
    then have step: "himport_loop hooks flag sep blen sz [] htab rest = himport_loop hooks flag sep blen sz [] htab1 tail"
      using ie item x len by (subst himport_loop.simps) simp
    have "dom (ht_map htab1) \<union> fst ` entry_pair ` set es = dom (ht_map htab) \<union> fst ` entry_pair ` set (e # es)"
      using h(4) pe by auto
    then have "card (dom (ht_map htab1) \<union> fst ` entry_pair ` set es) \<le> ht_n htab1" using Cons.prems(5) h(5) by simp
    moreover have "\<forall>e\<in>set es. exportable sep e" "length tail \<le> blen" using Cons.prems(1,7) len by simp_all
    moreover have "\<forall>e\<in>set es. creatable hooks (ht_change_ok htab1) flag (fst (entry_pair e)) (snd (entry_pair e))"
      using Cons.prems(4) h(3) by simp
    moreover have "distinct (map fst (map entry_pair es))" "dom (ht_map htab1) \<inter> fst ` entry_pair ` set es = {}"
      using Cons.prems(8,9) h(4) pe by auto
    ultimately have "\<exists>htab'. himport_loop hooks flag sep blen sz [] htab1 tail = Some (Inr ([], htab')) \<and> wf_htab htab' \<and>
        ht_map htab' = foldl (\<lambda>m e. m(fst (entry_pair e) \<mapsto> snd (entry_pair e))) (ht_map htab1) es"
      using False h(2) tail_def by (intro Cons.IH)
    then show ?thesis by (simp only: step h(4) pe foldl.simps fst_conv snd_conv)
  qed
qed simp

lemma import_nothing:
  assumes "wf_htab htab" "ht_map htab = Map.empty" "rest = 0 # zs" "zs \<noteq> []" "set zs \<subseteq> {0}"
  shows "himport_loop hooks flag sep blen sz [] htab rest = Some (Inr ([], htab))"
proof -
  have "import_entry sep rest = (ImportDelete [], zs)" using assms(3) by (simp add: import_entry_def isblank_def)
  moreover have "hd zs = 0" using assms(4,5) by (cases zs) auto
  moreover have "hdelete_r hooks [] htab flag = Some (- ENOENT, ESRCH, htab)"
    using assms(2) by (intro hdelete_absent [OF assms(1)]) simp
  ultimately show ?thesis by (subst himport_loop.simps) (simp add: drop_var_from_set_def)
qed

section \<open>The entries of a table\<close>

lemma export_list_slots:
  assumes "wf_htab htab"
  shows "export_list hooks htab 0 [] =
    map (\<lambda>i. en_entry (the (ht_table htab) ! i)) (filter (\<lambda>i. ht_used htab i > 0) [1..<Suc (ht_n htab)])"
proof -
  let ?tab = "the (ht_table htab)"
  have len: "length ?tab = Suc (ht_n htab)" by (rule wf_htab_length [OF assms])
  have "drop 1 ?tab = map (\<lambda>i. ?tab ! i) [1..<Suc (ht_n htab)]"
    using len by (intro nth_equalityI) (simp_all del: upt_Suc)
  moreover have "export_selected hooks 0 [] = (\<lambda>node. en_used node > 0)"
    by (auto simp: fun_eq_iff export_selected_def)
  ultimately show ?thesis using len
    by (simp add: export_list_def ht_n_def filter_map comp_def ht_used_def del: upt_Suc)
qed

lemma set_live: "set (filter (\<lambda>i. ht_used htab i > 0) [1..<Suc (ht_n htab)]) = live_slots htab"
  by (auto simp: live_slots_def)

lemma live_slot_pair:
  assumes "wf_htab htab" "i \<in> live_slots htab"
  shows "ht_key htab i = Some (fst (entry_pair (en_entry (the (ht_table htab) ! i))))"
    "ht_map htab (fst (entry_pair (en_entry (the (ht_table htab) ! i)))) =
      Some (snd (entry_pair (en_entry (the (ht_table htab) ! i))))"
proof -
  have i: "i \<in> {1..ht_n htab}" "wf_slot htab i" "ht_used htab i > 0"
    using assms by (auto simp: live_slots_def wf_htab_slot)
  from i(2,3) obtain k v where kv: "ht_key htab i = Some k" "ht_data htab i = Some v" by (rule wf_slot_live)
  then have p: "entry_pair (en_entry (the (ht_table htab) ! i)) = (k, v)"
    by (simp add: entry_pair_def ht_key_def ht_data_def)
  have "holds_key htab k i" using kv i by (simp add: holds_key_def)
  then show "ht_key htab i = Some (fst (entry_pair (en_entry (the (ht_table htab) ! i))))"
    "ht_map htab (fst (entry_pair (en_entry (the (ht_table htab) ! i)))) =
      Some (snd (entry_pair (en_entry (the (ht_table htab) ! i))))"
    using ht_map_holds [OF assms(1) _ i(1)] kv p by simp_all
qed

lemma export_list_all:
  assumes "wf_htab htab"
  shows "set (map entry_pair (export_list hooks htab 0 [])) = {(k, v). ht_map htab k = Some v}"
    "distinct (map fst (map entry_pair (export_list hooks htab 0 [])))"
proof -
  show "set (map entry_pair (export_list hooks htab 0 [])) = {(k, v). ht_map htab k = Some v}"
  proof (intro equalityI subsetI)
    fix kv assume "kv \<in> set (map entry_pair (export_list hooks htab 0 []))"
    then obtain i where i: "i \<in> live_slots htab" "kv = entry_pair (en_entry (the (ht_table htab) ! i))"
      unfolding export_list_slots [OF assms] set_map set_live by blast
    then show "kv \<in> {(k, v). ht_map htab k = Some v}" using live_slot_pair(2) [OF assms i(1)] i(2) by (simp add: case_prod_unfold)
  next
    fix kv assume "kv \<in> {(k, v). ht_map htab k = Some v}"
    then obtain k v where kv: "kv = (k, v)" "ht_map htab k = Some v" by (cases kv) auto
    obtain i where i: "i \<in> {1..ht_n htab}" "holds_key htab k i" "ht_data htab i = Some v"
      by (rule ht_map_Some [OF assms kv(2)])
    then have "entry_pair (en_entry (the (ht_table htab) ! i)) = kv" "i \<in> live_slots htab"
      using kv(1) by (simp_all add: holds_key_def entry_pair_def ht_key_def ht_data_def live_slots_def)
    then show "kv \<in> set (map entry_pair (export_list hooks htab 0 []))"
      unfolding export_list_slots [OF assms] set_map set_live by blast
  qed
  have "inj_on (\<lambda>i. fst (entry_pair (en_entry (the (ht_table htab) ! i)))) (live_slots htab)"
  proof (rule inj_onI)
    fix i j assume "i \<in> live_slots htab" "j \<in> live_slots htab"
      "fst (entry_pair (en_entry (the (ht_table htab) ! i))) = fst (entry_pair (en_entry (the (ht_table htab) ! j)))"
    then show "i = j" using live_slot_pair(1) [OF assms, of i] live_slot_pair(1) [OF assms, of j] assms
      by (simp add: wf_htab_def inj_on_def)
  qed
  then show "distinct (map fst (map entry_pair (export_list hooks htab 0 [])))"
    unfolding export_list_slots [OF assms] map_map distinct_map set_live by (simp add: comp_def del: upt_Suc)
qed

lemma foldl_entries:
  "foldl (\<lambda>m e. m(fst (entry_pair e) \<mapsto> snd (entry_pair e))) m es = m ++ map_of (rev (map entry_pair es))"
  by (induction es arbitrary: m) (simp_all add: map_add_def fun_eq_iff split: option.splits)

lemma sorted_entries_map:
  assumes "wf_htab htab" "mset es = mset (export_list hooks htab 0 [])"
  shows "map_of (rev (map entry_pair es)) = ht_map htab" "fst ` entry_pair ` set es = dom (ht_map htab)"
proof -
  have se: "set es = set (export_list hooks htab 0 [])" using assms(2) by (metis set_mset_mset)
  have "mset (map fst (map entry_pair es)) = mset (map fst (map entry_pair (export_list hooks htab 0 [])))"
    using assms(2) by simp
  then have d: "distinct (map fst (rev (map entry_pair es)))"
    using export_list_all(2) [OF assms(1), of hooks] by (metis distinct_rev mset_eq_imp_distinct_iff rev_map)
  have s: "set (rev (map entry_pair es)) = {(k, v). ht_map htab k = Some v}"
    using export_list_all(1) [OF assms(1), of hooks] se by simp
  show "map_of (rev (map entry_pair es)) = ht_map htab"
  proof
    fix k
    have "map_of (rev (map entry_pair es)) k = Some v \<longleftrightarrow> ht_map htab k = Some v" for v
      using map_of_eq_Some_iff [OF d, of k v] s by simp
    then show "map_of (rev (map entry_pair es)) k = ht_map htab k" by (metis not_None_eq)
  qed
  have "fst ` entry_pair ` set es = fst ` set (rev (map entry_pair es))" by simp
  then show "fst ` entry_pair ` set es = dom (ht_map htab)" unfolding s by (auto simp: image_iff dom_def)
qed

lemma sorted_exportable:
  assumes "wf_htab htab" "\<forall>k v. ht_map htab k = Some v \<longrightarrow> exportable_key sep k \<and> exportable_value v" "e \<in> set (export_list hooks htab 0 [])"
  shows "exportable sep e"
proof -
  obtain i where i: "i \<in> live_slots htab" "e = en_entry (the (ht_table htab) ! i)"
    using assms(3) unfolding export_list_slots [OF assms(1)] set_map set_live by blast
  then have "wf_slot htab i" "ht_used htab i > 0" using assms(1) by (auto simp: live_slots_def wf_htab_slot)
  then obtain k v where kv: "ht_key htab i = Some k" "ht_data htab i = Some v" by (rule wf_slot_live)
  then have "ht_map htab k = Some v"
    using live_slot_pair(2) [OF assms(1) i(1)] by (simp add: entry_pair_def ht_key_def ht_data_def)
  then show ?thesis using assms(2) kv i by (auto simp: exportable_def ht_key_def ht_data_def)
qed

section \<open>Bounds of the export\<close>

lemma export_value_length:
  "sep \<noteq> 0 \<Longrightarrow> length (export_value sep v) = (\<Sum>c\<leftarrow>v. if c = sep \<or> c = 92 then 2 else 1)"
  by (induction v) (simp_all add: export_value_def)

lemma export_value_plain: "sep \<notin> set v \<Longrightarrow> 92 \<notin> set v \<Longrightarrow> export_value sep v = v"
  by (induction v) (auto simp: export_value_def)

lemma export_entry_length:
  assumes "sep = 0 \<longrightarrow> 0 \<notin> set (the (ee_data e)) \<and> 92 \<notin> set (the (ee_data e))"
  shows "length (export_entry sep e) = export_entry_len sep e"
  using assms by (simp add: export_entry_def export_entry_len_def export_value_length export_value_plain)

lemma sum_list_qsort: "(\<Sum>e\<leftarrow>qsort cmpkey es. f e) = (\<Sum>e\<leftarrow>es. (f e :: nat))"
  using qsort_mset [of cmpkey es] by (metis mset_map sum_mset_sum_list)

lemma export_text_length:
  assumes "\<forall>e\<in>set es. sep = 0 \<longrightarrow> 0 \<notin> set (the (ee_data e)) \<and> 92 \<notin> set (the (ee_data e))"
  shows "length (export_text sep (qsort cmpkey es)) = export_totlen sep es + 1"
proof -
  have "set (qsort cmpkey es) = set es" using qsort_mset [of cmpkey es] by (metis set_mset_mset)
  then have "map (\<lambda>e. length (export_entry sep e)) (qsort cmpkey es) = map (export_entry_len sep) (qsort cmpkey es)"
    using assms by (intro map_cong refl export_entry_length) blast
  then have "length (export_text sep (qsort cmpkey es)) = (\<Sum>e\<leftarrow>qsort cmpkey es. export_entry_len sep e) + 1"
    by (simp only: export_text_def length_concat map_map comp_def length_append) simp
  then show ?thesis by (simp add: sum_list_qsort export_totlen_def)
qed

section \<open>The imported table\<close>

lemma prime_521: "prime_size 521"
proof -
  have "\<not> q dvd 521" if q: "3 \<le> q" "q < 23" "odd q" for q :: nat
  proof -
    have "q \<in> {3, 5, 7, 9, 11, 13, 15, 17, 19, 21}" using q by simp presburger
    then show ?thesis by auto
  qed
  then have "prime_scan 521 23" by (simp add: prime_scan_def)
  moreover have "\<not> (23 :: nat) dvd 521" "odd (521 :: nat)" by simp_all
  ultimately show ?thesis using prime_scan_end [of 521 23] by simp
qed

lemma himport_table_ok:
  assumes "\<forall>n. malloc n" "flag AND H_NOCLEAR = 0"
  obtains htab1 where "himport_table malloc htab sz flag [] = Some (1, 0, htab1)" "wf_htab htab1" "ht_map htab1 = Map.empty"
    "min 512 (64 + sz div 8) \<le> ht_n htab1" "ht_change_ok htab1 = ht_change_ok htab"
proof -
  define htab0 where "htab0 = htab\<lparr>ht_table := None\<rparr>"
  define nel :: u32 where "nel = of_nat (min 512 (64 + sz div 8))"
  have u: "unat nel = min 512 (64 + sz div 8)"
    unfolding nel_def unat_of_nat by (intro mod_less) simp
  have "(if ht_table htab \<noteq> None then hdestroy_r htab else htab) = htab0"
    by (cases htab) (simp add: htab0_def hdestroy_r_def)
  moreover have "(if ENV_MIN_ENTRIES + int (sz div 8) > ENV_MAX_ENTRIES then ENV_MAX_ENTRIES
      else ENV_MIN_ENTRIES + int (sz div 8)) = int (min 512 (64 + sz div 8))"
    by (simp add: ENV_MIN_ENTRIES_def ENV_MAX_ENTRIES_def min_def)
  ultimately have t: "himport_table malloc htab sz flag [] = hcreate_r malloc nel htab0"
    using assms(2) by (simp add: himport_table_def Let_def nel_def htab0_def)
  have h: "ht_table htab0 = None" "2 \<le> unat nel" "unat nel \<le> 521" by (simp_all add: htab0_def u)
  obtain htab1 where "hcreate_r malloc nel htab0 = Some (1, 0, htab1)" "wf_htab htab1" "ht_map htab1 = Map.empty"
    "unat nel \<le> ht_n htab1" "ht_n htab1 \<le> 521" "ht_filled htab1 = 0" "ht_change_ok htab1 = ht_change_ok htab0"
    by (rule hcreate_ok [OF h(1) prime_521 _ _ h(2,3) assms(1)]) simp_all
  then show thesis using that by (simp add: t u htab0_def)
qed

section \<open>Properties\<close>

declare hsearch_loop.simps [code]

lemma import_of_export:
  assumes "wf_htab htab" "sep = 0 \<or> sep = 10"
    and "\<forall>k v. ht_map htab k = Some v \<longrightarrow> exportable_key sep k \<and> exportable_value v"
    and "hexport_r hooks calloc htab sep 0 has_resp bsize [] = Inr (sz, text)" "length text \<le> sz"
    and "card (dom (ht_map htab)) \<le> min 512 (64 + sz div 8)"
    and "\<forall>n. malloc n" "\<forall>s. hk_strdup_ok hooks2 s" "flag AND H_NOCLEAR = 0"
    and "\<forall>k v. ht_map htab k = Some v \<longrightarrow> creatable hooks2 (ht_change_ok htab2) flag k v"
  shows "\<exists>htab'. himport_r hooks2 malloc False htab2 (text @ replicate (sz - length text) 0) sep flag False [] = Some (1, 0, htab') \<and>
    wf_htab htab' \<and> ht_map htab' = ht_map htab"
proof -
  define es where "es = qsort cmpkey (export_list hooks htab 0 [])"
  have m: "mset es = mset (export_list hooks htab 0 [])" by (simp add: es_def qsort_mset)
  then have se: "set es = set (export_list hooks htab 0 [])" by (metis set_mset_mset)
  have tx: "text = concat (map (export_entry sep) es) @ [0]"
    using assms(4) by (simp add: hexport_r_def Let_def es_def export_text_def split: if_splits)
  define env where "env = text @ replicate (sz - length text) 0"
  have len: "length env = sz" using assms(5) by (simp add: env_def)
  have nz: "0 < sz" using assms(5) by (simp add: tx)
  obtain htab1 where t: "himport_table malloc htab2 sz flag [] = Some (1, 0, htab1)" "wf_htab htab1"
      "ht_map htab1 = Map.empty" "min 512 (64 + sz div 8) \<le> ht_n htab1" "ht_change_ok htab1 = ht_change_ok htab2"
    by (rule himport_table_ok [OF assms(7,9)])
  have cr: "\<forall>e\<in>set es. creatable hooks2 (ht_change_ok htab1) flag (fst (entry_pair e)) (snd (entry_pair e))"
  proof
    fix e
    assume "e \<in> set es"
    then have "(fst (entry_pair e), snd (entry_pair e)) \<in> set (map entry_pair (export_list hooks htab 0 []))" using se by simp
    then have "ht_map htab (fst (entry_pair e)) = Some (snd (entry_pair e))" by (simp only: export_list_all(1) [OF assms(1)]) (simp add: case_prod_unfold)
    then show "creatable hooks2 (ht_change_ok htab1) flag (fst (entry_pair e)) (snd (entry_pair e))" using assms(10) t(5) by simp
  qed
  have "mset (map fst (map entry_pair es)) = mset (map fst (map entry_pair (export_list hooks htab 0 [])))" using m by simp
  then have di: "distinct (map fst (map entry_pair es))" using export_list_all(2) [OF assms(1)] mset_eq_imp_distinct_iff by blast
  have "\<exists>htab'. himport_loop hooks2 flag sep (Suc sz) sz [] htab1 (env @ [0]) = Some (Inr ([], htab')) \<and> wf_htab htab' \<and>
      ht_map htab' = ht_map htab"
  proof (cases "es = []")
    case True
    have e: "himport_loop hooks2 flag sep (Suc sz) sz [] htab1 (env @ [0]) = Some (Inr ([], htab1))"
      by (rule import_nothing [OF t(2,3), where zs = "replicate (sz - length text) 0 @ [0]"])
        (auto simp: env_def tx True)
    have "dom (ht_map htab) = {}" using sorted_entries_map(2) [OF assms(1) m] True by simp
    then show ?thesis using e t by simp
  next
    case False
    define zs :: "u8 list" where "zs = replicate (sz - length text) 0 @ [0]"
    have env: "env @ [0] = concat (map (export_entry sep) es) @ 0 # zs" by (simp add: env_def tx zs_def)
    have "\<forall>e\<in>set es. exportable sep e" using sorted_exportable [OF assms(1,3)] se by blast
    moreover have "card (dom (ht_map htab1) \<union> fst ` entry_pair ` set es) \<le> ht_n htab1"
      using sorted_entries_map(2) [OF assms(1) m] t(3) order_trans [OF assms(6) t(4)] by simp
    ultimately have "\<exists>htab'. himport_loop hooks2 flag sep (Suc sz) sz [] htab1 (env @ [0]) = Some (Inr ([], htab')) \<and> wf_htab htab' \<and>
        ht_map htab' = foldl (\<lambda>m e. m(fst (entry_pair e) \<mapsto> snd (entry_pair e))) (ht_map htab1) es"
      using len by (intro import_exported [OF assms(2) _ False t(2) cr _ refl env _ _ assms(8) di]) (simp_all add: zs_def t(3))
    then show ?thesis by (simp only: foldl_entries t(3) empty_map_add sorted_entries_map(1) [OF assms(1) m])
  qed
  then obtain htab' where l: "himport_loop hooks2 flag sep (Suc sz) sz [] htab1 (env @ [0]) = Some (Inr ([], htab'))"
      and h: "wf_htab htab'" "ht_map htab' = ht_map htab"
    by blast
  have "himport_r hooks2 malloc False htab2 env sep flag False [] = Some (1, 0, htab')"
    using assms(7,9) t(1) l nz by (simp add: himport_r_def Let_def len)
  then show ?thesis using h unfolding env_def by blast
qed

text \<open>
  C4. Exporting a table (\<open>hexport_r\<close>) and importing the buffer again (\<open>himport_r\<close>) gives a table with the
  same map, for the two separators in use, the NUL and the newline. The variables must be ones the
  text can express: a name is not empty, holds no NUL, \<open>=\<close> or separator and starts neither with a blank
  nor with \<open>#\<close>; a value is not empty. The text must fit the buffer, whose other bytes are 0, and the
  number of variables must not exceed the number of entries that the import derives from the size of
  the buffer. Nothing may veto the creation of a variable. Every character of a value survives, separators and backslashes included.
\<close>

theorem export_import_round_trip:
  assumes "wf_htab htab" "sep = 0 \<or> sep = 10"
    and "\<forall>k v. ht_map htab k = Some v \<longrightarrow> exportable_key sep k \<and> exportable_value v"
    and "hexport_r hooks calloc htab sep 0 has_resp bsize [] = Inr (sz, text)" "length text \<le> sz"
    and "card (dom (ht_map htab)) \<le> min 512 (64 + sz div 8)"
    and "\<forall>n. malloc n" "\<forall>s. hk_strdup_ok hooks2 s" "flag AND H_NOCLEAR = 0"
    and "\<forall>k v. ht_map htab k = Some v \<longrightarrow> creatable hooks2 (ht_change_ok htab2) flag k v"
  shows "\<exists>htab'. himport_r hooks2 malloc False htab2 (text @ replicate (sz - length text) 0) sep flag False [] = Some (1, 0, htab') \<and>
    wf_htab htab' \<and> ht_map htab' = ht_map htab"
  by (rule import_of_export [OF assms])

theorem export_import_round_trip_witness:
  "\<exists>htab text sz htab'. ht_map htab = [[98] \<mapsto> [49, 10, 92]] \<and>
     hexport_r calm_hooks (\<lambda>n. True) htab 10 0 False 0 [] = Inr (sz, text) \<and>
     himport_r calm_hooks (\<lambda>n. True) False table5 (text @ replicate (sz - length text) 0) 10 0 False [] = Some (1, 0, htab') \<and>
     ht_map htab' = ht_map htab"
proof -
  obtain htab where h: "wf_htab htab" "ht_map htab = (ht_map table5)([98] \<mapsto> [49, 10, 92])"
    using accepting_enter [of table5 calm_hooks "[98]" "[49, 10, 92]" 0] table5_ok calm_accepting [of table5]
    by (auto simp: table5_def ht_n_def)
  have m: "ht_map htab = [[98] \<mapsto> [49, 10, 92]]" using h(2) table5_ok by simp
  then have x: "\<forall>k v. ht_map htab k = Some v \<longrightarrow> exportable_key 10 k \<and> exportable_value v"
    by (simp add: exportable_key_def exportable_value_def isblank_def)
  obtain sz txt1 where e: "hexport_r calm_hooks (\<lambda>n. True) htab 10 0 False 0 [] = Inr (sz, txt1)"
    by (simp add: hexport_r_def Let_def)
  have "length txt1 \<le> sz"
    using e export_text_length [of "export_list calm_hooks htab 0 []" 10] by (auto simp: hexport_r_def Let_def)
  moreover have "card (dom (ht_map htab)) \<le> min 512 (64 + sz div 8)" using m by simp
  ultimately have "\<exists>htab'. himport_r calm_hooks (\<lambda>n. True) False table5 (txt1 @ replicate (sz - length txt1) 0) 10 0 False [] = Some (1, 0, htab') \<and>
      wf_htab htab' \<and> ht_map htab' = ht_map htab"
    using export_import_round_trip [OF h(1) _ x e, where flag = 0 and malloc = "\<lambda>n. True" and ?hooks2.0 = calm_hooks and ?htab2.0 = table5]
      accepting_creatable [OF calm_accepting, of table5] by (simp add: table5_def calm_hooks_def)
  then show ?thesis using m e by blast
qed

text \<open>
  C37. What an export writes lies within the buffer of the size it returns, which is the size the caller
  gave if there is one, provided the separator is not NUL or no exported value has a backslash (nor,
  being a C string, a NUL).
\<close>

theorem hexport_within_buffer:
  assumes "hexport_r hooks calloc htab sep flag has_resp bsize argv = Inr (sz, text)"
    and "\<forall>e\<in>set (export_list hooks htab flag argv).
      sep = 0 \<longrightarrow> 0 \<notin> set (the (ee_data e)) \<and> 92 \<notin> set (the (ee_data e))"
  shows "length text \<le> sz \<and> (if bsize = 0 then sz = length text else sz = bsize)"
  using assms(1) export_text_length [OF assms(2)]
  by (auto simp: hexport_r_def Let_def split: if_splits)

theorem hexport_within_buffer_witness:
  "length [98, 61, 92, 92, 92, 92, 10, 0 :: u8] \<le> (8 :: nat) \<and>
   map_option (\<lambda>(ret, rv, err, htab). hexport_r calm_hooks (\<lambda>n. True) htab 10 0 False 0 [])
     (hsearch_r calm_hooks [98] (Some [92, 92]) ENV_ENTER table5 0) = Some (Inr (8, [98, 61, 92, 92, 92, 92, 10, 0]))"
proof -
  have e: "map_option (\<lambda>(ret, rv, err, htab). hexport_r calm_hooks (\<lambda>n. True) htab 10 0 False 0 [])
     (hsearch_r calm_hooks [98] (Some [92, 92]) ENV_ENTER table5 0) = Some (Inr (8, [98, 61, 92, 92, 92, 92, 10, 0]))"
    by code_simp
  then obtain htab where "hexport_r calm_hooks (\<lambda>n. True) htab 10 0 False 0 [] = Inr (8, [98, 61, 92, 92, 92, 92, 10, 0])"
    by auto
  from hexport_within_buffer [OF this] show ?thesis using e by simp
qed


text \<open>
  Importing a text with carriage returns whose last line has no newline reads past the shortened
  text: from \<open>a=1\<close>, carriage return, newline, \<open>b=2\<close> the value of \<open>b\<close> becomes \<open>22\<close>, because the copy is
  not terminated again after the carriage return has been removed.
\<close>

theorem himport_crlf_stale_byte:
  "map_option (\<lambda>(ret, err, htab). (ret, ht_map htab [97], ht_map htab [98]))
     (himport_r calm_hooks (\<lambda>n. True) False table5 [97, 61, 49, 13, 10, 98, 61, 50] 10 H_NOCLEAR True []) =
   Some (1, Some [49], Some [50, 50])"
  by code_simp

text \<open>
  \<open>hmatch_r\<close> never looks at the last slot of the table: of three variables that collide, the third
  is in the last slot, a search finds it there and a match for its name does not.
\<close>

theorem hmatch_skips_last_slot:
  "map_option (\<lambda>(hooks, flag, htab). (hmatch_r [108] 0 htab, map_option fst (hsearch_r hooks [108] None ENV_FIND htab 0), ht_n htab))
     (run_store table_enter table_remove [StoreEnter [98] [49], StoreEnter [103] [50], StoreEnter [108] [51]]
       (calm_hooks, 0, table5)) = Some ((0, None, ESRCH), Some 5, 5)"
  by code_simp

end
