(* ===== verification/Env_Attr.thy ===== *)
theory Env_Attr
  imports Hashtable_Roundtrip
begin

text \<open>
  Attribute lists, \<open>env/attr.c\<close>: comma-separated entries \<open>name:attributes\<close>, as the variables \<open>.flags\<close>
  and \<open>.callbacks\<close> and the static lists hold them, with the trimming functions of
  \<open>lib/linux_string.c\<close>. Strings are lists of bytes without the terminator, pointers into a string are
  positions. The build uses one of two lookups, with regular expressions or without; both are here, and
  the compiler of the expressions is a parameter.
\<close>

section \<open>White space\<close>

definition skip_spaces :: "cstr \<Rightarrow> cstr" where
  "skip_spaces s = dropWhile isspace s"

definition strim :: "cstr \<Rightarrow> cstr" where
  "strim s = (let t = skip_spaces s in if t = [] then t else rev (dropWhile isspace (rev t)))"

section \<open>Walking a list\<close>

definition ENV_ATTR_LIST_DELIM :: u8 where "ENV_ATTR_LIST_DELIM = 44"
definition ENV_ATTR_SEP :: u8 where "ENV_ATTR_SEP = 58"

text \<open>The name and the attributes of one entry; there are none without a colon.\<close>

definition attr_split :: "cstr \<Rightarrow> cstr \<times> cstr option" where
  "attr_split e =
     (strim (takeWhile (\<lambda>c. c \<noteq> ENV_ATTR_SEP) e),
      if ENV_ATTR_SEP \<in> set e then Some (strim (tl (dropWhile (\<lambda>c. c \<noteq> ENV_ATTR_SEP) e))) else None)"

lemma dropWhile_shorter: "x \<in> set xs \<Longrightarrow> length (dropWhile (\<lambda>c. c \<noteq> x) xs) - Suc 0 < length xs"
  by (induction xs) auto

text \<open>
  The loop over the entries. The callback returns a value and changes a state of its own; any value
  but 0 ends the walk.
\<close>

function env_attr_loop ::
  "allocator \<Rightarrow> (cstr \<Rightarrow> cstr option \<Rightarrow> 's \<Rightarrow> int \<times> 's) \<Rightarrow> cstr \<Rightarrow> 's \<Rightarrow> int \<times> 's" where
  "env_attr_loop malloc callback entry priv =
     (let e = takeWhile (\<lambda>c. c \<noteq> ENV_ATTR_LIST_DELIM) entry; is_last = ENV_ATTR_LIST_DELIM \<notin> set entry
      in if e \<noteq> [] \<and> \<not> malloc (length e + 1) then (- ENOMEM, priv)
         else
           case (case attr_split e of (name, attributes) \<Rightarrow>
                   if e \<noteq> [] \<and> name \<noteq> [] then callback name attributes priv else (0, priv)) of
             (retval, priv1) \<Rightarrow>
               if retval \<noteq> 0 then (retval, priv1)
               else if is_last then (0, priv1)
               else env_attr_loop malloc callback (tl (dropWhile (\<lambda>c. c \<noteq> ENV_ATTR_LIST_DELIM) entry)) priv1)"
  by pat_completeness auto

termination
  by (relation "measure (\<lambda>(malloc, callback, entry, priv). length entry)") (auto intro: dropWhile_shorter)

declare env_attr_loop.simps [simp del]

definition env_attr_walk ::
  "allocator \<Rightarrow> (cstr \<Rightarrow> cstr option \<Rightarrow> 's \<Rightarrow> int \<times> 's) \<Rightarrow> cstr option \<Rightarrow> 's \<Rightarrow> int \<times> 's" where
  "env_attr_walk malloc callback attr_list priv =
     (case attr_list of None \<Rightarrow> (1, priv) | Some l \<Rightarrow> env_attr_loop malloc callback l priv)"

section \<open>Looking up with regular expressions\<close>

record regex_callback_priv =
  rp_searched_for :: cstr
  rp_regex :: "cstr option"
  rp_attributes :: "cstr option"

text \<open>Freeing the old strings leaves no trace; after an error the state is not used any more.\<close>

definition regex_callback ::
  "(cstr \<Rightarrow> (cstr \<Rightarrow> bool) option) \<Rightarrow> allocator \<Rightarrow> cstr \<Rightarrow> cstr option \<Rightarrow> regex_callback_priv \<Rightarrow>
   int \<times> regex_callback_priv" where
  "regex_callback slre_compile malloc name attributes cbp =
     (let regex = [94] @ name @ [36]
      in case slre_compile regex of
           None \<Rightarrow> (- EINVAL, cbp)
         | Some slre_match \<Rightarrow>
             if slre_match (rp_searched_for cbp) then
               case attributes of
                 None \<Rightarrow> (- EINVAL, cbp)
               | Some a \<Rightarrow>
                   if \<not> malloc (length regex + 1) then (- ENOMEM, cbp\<lparr>rp_regex := None\<rparr>)
                   else if \<not> malloc (length a + 1) then (- ENOMEM, cbp\<lparr>rp_regex := None, rp_attributes := None\<rparr>)
                   else (0, cbp\<lparr>rp_regex := Some regex, rp_attributes := Some a\<rparr>)
             else (0, cbp))"

text \<open>The result is the return value and what is written to the buffer for the attributes, if anything.\<close>

definition env_attr_lookup_regex ::
  "(cstr \<Rightarrow> (cstr \<Rightarrow> bool) option) \<Rightarrow> allocator \<Rightarrow> cstr option \<Rightarrow> cstr \<Rightarrow> int \<times> cstr option" where
  "env_attr_lookup_regex slre_compile malloc attr_list name =
     (if attr_list = None then (- EINVAL, None)
      else
        case env_attr_walk malloc (regex_callback slre_compile malloc) attr_list
               \<lparr>rp_searched_for = name, rp_regex = None, rp_attributes = None\<rparr> of
          (retval, priv) \<Rightarrow>
            if retval \<noteq> 0 then (retval, None)
            else if rp_regex priv \<noteq> None then (0, rp_attributes priv)
            else (- ENOENT, None))"

section \<open>Looking up without them\<close>

text \<open>The position of the next match from a position on.\<close>

definition next_match :: "cstr \<Rightarrow> cstr \<Rightarrow> nat \<Rightarrow> nat option" where
  "next_match searched search_for cur = find (\<lambda>m. str_prefix search_for (drop m searched)) [cur..<length searched + 1]"

text \<open>
  The character before a match without the spaces in between, None for the start of the string, and
  the character behind it. The source reads one byte before the string when the match is at its start;
  the byte does not matter.
\<close>

definition char_before :: "cstr \<Rightarrow> nat \<Rightarrow> u8 option" where
  "char_before searched match =
     (case dropWhile (\<lambda>c. c = 32) (rev (take match searched)) of [] \<Rightarrow> None | c # cs \<Rightarrow> Some c)"

definition char_behind :: "cstr \<Rightarrow> nat \<Rightarrow> u8" where
  "char_behind searched pos = (case dropWhile (\<lambda>c. c = 32) (drop pos searched) of [] \<Rightarrow> 0 | c # cs \<Rightarrow> c)"

definition exact_match :: "cstr \<Rightarrow> cstr \<Rightarrow> nat \<Rightarrow> bool" where
  "exact_match searched search_for match \<longleftrightarrow>
     (match = 0 \<or> char_before searched match = Some ENV_ATTR_LIST_DELIM \<or> char_before searched match = None) \<and>
     char_behind searched (match + length search_for) \<in> {ENV_ATTR_SEP, ENV_ATTR_LIST_DELIM, 0}"

lemma next_match_Some:
  "next_match searched search_for cur = Some m \<Longrightarrow> cur \<le> m \<and> m \<le> length searched \<and> str_prefix search_for (drop m searched)"
  unfolding next_match_def by (auto simp: find_Some_iff simp del: upt_Suc)

function reverse_name_loop :: "cstr \<Rightarrow> cstr \<Rightarrow> nat \<Rightarrow> nat option \<Rightarrow> nat option" where
  "reverse_name_loop searched search_for cur result =
     (case next_match searched search_for cur of
        None \<Rightarrow> result
      | Some match \<Rightarrow>
          reverse_name_loop searched search_for (match + 1)
            (if exact_match searched search_for match then Some match else result))"
  by pat_completeness auto
termination
  by (relation "measure (\<lambda>(searched, search_for, cur, result). Suc (length searched) - cur)")
    (auto dest: next_match_Some)

declare reverse_name_loop.simps [simp del]

text \<open>The length of the name and its position.\<close>

definition reverse_name_search :: "cstr \<Rightarrow> cstr \<Rightarrow> nat \<times> nat option" where
  "reverse_name_search searched search_for =
     (if search_for = [] then (length searched, Some 0)
      else
        let result = reverse_name_loop searched search_for 0 None
        in (if result = None then 0 else length search_for, result))"

definition env_attr_lookup :: "cstr option \<Rightarrow> cstr \<Rightarrow> int \<times> cstr option" where
  "env_attr_lookup attr_list name =
     (case attr_list of
        None \<Rightarrow> (- EINVAL, None)
      | Some l \<Rightarrow>
          case reverse_name_search l name of
            (entry_len, Some entry) \<Rightarrow>
              let rest = dropWhile (\<lambda>c. c = 32) (drop (entry + entry_len) l)
              in if rest = [] \<or> hd rest \<noteq> ENV_ATTR_SEP then (0, Some [])
                 else (0, Some (takeWhile (\<lambda>c. c \<noteq> ENV_ATTR_LIST_DELIM \<and> c \<noteq> 32) (dropWhile (\<lambda>c. c = 32) (tl rest))))
          | (entry_len, None) \<Rightarrow> (- ENOENT, None))"

end
