(* ===== verification/Env_Attr_Props.thy ===== *)
theory Env_Attr_Props
  imports Env_Attr
begin

text \<open>
  Attribute lists as text of a list of pairs: walking visits the pairs in order, looking up finds the
  attributes of the last pair with the name, and both lookups agree.
\<close>

section \<open>Plain lists\<close>

text \<open>Entries without white space or separators inside, as the static lists have them.\<close>

definition plain_name :: "cstr \<Rightarrow> bool" where
  "plain_name n \<longleftrightarrow> n \<noteq> [] \<and> (\<forall>c\<in>set n. c \<noteq> 0 \<and> \<not> isspace c \<and> c \<noteq> ENV_ATTR_LIST_DELIM \<and> c \<noteq> ENV_ATTR_SEP)"

definition plain_attr :: "cstr \<Rightarrow> bool" where
  "plain_attr a \<longleftrightarrow> (\<forall>c\<in>set a. c \<noteq> 0 \<and> \<not> isspace c \<and> c \<noteq> ENV_ATTR_LIST_DELIM)"

definition attr_entry :: "cstr \<times> cstr \<Rightarrow> cstr" where
  "attr_entry e = fst e @ [ENV_ATTR_SEP] @ snd e"

fun attr_text :: "(cstr \<times> cstr) list \<Rightarrow> cstr" where
  "attr_text [] = []"
| "attr_text [e] = attr_entry e"
| "attr_text (e # es) = attr_entry e @ [ENV_ATTR_LIST_DELIM] @ attr_text es"

definition plain_list :: "(cstr \<times> cstr) list \<Rightarrow> bool" where
  "plain_list es \<longleftrightarrow> (\<forall>(n, a)\<in>set es. plain_name n \<and> plain_attr a)"

lemma space_isspace: "isspace 32"
  by code_simp

lemma delim_not_space: "ENV_ATTR_LIST_DELIM \<noteq> 32" "ENV_ATTR_SEP \<noteq> 32" "ENV_ATTR_SEP \<noteq> ENV_ATTR_LIST_DELIM"
    "ENV_ATTR_LIST_DELIM \<noteq> 0" "ENV_ATTR_SEP \<noteq> 0"
  by (simp_all add: ENV_ATTR_LIST_DELIM_def ENV_ATTR_SEP_def)

lemma strim_plain: "\<forall>c\<in>set s. \<not> isspace c \<Longrightarrow> strim s = s"
proof -
  assume s: "\<forall>c\<in>set s. \<not> isspace c"
  have d: "dropWhile isspace t = t" if t: "\<forall>c\<in>set t. \<not> isspace c" for t using t by (cases t) simp_all
  show ?thesis using s d [of s] d [of "rev s"] by (simp add: strim_def skip_spaces_def)
qed

lemma attr_split_entry:
  assumes "plain_name n" "plain_attr a"
  shows "attr_split (attr_entry (n, a)) = (n, Some a)"
proof -
  have "takeWhile (\<lambda>c. c \<noteq> ENV_ATTR_SEP) (n @ ENV_ATTR_SEP # a) = n"
    "dropWhile (\<lambda>c. c \<noteq> ENV_ATTR_SEP) (n @ ENV_ATTR_SEP # a) = ENV_ATTR_SEP # a"
    using assms(1) by (auto simp: takeWhile_append dropWhile_append plain_name_def)
  moreover have "strim n = n" "strim a = a" using assms by (simp_all add: strim_plain plain_name_def plain_attr_def)
  ultimately show ?thesis by (simp add: attr_split_def attr_entry_def)
qed

lemma attr_entry_no_delim:
  "plain_name n \<Longrightarrow> plain_attr a \<Longrightarrow> \<forall>c\<in>set (attr_entry (n, a)). c \<noteq> ENV_ATTR_LIST_DELIM"
  using delim_not_space by (auto simp: attr_entry_def plain_name_def plain_attr_def)

section \<open>Walking\<close>

fun attr_fold :: "(cstr \<Rightarrow> cstr option \<Rightarrow> 's \<Rightarrow> int \<times> 's) \<Rightarrow> (cstr \<times> cstr) list \<Rightarrow> 's \<Rightarrow> int \<times> 's" where
  "attr_fold callback [] st = (0, st)"
| "attr_fold callback ((n, a) # es) st =
     (case callback n (Some a) st of (ret, st1) \<Rightarrow> if ret \<noteq> 0 then (ret, st1) else attr_fold callback es st1)"

lemma env_attr_loop_step:
  assumes "takeWhile (\<lambda>c. c \<noteq> ENV_ATTR_LIST_DELIM) entry = e" "attr_split e = (n, Some a)" "e \<noteq> []" "n \<noteq> []" "\<forall>n. malloc n"
  shows "env_attr_loop malloc callback entry st =
    (case callback n (Some a) st of (ret, st1) \<Rightarrow>
       if ret \<noteq> 0 then (ret, st1)
       else if ENV_ATTR_LIST_DELIM \<notin> set entry then (0, st1)
       else env_attr_loop malloc callback (tl (dropWhile (\<lambda>c. c \<noteq> ENV_ATTR_LIST_DELIM) entry)) st1)"
  using assms(3-5) by (subst env_attr_loop.simps) (simp only: assms(1,2) Let_def prod.case, simp)

lemma env_attr_loop_text:
  assumes "plain_list es" "\<forall>n. malloc n"
  shows "env_attr_loop malloc callback (attr_text es) st = attr_fold callback es st"
  using assms(1)
proof (induction es arbitrary: st rule: attr_text.induct)
  case 1
  show ?case by (subst env_attr_loop.simps) (simp add: attr_split_def)
next
  case (2 e)
  obtain n a where e: "e = (n, a)" by (cases e)
  then have p: "plain_name n" "plain_attr a" using 2 by (simp_all add: plain_list_def)
  note nd = attr_entry_no_delim [OF p]
  have tw: "takeWhile (\<lambda>c. c \<noteq> ENV_ATTR_LIST_DELIM) (attr_entry (n, a)) = attr_entry (n, a)"
    using nd by (simp add: takeWhile_eq_all_conv)
  have ne: "attr_entry (n, a) \<noteq> []" "n \<noteq> []" "ENV_ATTR_LIST_DELIM \<notin> set (attr_entry (n, a))"
    using p(1) nd by (auto simp: attr_entry_def plain_name_def)
  show ?case using env_attr_loop_step [OF tw attr_split_entry [OF p] ne(1,2) assms(2), of callback st] ne(3)
    by (simp add: e split: prod.split)
next
  case (3 e e2 es)
  obtain n a where e: "e = (n, a)" by (cases e)
  then have p: "plain_name n" "plain_attr a" and pl: "plain_list (e2 # es)" using 3(2) by (simp_all add: plain_list_def)
  note nd = attr_entry_no_delim [OF p]
  let ?t = "attr_entry (n, a) @ ENV_ATTR_LIST_DELIM # attr_text (e2 # es)"
  have tw: "takeWhile (\<lambda>c. c \<noteq> ENV_ATTR_LIST_DELIM) ?t = attr_entry (n, a)"
    and dw: "dropWhile (\<lambda>c. c \<noteq> ENV_ATTR_LIST_DELIM) ?t = ENV_ATTR_LIST_DELIM # attr_text (e2 # es)"
    using nd by (auto simp: takeWhile_append dropWhile_append)
  have ne: "attr_entry (n, a) \<noteq> []" "n \<noteq> []" using p(1) by (auto simp: attr_entry_def plain_name_def)
  show ?case using env_attr_loop_step [OF tw attr_split_entry [OF p] ne assms(2), of callback st] 3(1) [OF pl]
    by (simp add: e dw split: prod.split)
qed

section \<open>Exact matches\<close>

definition exact_at :: "cstr \<Rightarrow> cstr \<Rightarrow> nat \<Rightarrow> bool" where
  "exact_at s pat m \<longleftrightarrow> str_prefix pat (drop m s) \<and> m \<le> length s \<and> exact_match s pat m"

lemma next_match_None:
  "next_match s pat cur = None \<Longrightarrow> cur \<le> m \<Longrightarrow> m \<le> length s \<Longrightarrow> \<not> str_prefix pat (drop m s)"
  unfolding next_match_def by (auto simp: find_None_iff simp del: upt_Suc)

lemma next_match_least:
  assumes "next_match s pat cur = Some m" "cur \<le> l" "l < m"
  shows "\<not> str_prefix pat (drop l s)"
proof -
  from assms(1) obtain i where i: "i < length [cur..<length s + 1]" "m = [cur..<length s + 1] ! i"
      "\<forall>j<i. \<not> str_prefix pat (drop ([cur..<length s + 1] ! j) s)"
    unfolding next_match_def by (auto simp: find_Some_iff simp del: upt_Suc)
  then have "m = cur + i" by (simp del: upt_Suc)
  then have "l - cur < i" "[cur..<length s + 1] ! (l - cur) = l" using assms(2,3) i(1) by (simp_all del: upt_Suc)
  then show ?thesis using i(3) by metis
qed

text \<open>The search returns the last exact match at or behind the starting position.\<close>

lemma reverse_name_loop_last:
  assumes "reverse_name_loop s pat cur result = r"
  shows "(\<forall>m\<ge>cur. \<not> exact_at s pat m) \<and> r = result \<or>
    (\<exists>m\<ge>cur. exact_at s pat m \<and> r = Some m \<and> (\<forall>l>m. \<not> exact_at s pat l))"
  using assms
proof (induction s pat cur result arbitrary: r rule: reverse_name_loop.induct)
  case (1 s pat cur result)
  show ?case
  proof (cases "next_match s pat cur")
    case None
    then have "r = result" using "1.prems" by (subst (asm) reverse_name_loop.simps) simp
    moreover have "\<forall>m\<ge>cur. \<not> exact_at s pat m" using next_match_None [OF None] by (auto simp: exact_at_def)
    ultimately show ?thesis by blast
  next
    case (Some m)
    let ?res = "if exact_match s pat m then Some m else result"
    have "reverse_name_loop s pat (m + 1) ?res = r" using "1.prems" Some by (subst (asm) reverse_name_loop.simps) simp
    from "1.IH" [OF Some this] have ih: "(\<forall>l\<ge>m + 1. \<not> exact_at s pat l) \<and> r = ?res \<or>
      (\<exists>l\<ge>m + 1. exact_at s pat l \<and> r = Some l \<and> (\<forall>k>l. \<not> exact_at s pat k))" .
    have m: "cur \<le> m" "exact_at s pat m \<longleftrightarrow> exact_match s pat m" using next_match_Some [OF Some] by (auto simp: exact_at_def)
    have before: "\<not> exact_at s pat l" if "cur \<le> l" "l < m" for l
      using next_match_least [OF Some that] by (simp add: exact_at_def)
    from ih show ?thesis
    proof
      assume a: "(\<forall>l\<ge>m + 1. \<not> exact_at s pat l) \<and> r = ?res"
      show ?thesis
      proof (cases "exact_match s pat m")
        case True
        then show ?thesis using a m by (intro disjI2 exI [of _ m]) (auto simp: Suc_le_eq)
      next
        case False
        then have "\<not> exact_at s pat l" if "cur \<le> l" for l
          using a m before [OF that] by (cases l m rule: linorder_cases) (auto simp: Suc_le_eq)
        then show ?thesis using a False by auto
      qed
    next
      assume "\<exists>l\<ge>m + 1. exact_at s pat l \<and> r = Some l \<and> (\<forall>k>l. \<not> exact_at s pat k)"
      then obtain l where "l \<ge> m + 1" "exact_at s pat l" "r = Some l" "\<forall>k>l. \<not> exact_at s pat k" by (elim exE conjE)
      then show ?thesis using m(1) by (intro disjI2 exI [of _ l]) simp
    qed
  qed
qed

definition first_char :: "cstr \<Rightarrow> u8 option" where
  "first_char l = (case dropWhile (\<lambda>c. c = 32) l of [] \<Rightarrow> None | c # cs \<Rightarrow> Some c)"

lemma char_first_char:
  "char_before s m = first_char (rev (take m s))"
  "char_behind s m = (case first_char (drop m s) of None \<Rightarrow> 0 | Some c \<Rightarrow> c)"
proof -
  show "char_before s m = first_char (rev (take m s))" by (simp only: char_before_def first_char_def)
  show "char_behind s m = (case first_char (drop m s) of None \<Rightarrow> 0 | Some c \<Rightarrow> c)"
    unfolding char_behind_def first_char_def
    by (cases "dropWhile (\<lambda>c. c = 32) (drop m s)") (simp_all only: list.case option.case)
qed

lemma first_char_append:
  "d \<noteq> 32 \<Longrightarrow> first_char (xs @ d # ys) = (case first_char xs of None \<Rightarrow> Some d | Some c \<Rightarrow> Some c)"
  by (induction xs) (simp_all add: first_char_def)

lemma first_char_hd: "xs \<noteq> [] \<Longrightarrow> hd xs \<noteq> 32 \<Longrightarrow> first_char xs = Some (hd xs)"
  by (cases xs) (simp_all add: first_char_def)

lemma str_prefix_length: "str_prefix p s \<Longrightarrow> length p \<le> length s"
  unfolding str_prefix_def by (metis length_take min.absorb_iff2 min.commute)

lemma str_prefix_append:
  assumes "d \<notin> set p"
  shows "str_prefix p (xs @ d # ys) \<longleftrightarrow> str_prefix p xs"
proof (cases "length p \<le> length xs")
  case True
  then show ?thesis by (simp add: str_prefix_def)
next
  case False
  have "\<not> str_prefix p (xs @ d # ys)"
  proof
    assume "str_prefix p (xs @ d # ys)"
    then have t: "take (length p) (xs @ d # ys) = p" by (simp add: str_prefix_def)
    have "d \<in> set (take (length p) (xs @ d # ys))" using False by (cases "length p - length xs") simp_all
    then show False unfolding t using assms by simp
  qed
  moreover have "\<not> str_prefix p xs" using False str_prefix_length by blast
  ultimately show ?thesis by simp
qed

lemma exact_at_append:
  assumes "ENV_ATTR_LIST_DELIM \<notin> set pat"
  shows "exact_at (xs @ ENV_ATTR_LIST_DELIM # ys) pat m \<longleftrightarrow>
    (m \<le> length xs \<and> exact_at xs pat m) \<or> (\<exists>l. m = length xs + 1 + l \<and> exact_at ys pat l)"
proof (cases "m \<le> length xs")
  case True
  have p: "str_prefix pat (drop m (xs @ ENV_ATTR_LIST_DELIM # ys)) \<longleftrightarrow> str_prefix pat (drop m xs)"
    using True str_prefix_append [OF assms, of "drop m xs" ys] by simp
  have b: "char_before (xs @ ENV_ATTR_LIST_DELIM # ys) m = char_before xs m" using True by (simp add: char_first_char)
  have e: "char_behind (xs @ ENV_ATTR_LIST_DELIM # ys) (m + length pat) \<in> {ENV_ATTR_SEP, ENV_ATTR_LIST_DELIM, 0} \<longleftrightarrow>
      char_behind xs (m + length pat) \<in> {ENV_ATTR_SEP, ENV_ATTR_LIST_DELIM, 0}" if le: "str_prefix pat (drop m xs)"
  proof -
    have "m + length pat \<le> length xs" using str_prefix_length [OF le] True by simp
    then show ?thesis using delim_not_space
      by (simp add: char_first_char first_char_append split: option.split)
  qed
  show ?thesis using True p b e by (auto simp: exact_at_def exact_match_def)
next
  case False
  then obtain l where l: "m = length xs + 1 + l" by (metis add.commute less_imp_add_positive not_le Suc_eq_plus1 add.assoc Suc_leI le_Suc_ex)
  have d: "drop m (xs @ ENV_ATTR_LIST_DELIM # ys) = drop l ys"
    "drop (m + length pat) (xs @ ENV_ATTR_LIST_DELIM # ys) = drop (l + length pat) ys"
    "rev (take m (xs @ ENV_ATTR_LIST_DELIM # ys)) = rev (take l ys) @ ENV_ATTR_LIST_DELIM # rev xs"
    using l by simp_all
  have "(l = 0 \<or> char_before ys l = Some ENV_ATTR_LIST_DELIM \<or> char_before ys l = None) \<longleftrightarrow>
      char_before (xs @ ENV_ATTR_LIST_DELIM # ys) m = Some ENV_ATTR_LIST_DELIM"
    unfolding char_first_char d first_char_append [OF delim_not_space(1)]
    by (cases "l = 0") (simp_all add: first_char_def split: option.split)
  moreover have "char_before (xs @ ENV_ATTR_LIST_DELIM # ys) m \<noteq> None"
    unfolding char_first_char d first_char_append [OF delim_not_space(1)] by (simp split: option.split)
  ultimately have "exact_at (xs @ ENV_ATTR_LIST_DELIM # ys) pat m \<longleftrightarrow> exact_at ys pat l"
    using l False by (auto simp: exact_at_def exact_match_def char_first_char(2) d)
  then show ?thesis using l False by auto
qed

lemma exact_at_entry:
  assumes "plain_name n" "plain_attr a" "plain_name pat"
  shows "exact_at (attr_entry (n, a)) pat m \<longleftrightarrow> m = 0 \<and> pat = n"
proof
  assume ex: "exact_at (attr_entry (n, a)) pat m"
  have sp: "\<forall>c\<in>set (attr_entry (n, a)). c \<noteq> 32 \<and> c \<noteq> ENV_ATTR_LIST_DELIM"
    using assms(1,2) space_isspace delim_not_space by (auto simp: attr_entry_def plain_name_def plain_attr_def)
  have "m = 0"
  proof (rule ccontr)
    assume m: "m \<noteq> 0"
    have le: "m \<le> length (attr_entry (n, a))" using ex by (simp add: exact_at_def)
    have ne: "rev (take m (attr_entry (n, a))) \<noteq> []" using m le by (cases m) (auto simp: attr_entry_def)
    have mem: "hd (rev (take m (attr_entry (n, a)))) \<in> set (attr_entry (n, a))"
      using hd_in_set [OF ne] by (auto dest: in_set_takeD)
    then have "char_before (attr_entry (n, a)) m = Some (hd (rev (take m (attr_entry (n, a)))))"
      unfolding char_first_char using first_char_hd [OF ne] sp by blast
    then show False using ex m mem sp by (auto simp: exact_at_def exact_match_def)
  qed
  moreover have "pat = n"
  proof (rule ccontr)
    assume ne: "pat \<noteq> n"
    have "ENV_ATTR_SEP \<notin> set pat" using assms(3) by (auto simp: plain_name_def)
    then have "str_prefix pat n"
      using ex \<open>m = 0\<close> str_prefix_append [of ENV_ATTR_SEP pat n a] by (simp add: exact_at_def attr_entry_def)
    then have t: "take (length pat) n = pat" "length pat \<le> length n" by (simp_all add: str_prefix_def str_prefix_length)
    then have lt: "length pat < length n" using ne by (cases "length pat = length n") auto
    have dn: "drop (length pat) (attr_entry (n, a)) \<noteq> []" "hd (drop (length pat) (attr_entry (n, a))) = n ! length pat"
      using lt by (simp_all add: attr_entry_def hd_append hd_drop_conv_nth)
    have mem: "n ! length pat \<in> set n" using lt by simp
    then have "\<not> isspace (n ! length pat)" using assms(1) by (simp add: plain_name_def)
    then have "n ! length pat \<noteq> 32" using space_isspace by metis
    then have "char_behind (attr_entry (n, a)) (length pat) = n ! length pat"
      using first_char_hd [OF dn(1)] dn(2) by (simp add: char_first_char)
    then show False using ex \<open>m = 0\<close> mem assms(1) by (auto simp: exact_at_def exact_match_def plain_name_def)
  qed
  ultimately show "m = 0 \<and> pat = n" by simp
next
  assume "m = 0 \<and> pat = n"
  moreover have "char_behind (attr_entry (n, a)) (length n) = ENV_ATTR_SEP"
    using first_char_hd [of "ENV_ATTR_SEP # a"] delim_not_space by (simp add: char_first_char attr_entry_def)
  ultimately show "exact_at (attr_entry (n, a)) pat m"
    by (simp add: exact_at_def exact_match_def attr_entry_def str_prefix_def)
qed

section \<open>Looking up\<close>

definition attr_at :: "cstr \<Rightarrow> nat \<Rightarrow> cstr" where
  "attr_at l pos =
     (let rest = dropWhile (\<lambda>c. c = 32) (drop pos l)
      in if rest = [] \<or> hd rest \<noteq> ENV_ATTR_SEP then []
         else takeWhile (\<lambda>c. c \<noteq> ENV_ATTR_LIST_DELIM \<and> c \<noteq> 32) (dropWhile (\<lambda>c. c = 32) (tl rest)))"

lemma attr_at_entry:
  assumes "plain_attr a"
  shows "attr_at (attr_entry (n, a)) (length n) = a" "attr_at (attr_entry (n, a) @ ENV_ATTR_LIST_DELIM # ys) (length n) = a"
proof -
  have a: "\<forall>c\<in>set a. c \<noteq> ENV_ATTR_LIST_DELIM \<and> c \<noteq> 32"
    using assms space_isspace unfolding plain_attr_def by metis
  have t: "takeWhile (\<lambda>c. c \<noteq> ENV_ATTR_LIST_DELIM \<and> c \<noteq> 32) a = a" using a by (simp add: takeWhile_eq_all_conv)
  have t2: "takeWhile (\<lambda>c. c \<noteq> ENV_ATTR_LIST_DELIM \<and> c \<noteq> 32) (a @ ENV_ATTR_LIST_DELIM # ys) = a"
    using a by (auto simp: takeWhile_append)
  have d: "dropWhile (\<lambda>c. c = 32) (a @ zs) = a @ zs" if zs: "zs = [] \<or> hd zs \<noteq> 32" for zs
    using a zs by (cases a; cases zs) auto
  show "attr_at (attr_entry (n, a)) (length n) = a"
    using delim_not_space d [of "[]"] t by (simp add: attr_at_def attr_entry_def)
  show "attr_at (attr_entry (n, a) @ ENV_ATTR_LIST_DELIM # ys) (length n) = a"
    using delim_not_space d [of "ENV_ATTR_LIST_DELIM # ys"] t2 by (simp add: attr_at_def attr_entry_def)
qed

lemma attr_at_append: "attr_at (xs @ ENV_ATTR_LIST_DELIM # ys) (length xs + 1 + p) = attr_at ys p"
  by (simp add: attr_at_def)

definition last_exact :: "cstr \<Rightarrow> cstr \<Rightarrow> nat \<Rightarrow> bool" where
  "last_exact t pat m \<longleftrightarrow> exact_at t pat m \<and> (\<forall>l>m. \<not> exact_at t pat l)"

lemma attr_text_exact:
  assumes "plain_list es" "plain_name pat" "es \<noteq> []"
  shows "case map_of (rev es) pat of
      None \<Rightarrow> \<forall>m. \<not> exact_at (attr_text es) pat m
    | Some a \<Rightarrow> \<exists>m. last_exact (attr_text es) pat m \<and> attr_at (attr_text es) (m + length pat) = a"
  using assms(1,3)
proof (induction es rule: attr_text.induct)
  case (2 e)
  obtain n a where e: "e = (n, a)" by (cases e)
  then have p: "plain_name n" "plain_attr a" using 2 by (simp_all add: plain_list_def)
  show ?case
  proof (cases "n = pat")
    case True
    then have "last_exact (attr_entry (n, a)) pat 0" using exact_at_entry [OF p assms(2)] by (simp add: last_exact_def)
    then show ?thesis using True attr_at_entry(1) [OF p(2), of n] by (auto simp: e intro!: exI [of _ 0])
  next
    case False
    then show ?thesis using exact_at_entry [OF p assms(2)] by (simp add: e)
  qed
next
  case (3 e e2 es)
  obtain n a where e: "e = (n, a)" by (cases e)
  then have p: "plain_name n" "plain_attr a" and pl: "plain_list (e2 # es)" using 3(2) by (simp_all add: plain_list_def)
  define xs ys where "xs = attr_entry (n, a)" and "ys = attr_text (e2 # es)"
  have t: "attr_text (e # e2 # es) = xs @ ENV_ATTR_LIST_DELIM # ys" by (simp add: e xs_def ys_def)
  have "ENV_ATTR_LIST_DELIM \<notin> set pat" using assms(2) by (auto simp: plain_name_def)
  then have ex: "exact_at (xs @ ENV_ATTR_LIST_DELIM # ys) pat m \<longleftrightarrow>
      m = 0 \<and> pat = n \<or> (\<exists>l. m = length xs + 1 + l \<and> exact_at ys pat l)" for m
    using exact_at_append [of pat xs ys m] exact_at_entry [OF p assms(2)] by (auto simp: xs_def)
  have mo: "map_of (rev (e # e2 # es)) pat =
      (case map_of (rev (e2 # es)) pat of None \<Rightarrow> if pat = n then Some a else None | Some b \<Rightarrow> Some b)"
    by (simp add: e map_add_def split: option.split)
  have ih: "case map_of (rev (e2 # es)) pat of
      None \<Rightarrow> \<forall>m. \<not> exact_at ys pat m
    | Some a \<Rightarrow> \<exists>m. last_exact ys pat m \<and> attr_at ys (m + length pat) = a"
    using 3(1) [OF pl] by (simp only: ys_def) simp
  show ?case
  proof (cases "map_of (rev (e2 # es)) pat")
    case None
    then have ny: "\<forall>m. \<not> exact_at ys pat m" using ih by (simp only: option.case simp_thms)
    show ?thesis
    proof (cases "pat = n")
      case True
      then have "last_exact (xs @ ENV_ATTR_LIST_DELIM # ys) pat 0" using ex ny by (simp add: last_exact_def)
      moreover have "attr_at (xs @ ENV_ATTR_LIST_DELIM # ys) (0 + length pat) = a"
        using attr_at_entry(2) [OF p(2), of n ys] True by (simp add: xs_def)
      moreover have "map_of (rev (e # e2 # es)) pat = Some a" by (simp only: mo None option.case) (simp add: True)
      ultimately show ?thesis by (simp only: t option.case) blast
    next
      case False
      then show ?thesis using ex ny by (simp only: mo t None option.case if_False) blast
    qed
  next
    case (Some b)
    then obtain m where m: "last_exact ys pat m" "attr_at ys (m + length pat) = b" using ih by (auto simp only: option.case)
    have "last_exact (xs @ ENV_ATTR_LIST_DELIM # ys) pat (length xs + 1 + m)"
      using m(1) ex by (auto simp: last_exact_def)
    moreover have "attr_at (xs @ ENV_ATTR_LIST_DELIM # ys) (length xs + 1 + m + length pat) = b"
      using m(2) attr_at_append [of xs ys "m + length pat"] by (simp add: add.assoc)
    ultimately show ?thesis using Some by (simp only: mo t option.case) blast
  qed
qed simp

lemma reverse_name_loop_exact:
  "\<forall>m. \<not> exact_at s pat m \<Longrightarrow> reverse_name_loop s pat 0 None = None"
  "last_exact s pat m \<Longrightarrow> reverse_name_loop s pat 0 None = Some m"
proof -
  show "\<forall>m. \<not> exact_at s pat m \<Longrightarrow> reverse_name_loop s pat 0 None = None"
    using reverse_name_loop_last [OF refl, where s = s and pat = pat and cur = 0 and result = None] by auto
  assume le: "last_exact s pat m"
  from reverse_name_loop_last [OF refl, where s = s and pat = pat and cur = 0 and result = None] show "reverse_name_loop s pat 0 None = Some m"
  proof
    assume "(\<forall>m\<ge>0. \<not> exact_at s pat m) \<and> reverse_name_loop s pat 0 None = None"
    then show ?thesis using le by (auto simp: last_exact_def)
  next
    assume "\<exists>m\<ge>0. exact_at s pat m \<and> reverse_name_loop s pat 0 None = Some m \<and> (\<forall>l>m. \<not> exact_at s pat l)"
    then obtain k where "exact_at s pat k" "reverse_name_loop s pat 0 None = Some k" "\<forall>l>k. \<not> exact_at s pat l" by blast
    then show ?thesis using le by (metis last_exact_def nat_neq_iff)
  qed
qed

lemma env_attr_lookup_text:
  assumes "plain_list es" "plain_name pat" "es \<noteq> []"
  shows "env_attr_lookup (Some (attr_text es)) pat =
    (case map_of (rev es) pat of None \<Rightarrow> (- ENOENT, None) | Some a \<Rightarrow> (0, Some a))"
proof -
  have ne: "pat \<noteq> []" using assms(2) by (simp add: plain_name_def)
  have c: "case map_of (rev es) pat of
      None \<Rightarrow> \<forall>m. \<not> exact_at (attr_text es) pat m
    | Some a \<Rightarrow> \<exists>m. last_exact (attr_text es) pat m \<and> attr_at (attr_text es) (m + length pat) = a"
    by (rule attr_text_exact [OF assms])
  show ?thesis
  proof (cases "map_of (rev es) pat")
    case None
    then have "\<forall>m. \<not> exact_at (attr_text es) pat m" using c by simp
    then show ?thesis using ne reverse_name_loop_exact(1) [of "attr_text es" pat]
      by (simp only: None) (simp add: env_attr_lookup_def reverse_name_search_def)
  next
    case (Some a)
    then obtain m where m: "last_exact (attr_text es) pat m" "attr_at (attr_text es) (m + length pat) = a"
      using c by (auto simp only: option.case)
    have "env_attr_lookup (Some (attr_text es)) pat = (0, Some (attr_at (attr_text es) (m + length pat)))"
      using ne reverse_name_loop_exact(2) [OF m(1)]
      by (simp add: env_attr_lookup_def reverse_name_search_def attr_at_def Let_def)
    then show ?thesis using m(2) by (simp only: Some option.case)
  qed
qed

section \<open>The two lookups agree\<close>

text \<open>A compiler of regular expressions that knows literals only, between the two anchors.\<close>

definition literal_regex :: "(cstr \<Rightarrow> (cstr \<Rightarrow> bool) option) \<Rightarrow> (cstr \<times> cstr) list \<Rightarrow> bool" where
  "literal_regex slre_compile es \<longleftrightarrow>
     (\<forall>(n, a)\<in>set es. \<exists>f. slre_compile ([94] @ n @ [36]) = Some f \<and> (\<forall>s. f s \<longleftrightarrow> s = n))"

lemma regex_fold:
  assumes "literal_regex slre_compile es" "\<forall>n. malloc n"
    "(rp_regex priv = None) = (rp_attributes priv = None)"
  shows "\<exists>priv1. attr_fold (regex_callback slre_compile malloc) es priv = (0, priv1) \<and>
    (rp_regex priv1 = None) = (rp_attributes priv1 = None) \<and>
    rp_attributes priv1 =
      (case map_of (rev es) (rp_searched_for priv) of None \<Rightarrow> rp_attributes priv | Some a \<Rightarrow> Some a)"
  using assms(1,3)
proof (induction es arbitrary: priv)
  case (Cons e es)
  obtain n a where e: "e = (n, a)" by (cases e)
  obtain f where f: "slre_compile ([94] @ n @ [36]) = Some f" "\<forall>s. f s \<longleftrightarrow> s = n"
    using Cons.prems(1) by (auto simp: literal_regex_def e)
  have lr: "literal_regex slre_compile es" using Cons.prems(1) by (simp add: literal_regex_def)
  define priv1 where "priv1 = (if rp_searched_for priv = n then
      priv\<lparr>rp_regex := Some ([94] @ n @ [36]), rp_attributes := Some a\<rparr> else priv)"
  have cb: "regex_callback slre_compile malloc n (Some a) priv = (0, priv1)"
    using f assms(2) by (simp add: regex_callback_def Let_def priv1_def)
  have p1: "(rp_regex priv1 = None) = (rp_attributes priv1 = None)" "rp_searched_for priv1 = rp_searched_for priv"
      "rp_attributes priv1 = (if rp_searched_for priv = n then Some a else rp_attributes priv)"
    using Cons.prems(2) by (simp_all add: priv1_def)
  have mo: "map_of (rev (e # es)) x = (case map_of (rev es) x of None \<Rightarrow> if x = n then Some a else None | Some b \<Rightarrow> Some b)" for x
    by (simp add: e map_add_def split: option.split)
  obtain priv2 where i: "attr_fold (regex_callback slre_compile malloc) es priv1 = (0, priv2)"
      "(rp_regex priv2 = None) = (rp_attributes priv2 = None)"
      "rp_attributes priv2 = (case map_of (rev es) (rp_searched_for priv1) of None \<Rightarrow> rp_attributes priv1 | Some a \<Rightarrow> Some a)"
    using Cons.IH [OF lr p1(1)] by (elim exE conjE)
  have "attr_fold (regex_callback slre_compile malloc) (e # es) priv = (0, priv2)" using cb i(1) by (simp add: e)
  moreover have "rp_attributes priv2 =
      (case map_of (rev (e # es)) (rp_searched_for priv) of None \<Rightarrow> rp_attributes priv | Some a \<Rightarrow> Some a)"
    unfolding mo i(3) p1 by (cases "map_of (rev es) (rp_searched_for priv)") simp_all
  ultimately show ?case using i(2) by (intro exI [of _ priv2] conjI)
qed simp

text \<open>
  C22. Looking up a name in an attribute list of entries without white space finds the attributes of the
  last entry with exactly that name, wherever the name also occurs as part of another name or of the
  attributes, and \<open>-ENOENT\<close> if there is none. The lookup of the build with regular expressions gives the
  same when the expressions match literally.
\<close>

theorem env_attr_lookup_correct:
  assumes "plain_list es" "es \<noteq> []" "plain_name name" "\<forall>n. malloc n" "literal_regex slre_compile es"
  shows "env_attr_lookup (Some (attr_text es)) name =
      (case map_of (rev es) name of None \<Rightarrow> (- ENOENT, None) | Some a \<Rightarrow> (0, Some a)) \<and>
    env_attr_lookup_regex slre_compile malloc (Some (attr_text es)) name = env_attr_lookup (Some (attr_text es)) name"
proof -
  have l: "env_attr_lookup (Some (attr_text es)) name =
      (case map_of (rev es) name of None \<Rightarrow> (- ENOENT, None) | Some a \<Rightarrow> (0, Some a))"
    by (rule env_attr_lookup_text [OF assms(1,3,2)])
  let ?p = "\<lparr>rp_searched_for = name, rp_regex = None, rp_attributes = None\<rparr>"
  have "(rp_regex ?p = None) = (rp_attributes ?p = None)" by simp
  from regex_fold [OF assms(5,4) this] obtain priv where
    p: "attr_fold (regex_callback slre_compile malloc) es ?p = (0, priv)"
      "(rp_regex priv = None) = (rp_attributes priv = None)"
      "rp_attributes priv = (case map_of (rev es) (rp_searched_for ?p) of None \<Rightarrow> rp_attributes ?p | Some a \<Rightarrow> Some a)"
    by (elim exE conjE)
  have "env_attr_lookup_regex slre_compile malloc (Some (attr_text es)) name =
      (if rp_regex priv \<noteq> None then (0, rp_attributes priv) else (- ENOENT, None))"
    using p(1) env_attr_loop_text [OF assms(1,4), of "regex_callback slre_compile malloc" ?p]
    by (simp add: env_attr_lookup_regex_def env_attr_walk_def)
  then show ?thesis using l p(2,3) by (cases "map_of (rev es) name") simp_all
qed

theorem env_attr_lookup_correct_witness:
  "env_attr_lookup (Some (attr_text [([97], [115]), ([97, 98], [100]), ([97], [120])])) [97] = (0, Some [120]) \<and>
   env_attr_lookup_regex (\<lambda>r. Some (\<lambda>s. [94] @ s @ [36] = r)) (\<lambda>n. True)
     (Some (attr_text [([97], [115]), ([97, 98], [100]), ([97], [120])])) [97] = (0, Some [120])"
proof -
  let ?es = "[([97], [115]), ([97, 98], [100]), ([97], [120])] :: (cstr \<times> cstr) list"
  have "plain_list ?es" "plain_name [97]" by code_simp+
  moreover have "literal_regex (\<lambda>r. Some (\<lambda>s. [94] @ s @ [36] = r)) ?es" by (auto simp: literal_regex_def)
  ultimately show ?thesis
    using env_attr_lookup_correct [of ?es "[97]" "\<lambda>n. True" "\<lambda>r. Some (\<lambda>s. [94] @ s @ [36] = r)"] by simp
qed

end
