(* ===== verification/Env_Flags.thy ===== *)
theory Env_Flags
  imports Env_Attr_Props
begin

text \<open>
  The types and access rights of environment variables, \<open>env/flags.c\<close> with \<open>include/env_flags.h\<close>. The
  options of the build are fields of a record: network support (the types for IP and MAC addresses),
  \<open>CONFIG_ENV_WRITEABLE_LIST\<close>, \<open>CONFIG_ENV_ACCESS_IGNORE_FORCE\<close> and the static list. Which of the two
  lookups of attribute lists is built in is a function argument. Messages are not modelled.
\<close>

section \<open>Types and access rights\<close>

record flags_config =
  fc_net :: bool
  fc_writeable_list :: bool
  fc_ignore_force :: bool
  fc_static_list :: cstr

datatype env_flags_vartype =
    vartype_string | vartype_decimal | vartype_hex | vartype_bool | vartype_ipaddr | vartype_macaddr
  | vartype_end | vartype_other

text \<open>The meaning of a number as a value of the enumeration, which depends on network support.\<close>

definition vartype_of :: "flags_config \<Rightarrow> nat \<Rightarrow> env_flags_vartype" where
  "vartype_of cfg n =
     (if n = 0 then vartype_string else if n = 1 then vartype_decimal else if n = 2 then vartype_hex
      else if n = 3 then vartype_bool
      else if fc_net cfg then
        (if n = 4 then vartype_ipaddr else if n = 5 then vartype_macaddr else if n = 6 then vartype_end else vartype_other)
      else if n = 4 then vartype_end else vartype_other)"

definition ENV_FLAGS_VAR :: cstr where "ENV_FLAGS_VAR = [46, 102, 108, 97, 103, 115]"
definition ENV_FLAGS_ATTR_MAX_LEN :: nat where "ENV_FLAGS_ATTR_MAX_LEN = 2"
definition ENV_FLAGS_VARTYPE_LOC :: nat where "ENV_FLAGS_VARTYPE_LOC = 0"
definition ENV_FLAGS_VARACCESS_LOC :: nat where "ENV_FLAGS_VARACCESS_LOC = 1"

definition ENV_FLAGS_VARTYPE_BIN_MASK :: int where "ENV_FLAGS_VARTYPE_BIN_MASK = 7"
definition PREVENT_DELETE :: int where "PREVENT_DELETE = 8"
definition PREVENT_CREATE :: int where "PREVENT_CREATE = 16"
definition PREVENT_OVERWR :: int where "PREVENT_OVERWR = 32"
definition PREVENT_NONDEF_OVERWR :: int where "PREVENT_NONDEF_OVERWR = 64"
definition VARACCESS_WRITEABLE :: int where "VARACCESS_WRITEABLE = 128"
definition VARACCESS_BIN_MASK :: int where "VARACCESS_BIN_MASK = 248"

definition H_DEFAULT :: int where "H_DEFAULT = 1024"
definition H_EXTERNAL :: int where "H_EXTERNAL = 2048"

definition env_flags_vartype_rep :: "flags_config \<Rightarrow> cstr" where
  "env_flags_vartype_rep cfg = [115, 100, 120, 98] @ (if fc_net cfg then [105, 109] else [])"

definition env_flags_varaccess_rep :: "flags_config \<Rightarrow> cstr" where
  "env_flags_varaccess_rep cfg = [97, 114, 111, 99] @ (if fc_writeable_list cfg then [119] else [])"

definition env_flags_varaccess_mask :: "flags_config \<Rightarrow> int list" where
  "env_flags_varaccess_mask cfg =
     [0, PREVENT_DELETE OR PREVENT_CREATE OR PREVENT_OVERWR, PREVENT_DELETE OR PREVENT_OVERWR,
      PREVENT_DELETE OR PREVENT_NONDEF_OVERWR] @ (if fc_writeable_list cfg then [VARACCESS_WRITEABLE] else [])"

definition env_flags_vartype_names :: "flags_config \<Rightarrow> string list" where
  "env_flags_vartype_names cfg =
     [''string'', ''decimal'', ''hexadecimal'', ''boolean''] @ (if fc_net cfg then [''IP address'', ''MAC address''] else [])"

definition env_flags_varaccess_names :: "flags_config \<Rightarrow> string list" where
  "env_flags_varaccess_names cfg =
     [''any'', ''read-only'', ''write-once'', ''change-default''] @ (if fc_writeable_list cfg then [''writeable''] else [])"

text \<open>What the printing functions list: the letter and the name of each type and each access right.\<close>

definition env_flags_print_vartypes :: "flags_config \<Rightarrow> (u8 \<times> string) list" where
  "env_flags_print_vartypes cfg = zip (env_flags_vartype_rep cfg) (env_flags_vartype_names cfg)"

definition env_flags_print_varaccess :: "flags_config \<Rightarrow> (u8 \<times> string) list" where
  "env_flags_print_varaccess cfg = zip (env_flags_varaccess_rep cfg) (env_flags_varaccess_names cfg)"

definition env_flags_get_vartype_name :: "flags_config \<Rightarrow> nat \<Rightarrow> string" where
  "env_flags_get_vartype_name cfg type = env_flags_vartype_names cfg ! type"

definition env_flags_get_varaccess_name :: "flags_config \<Rightarrow> nat \<Rightarrow> string" where
  "env_flags_get_varaccess_name cfg access = env_flags_varaccess_names cfg ! access"

section \<open>Parsing flags\<close>

text \<open>The position of a character in a string, as \<open>strchr\<close> finds it.\<close>

definition char_index :: "cstr \<Rightarrow> u8 \<Rightarrow> nat option" where
  "char_index s c = find (\<lambda>i. s ! i = c) [0..<length s]"

definition env_flags_parse_vartype :: "flags_config \<Rightarrow> cstr \<Rightarrow> nat" where
  "env_flags_parse_vartype cfg flags =
     (if length flags \<le> ENV_FLAGS_VARTYPE_LOC then 0
      else case char_index (env_flags_vartype_rep cfg) (flags ! ENV_FLAGS_VARTYPE_LOC) of
        Some i \<Rightarrow> i
      | None \<Rightarrow> 0)"

definition env_flags_parse_varaccess :: "flags_config \<Rightarrow> cstr \<Rightarrow> nat" where
  "env_flags_parse_varaccess cfg flags =
     (if length flags \<le> ENV_FLAGS_VARACCESS_LOC then 0
      else case char_index (env_flags_varaccess_rep cfg) (flags ! ENV_FLAGS_VARACCESS_LOC) of
        Some i \<Rightarrow> i
      | None \<Rightarrow> 0)"

definition env_flags_parse_varaccess_from_binflags :: "flags_config \<Rightarrow> int \<Rightarrow> nat" where
  "env_flags_parse_varaccess_from_binflags cfg binflags =
     (case find (\<lambda>i. env_flags_varaccess_mask cfg ! i = binflags AND VARACCESS_BIN_MASK)
             [0..<length (env_flags_varaccess_mask cfg)] of
        Some i \<Rightarrow> i
      | None \<Rightarrow> 0)"

definition env_parse_flags_to_bin :: "flags_config \<Rightarrow> cstr \<Rightarrow> int" where
  "env_parse_flags_to_bin cfg flags =
     (int (env_flags_parse_vartype cfg flags) AND ENV_FLAGS_VARTYPE_BIN_MASK) OR
     (env_flags_varaccess_mask cfg ! env_flags_parse_varaccess cfg flags)"

section \<open>Checking values\<close>

text \<open>The character at a position of a string, with the terminator at its end.\<close>

definition char_at :: "cstr \<Rightarrow> nat \<Rightarrow> u8" where
  "char_at s i = (if i < length s then s ! i else 0)"

definition is_hex_prefix :: "cstr \<Rightarrow> bool" where
  "is_hex_prefix value \<longleftrightarrow> char_at value 0 = 48 \<and> (char_at value 1 = 120 \<or> char_at value 1 = 88)"

text \<open>The rest of the string behind the digits; at most the given number of them, or any number.\<close>

fun skip_digits :: "bool \<Rightarrow> cstr \<Rightarrow> nat option \<Rightarrow> cstr" where
  "skip_digits hex [] i = []"
| "skip_digits hex (c # s) i =
     (if i = Some 0 then c # s
      else if hex \<and> \<not> isxdigit c then c # s
      else if \<not> hex \<and> \<not> isdigit c then c # s
      else skip_digits hex s (map_option (\<lambda>n. n - 1) i))"

definition skip_num :: "bool \<Rightarrow> cstr \<Rightarrow> nat option \<Rightarrow> cstr" where
  "skip_num hex value max_digits =
     skip_digits hex (if hex \<and> is_hex_prefix value then drop 2 value else value) max_digits"

text \<open>The rounds of the two address formats, counted down; the pointers are compared by what is left.\<close>

fun eth_validate_loop :: "nat \<Rightarrow> cstr \<Rightarrow> int" where
  "eth_validate_loop 0 cur = 0"
| "eth_validate_loop (Suc n) cur =
     (let e = skip_num True cur (Some 2)
      in if length cur = length e then - 1
         else if length cur = length e + 2 \<and> is_hex_prefix cur then - 1
         else if n \<noteq> 0 \<and> char_at e 0 \<noteq> 58 then - 1
         else if n = 0 \<and> e \<noteq> [] then - 1
         else eth_validate_loop n (tl e))"

definition eth_validate_ethaddr_str :: "cstr \<Rightarrow> int" where
  "eth_validate_ethaddr_str addr = eth_validate_loop 6 addr"

fun ip_validate_loop :: "nat \<Rightarrow> cstr \<Rightarrow> int" where
  "ip_validate_loop 0 cur = 0"
| "ip_validate_loop (Suc n) cur =
     (let e = skip_num False cur (Some 3)
      in if length cur = length e then - 1
         else if n \<noteq> 0 \<and> char_at e 0 \<noteq> 46 then - 1
         else if n = 0 \<and> e \<noteq> [] then - 1
         else ip_validate_loop n (tl e))"

definition env_flags_validate_type_raw :: "cstr \<Rightarrow> env_flags_vartype \<Rightarrow> int" where
  "env_flags_validate_type_raw value type =
     (case type of
        vartype_string \<Rightarrow> 0
      | vartype_decimal \<Rightarrow> if skip_num False value None \<noteq> [] then - 1 else 0
      | vartype_hex \<Rightarrow>
          if skip_num True value None \<noteq> [] then - 1
          else if length value = length (skip_num True value None) + 2 \<and> is_hex_prefix value then - 1
          else 0
      | vartype_bool \<Rightarrow>
          if char_at value 0 \<notin> {49, 121, 116, 89, 84, 48, 110, 102, 78, 70} then - 1
          else if char_at value 1 \<noteq> 0 then - 1
          else 0
      | vartype_ipaddr \<Rightarrow> ip_validate_loop 4 value
      | vartype_macaddr \<Rightarrow> if eth_validate_ethaddr_str value \<noteq> 0 then - 1 else 0
      | vartype_end \<Rightarrow> - 1
      | vartype_other \<Rightarrow> 0)"

section \<open>Looking up flags\<close>

type_synonym attr_lookup = "cstr option \<Rightarrow> cstr \<Rightarrow> int \<times> cstr option"

text \<open>The return value and the contents of the buffer for the flags, None while nothing is written.\<close>

definition env_flags_lookup :: "flags_config \<Rightarrow> attr_lookup \<Rightarrow> cstr option \<Rightarrow> cstr \<Rightarrow> int \<times> cstr option" where
  "env_flags_lookup cfg lookup flags_list name =
     (let r = (if flags_list \<noteq> None then lookup flags_list name else (1, None))
      in if fst r \<noteq> 0 then lookup (Some (fc_static_list cfg)) name else r)"

subsection \<open>In the host tools\<close>

text \<open>The argument \<open>flags_list\<close> is what \<open>env_get\<close> gives for \<open>.flags\<close>.\<close>

definition env_flags_get_type :: "flags_config \<Rightarrow> attr_lookup \<Rightarrow> cstr option \<Rightarrow> cstr \<Rightarrow> nat" where
  "env_flags_get_type cfg lookup flags_list name =
     (case env_flags_lookup cfg lookup flags_list name of (ret, flags) \<Rightarrow>
        if ret \<noteq> 0 then 0
        else if length (the flags) \<le> ENV_FLAGS_VARTYPE_LOC then 0
        else env_flags_parse_vartype cfg (the flags))"

definition env_flags_get_varaccess :: "flags_config \<Rightarrow> attr_lookup \<Rightarrow> cstr option \<Rightarrow> cstr \<Rightarrow> nat" where
  "env_flags_get_varaccess cfg lookup flags_list name =
     (case env_flags_lookup cfg lookup flags_list name of (ret, flags) \<Rightarrow>
        if ret \<noteq> 0 then 0
        else if length (the flags) \<le> ENV_FLAGS_VARACCESS_LOC then 0
        else env_flags_parse_varaccess cfg (the flags))"

definition env_flags_validate_type ::
  "flags_config \<Rightarrow> attr_lookup \<Rightarrow> cstr option \<Rightarrow> cstr \<Rightarrow> cstr option \<Rightarrow> int" where
  "env_flags_validate_type cfg lookup flags_list name value =
     (case value of
        None \<Rightarrow> 0
      | Some v \<Rightarrow>
          if env_flags_validate_type_raw v (vartype_of cfg (env_flags_get_type cfg lookup flags_list name)) < 0 then - 1
          else 0)"

definition env_flags_validate_varaccess :: "flags_config \<Rightarrow> attr_lookup \<Rightarrow> cstr option \<Rightarrow> cstr \<Rightarrow> int \<Rightarrow> bool" where
  "env_flags_validate_varaccess cfg lookup flags_list name check_mask \<longleftrightarrow>
     check_mask AND (env_flags_varaccess_mask cfg ! env_flags_get_varaccess cfg lookup flags_list name) \<noteq> 0"

definition env_flags_validate_env_set_params ::
  "flags_config \<Rightarrow> attr_lookup \<Rightarrow> cstr option \<Rightarrow> cstr \<Rightarrow> cstr list \<Rightarrow> int" where
  "env_flags_validate_env_set_params cfg lookup flags_list name val =
     (case val of
        [] \<Rightarrow> 0
      | v # vs \<Rightarrow>
          if env_flags_get_type cfg lookup flags_list name \<noteq> 0 \<and> vs \<noteq> [] then - 1
          else env_flags_validate_type cfg lookup flags_list name (Some v))"

subsection \<open>In the boot loader\<close>

text \<open>
  The static variables of the file: whether the list has not been read yet, and the list. The source
  keeps the pointer that \<open>env_get\<close> returned; here it is the string at that time.
\<close>

record flags_state =
  fs_first_call :: bool
  fs_flags_list :: "cstr option"

definition env_flags_init ::
  "flags_config \<Rightarrow> attr_lookup \<Rightarrow> cstr option \<Rightarrow> flags_state \<Rightarrow> env_entry \<Rightarrow> flags_state \<times> env_entry" where
  "env_flags_init cfg lookup env_flags st var_entry =
     (let st1 = (if fs_first_call st then
                   \<lparr>fs_first_call = False,
                    fs_flags_list = (if fc_writeable_list cfg then Some (fc_static_list cfg) else env_flags)\<rparr>
                 else st)
      in case env_flags_lookup cfg lookup (fs_flags_list st1) (the (ee_key var_entry)) of (ret, flags) \<Rightarrow>
           (st1, if ret = 0 \<and> the flags \<noteq> [] then var_entry\<lparr>ee_flags := env_parse_flags_to_bin cfg (the flags)\<rparr>
                 else var_entry))"

definition clear_flags :: "env_entry \<Rightarrow> int \<times> env_entry" where
  "clear_flags e = (0, e\<lparr>ee_flags := 0\<rparr>)"

text \<open>The entry that a search gives, and writing it back; None when the search does not end.\<close>

definition update_entry ::
  "env_hooks \<Rightarrow> cstr \<Rightarrow> (env_entry \<Rightarrow> env_entry) \<Rightarrow> hsearch_data option \<Rightarrow> hsearch_data option" where
  "update_entry hooks name f htab0 =
     Option.bind htab0 (\<lambda>htab.
       map_option (\<lambda>(ret, rv, err, htab1).
         case rv of
           None \<Rightarrow> htab1
         | Some idx \<Rightarrow> ht_update htab1 idx ((ht_node htab1 idx)\<lparr>en_entry := f (en_entry (ht_node htab1 idx))\<rparr>))
         (hsearch_r hooks name None ENV_FIND htab 0))"

definition set_flags ::
  "env_hooks \<Rightarrow> flags_config \<Rightarrow> cstr \<Rightarrow> cstr option \<Rightarrow> hsearch_data option \<Rightarrow> int \<times> hsearch_data option" where
  "set_flags hooks cfg name value htab =
     (0, update_entry hooks name (\<lambda>e.
          e\<lparr>ee_flags := (if value = None \<or> value = Some [] then 0 else env_parse_flags_to_bin cfg (the value))\<rparr>) htab)"

definition on_flags :: "env_hooks \<Rightarrow> allocator \<Rightarrow> flags_config \<Rightarrow> cstr option \<Rightarrow> hsearch_data \<Rightarrow> hsearch_data option" where
  "on_flags hooks malloc cfg value htab =
     (let h1 = snd (hwalk_r clear_flags htab);
          h2 = snd (env_attr_walk malloc (set_flags hooks cfg) (Some (fc_static_list cfg)) (Some h1))
      in snd (env_attr_walk malloc (set_flags hooks cfg) value h2))"

text \<open>
  \<open>env_flags_validate\<close>, the function behind \<open>change_ok\<close> of the environment; \<open>env_get_default\<close> is its
  first argument.
\<close>

definition env_flags_validate ::
  "(cstr \<Rightarrow> cstr option) \<Rightarrow> flags_config \<Rightarrow> env_entry \<Rightarrow> cstr option \<Rightarrow> env_op \<Rightarrow> int \<Rightarrow> int" where
  "env_flags_validate env_get_default cfg item newval0 op_code flag =
     (let newval = (case newval0 of None \<Rightarrow> [] | Some v \<Rightarrow> v);
          oldval = (if op_code \<noteq> env_op_create then ee_data item else None);
          type = vartype_of cfg (nat (ENV_FLAGS_VARTYPE_BIN_MASK AND ee_flags item))
      in if op_code \<noteq> env_op_delete \<and> env_flags_validate_type_raw newval type < 0 then - 1
         else if fc_writeable_list cfg \<and> flag AND H_DEFAULT \<noteq> 0 then 0
         else if fc_writeable_list cfg \<and> flag AND H_EXTERNAL \<noteq> 0 \<and> ee_flags item AND VARACCESS_WRITEABLE = 0 then 1
         else if flag AND H_FORCE \<noteq> 0 \<and> \<not> fc_ignore_force cfg then 0
         else case op_code of
           env_op_delete \<Rightarrow> if ee_flags item AND PREVENT_DELETE \<noteq> 0 then 1 else 0
         | env_op_overwrite \<Rightarrow>
             if ee_flags item AND PREVENT_OVERWR \<noteq> 0 then 1
             else if ee_flags item AND PREVENT_NONDEF_OVERWR \<noteq> 0 then
               (let defval = (case env_get_default (the (ee_key item)) of None \<Rightarrow> [] | Some d \<Rightarrow> d)
                in if oldval \<noteq> Some defval then 1 else 0)
             else 0
         | env_op_create \<Rightarrow> if ee_flags item AND PREVENT_CREATE \<noteq> 0 then 1 else 0)"

end
