(* ===== verification/Env_Callback.thy ===== *)
theory Env_Callback
  imports Env_Flags
begin

text \<open>
  The callbacks of environment variables, \<open>env/callback.c\<close>, and the hooks of the hash table as the boot
  loader sets them up: the callbacks and the flags of a new variable come from here and from
  \<open>env/flags.c\<close>. A callback is a number, its place in the linker list of callbacks.
\<close>

definition find_env_callback :: "cstr list \<Rightarrow> cstr option \<Rightarrow> nat option" where
  "find_env_callback clbk_tbl name =
     (case name of
        None \<Rightarrow> None
      | Some n \<Rightarrow> find (\<lambda>i. clbk_tbl ! i = n) [0..<length clbk_tbl])"

text \<open>The static variables of the file, as for the flags.\<close>

record callback_state =
  cs_first_call :: bool
  cs_callback_list :: "cstr option"

definition env_callback_init ::
  "cstr list \<Rightarrow> cstr \<Rightarrow> attr_lookup \<Rightarrow> cstr option \<Rightarrow> callback_state \<Rightarrow> env_entry \<Rightarrow> callback_state \<times> env_entry" where
  "env_callback_init clbk_tbl static_list lookup env_callbacks st var_entry =
     (let st1 = (if cs_first_call st then \<lparr>cs_first_call = False, cs_callback_list = env_callbacks\<rparr> else st);
          name = the (ee_key var_entry);
          r1 = (if cs_callback_list st1 \<noteq> None then lookup (cs_callback_list st1) name else (1, None));
          r = (if fst r1 \<noteq> 0 then lookup (Some static_list) name else r1)
      in (st1, var_entry\<lparr>ee_callback :=
           (if fst r = 0 \<and> the (snd r) \<noteq> [] then find_env_callback clbk_tbl (snd r) else None)\<rparr>))"

definition clear_callback :: "env_entry \<Rightarrow> int \<times> env_entry" where
  "clear_callback e = (0, e\<lparr>ee_callback := None\<rparr>)"

definition set_callback ::
  "env_hooks \<Rightarrow> cstr list \<Rightarrow> cstr \<Rightarrow> cstr option \<Rightarrow> hsearch_data option \<Rightarrow> int \<times> hsearch_data option" where
  "set_callback hooks clbk_tbl name value htab =
     (0, update_entry hooks name (\<lambda>e.
          if value = None \<or> value = Some [] then e\<lparr>ee_callback := None\<rparr>
          else case find_env_callback clbk_tbl value of
            None \<Rightarrow> e
          | Some cb \<Rightarrow> e\<lparr>ee_callback := Some cb\<rparr>) htab)"

definition on_callbacks ::
  "env_hooks \<Rightarrow> allocator \<Rightarrow> cstr list \<Rightarrow> cstr \<Rightarrow> cstr option \<Rightarrow> hsearch_data \<Rightarrow> hsearch_data option" where
  "on_callbacks hooks malloc clbk_tbl static_list value htab =
     (let h1 = snd (hwalk_r clear_callback htab);
          h2 = snd (env_attr_walk malloc (set_callback hooks clbk_tbl) (Some static_list) (Some h1))
      in snd (env_attr_walk malloc (set_callback hooks clbk_tbl) value h2))"

end
