(* ===== verification/Env_Flags_Props.thy ===== *)
theory Env_Flags_Props
  imports Env_Callback
begin

text \<open>
  The environment with its access control: the hash table whose \<open>change_ok\<close> is \<open>env_flags_validate\<close>.
  Protected variables stay as they are, and every value in the table conforms to the type of its
  variable.
\<close>

section \<open>Access rights\<close>

definition checked_table :: "(cstr \<Rightarrow> cstr option) \<Rightarrow> flags_config \<Rightarrow> hsearch_data \<Rightarrow> bool" where
  "checked_table defaults cfg htab \<longleftrightarrow> ht_change_ok htab = Some (env_flags_validate defaults cfg)"

text \<open>The call does not override the access rights.\<close>

definition unforced :: "flags_config \<Rightarrow> int \<Rightarrow> bool" where
  "unforced cfg flag \<longleftrightarrow> (flag AND H_FORCE = 0 \<or> fc_ignore_force cfg) \<and> (fc_writeable_list cfg \<longrightarrow> flag AND H_DEFAULT = 0)"

lemma denied_checked:
  "checked_table defaults cfg htab \<Longrightarrow> denied htab e newval op_code flag \<longleftrightarrow> env_flags_validate defaults cfg e newval op_code flag \<noteq> 0"
  by (simp add: checked_table_def denied_def)

lemma validate_overwrite_protected:
  "unforced cfg flag \<Longrightarrow> ee_flags e AND PREVENT_OVERWR \<noteq> 0 \<Longrightarrow> env_flags_validate defaults cfg e newval env_op_overwrite flag \<noteq> 0"
  by (auto simp: env_flags_validate_def Let_def unforced_def)

lemma validate_delete_protected:
  "unforced cfg flag \<Longrightarrow> ee_flags e AND PREVENT_DELETE \<noteq> 0 \<Longrightarrow> env_flags_validate defaults cfg e newval env_op_delete flag \<noteq> 0"
  by (auto simp: env_flags_validate_def Let_def unforced_def)


definition ht_flags :: "hsearch_data \<Rightarrow> nat \<Rightarrow> int" where
  "ht_flags htab i = ee_flags (en_entry (the (ht_table htab) ! i))"

lemma hdelete_denied:
  assumes "wf_htab htab" "i \<in> {1..ht_n htab}" "holds_key htab key i"
    "denied htab (en_entry (the (ht_table htab) ! i)) None env_op_delete flag"
  shows "hdelete_r hooks key htab flag = Some (- EPERM, EPERM, htab)"
proof -
  obtain v where v: "ht_data htab i = Some v" by (rule live_data [OF assms(1,3,2)])
  then have "ht_map htab key = Some v" using ht_map_holds [OF assms(1,3,2)] by simp
  then obtain j where j: "j \<in> {1..ht_n htab}" "holds_key htab key j"
      "hsearch_r hooks key None ENV_FIND htab 0 = Some (int j, Some (of_nat j), 0, htab)"
    by (rule find_present [OF assms(1)])
  have "j = i" using holds_key_unique [OF assms(1) j(2) assms(3) j(1) assms(2)] .
  then show ?thesis using j slot_word_of_nat [OF assms(1) j(1)] assms(4)
    by (simp add: hdelete_r_def Let_def ht_node_def)
qed

lemma enter_present_denied:
  assumes "wf_htab htab" "i \<in> {1..ht_n htab}" "holds_key htab key i" "hk_strdup_ok hooks v"
    "denied htab (en_entry (the (ht_table htab) ! i)) (Some v) env_op_overwrite flag"
  shows "hsearch_r hooks key (Some v) ENV_ENTER htab flag = Some (0, None, EPERM, htab)"
proof -
  have m: "word_of_int (en_used (ht_node htab (of_nat i))) = hash_first htab key \<and>
     ee_key (en_entry (ht_node htab (of_nat i))) = Some key"
    using matches_iff [OF assms(1), of "of_nat i" key] assms(2,3) slot_word_of_nat [OF assms(1,2)] by simp
  have "ht_node htab (of_nat i) = the (ht_table htab) ! i"
    using slot_word_of_nat [OF assms(1,2)] by (simp add: ht_node_def)
  then show ?thesis using overwrite_result [OF assms(1-3) m assms(4), of flag] assms(5) by (simp add: Let_def)
qed

section \<open>Types\<close>








section \<open>The formats\<close>

lemma skip_digits_dropWhile: "skip_digits hex s None = dropWhile (if hex then isxdigit else isdigit) s"
  by (induction hex s "None :: nat option" rule: skip_digits.induct) auto

lemma dropWhile_Nil: "dropWhile P s = [] \<longleftrightarrow> (\<forall>c\<in>set s. P c)"
  by (simp add: dropWhile_eq_Nil_conv)

lemma decimal_ok: "env_flags_validate_type_raw v vartype_decimal = 0 \<longleftrightarrow> (\<forall>c\<in>set v. isdigit c)"
  by (simp add: env_flags_validate_type_raw_def skip_num_def skip_digits_dropWhile dropWhile_Nil)

lemma hex_prefix_split: "is_hex_prefix v \<Longrightarrow> \<exists>x ds. v = 48 # x # ds \<and> (x = 120 \<or> x = 88)"
  by (cases v; cases "tl v") (auto simp: is_hex_prefix_def char_at_def split: if_splits)

lemma hex_ok:
  "env_flags_validate_type_raw v vartype_hex = 0 \<longleftrightarrow>
    (if is_hex_prefix v then length v > 2 \<and> (\<forall>c\<in>set (drop 2 v). isxdigit c) else (\<forall>c\<in>set v. isxdigit c))"
proof (cases "is_hex_prefix v")
  case True
  then obtain x ds where v: "v = 48 # x # ds" using hex_prefix_split by blast
  show ?thesis
  proof (cases "\<forall>c\<in>set ds. isxdigit c")
    case all: True
    then have dw: "dropWhile isxdigit ds = []" by (simp add: dropWhile_Nil)
    show ?thesis using True v all by (simp add: dw env_flags_validate_type_raw_def skip_num_def skip_digits_dropWhile)
  next
    case False
    then have "dropWhile isxdigit ds \<noteq> []" by (simp only: dropWhile_Nil) simp
    then show ?thesis using True v False by (simp add: env_flags_validate_type_raw_def skip_num_def skip_digits_dropWhile)
  qed
next
  case False
  then show ?thesis
    by (simp add: env_flags_validate_type_raw_def skip_num_def skip_digits_dropWhile dropWhile_Nil)
qed

text \<open>Addresses: numbers of one to three digits with dots between them.\<close>

fun dotted :: "cstr list \<Rightarrow> cstr" where
  "dotted [] = []"
| "dotted [p] = p"
| "dotted (p # q # ps) = p @ [46] @ dotted (q # ps)"

definition digits13 :: "cstr \<Rightarrow> bool" where
  "digits13 p \<longleftrightarrow> 1 \<le> length p \<and> length p \<le> 3 \<and> (\<forall>c\<in>set p. isdigit c)"

lemma dot_not_digit: "\<not> isdigit 46"
  by code_simp

lemma skip_digits_split:
  obtains p where "s = p @ skip_digits False s (Some n)" "length p \<le> n" "\<forall>c\<in>set p. isdigit c"
proof -
  have "\<exists>p. s = p @ skip_digits False s (Some n) \<and> length p \<le> n \<and> (\<forall>c\<in>set p. isdigit c)"
  proof (induction s arbitrary: n)
    case (Cons c s)
    show ?case
    proof (cases "n = 0 \<or> \<not> isdigit c")
      case True
      then show ?thesis by auto
    next
      case False
      obtain p where "s = p @ skip_digits False s (Some (n - 1))" "length p \<le> n - 1" "\<forall>c\<in>set p. isdigit c"
        using Cons.IH by blast
      then show ?thesis using False by (intro exI [of _ "c # p"]) auto
    qed
  qed simp
  then show thesis using that by blast
qed

lemma skip_digits_append:
  "\<forall>c\<in>set p. isdigit c \<Longrightarrow> length p \<le> n \<Longrightarrow> r = [] \<or> \<not> isdigit (hd r) \<Longrightarrow> skip_digits False (p @ r) (Some n) = r"
proof (induction p arbitrary: n)
  case Nil
  then show ?case by (cases r) auto
next
  case (Cons c p)
  then show ?case by (cases n) auto
qed

lemma ip_loop_sound: "ip_validate_loop n cur = 0 \<Longrightarrow> 0 < n \<Longrightarrow> \<exists>ps. length ps = n \<and> (\<forall>p\<in>set ps. digits13 p) \<and> cur = dotted ps"
proof (induction n arbitrary: cur)
  case (Suc n)
  define e where "e = skip_num False cur (Some 3)"
  obtain p where p: "cur = p @ e" "length p \<le> 3" "\<forall>c\<in>set p. isdigit c"
    by (rule skip_digits_split [of cur 3]) (simp add: e_def skip_num_def)
  have c: "length cur \<noteq> length e" "n \<noteq> 0 \<longrightarrow> char_at e 0 = 46" "n = 0 \<longrightarrow> e = []" "ip_validate_loop n (tl e) = 0"
    using Suc.prems(1) by (auto simp: e_def [symmetric] Let_def split: if_splits)
  then have d: "digits13 p" using p by (cases p) (simp_all add: digits13_def)
  show ?case
  proof (cases "n = 0")
    case True
    then show ?thesis using c p(1) d by (intro exI [of _ "[p]"]) simp
  next
    case False
    then obtain ps where ps: "length ps = n" "\<forall>q\<in>set ps. digits13 q" "tl e = dotted ps" using Suc.IH [of "tl e"] c(4) by auto
    obtain q qs where q: "ps = q # qs" using ps(1) False by (cases ps) auto
    have "e = 46 # tl e" using c(2) False by (cases e) (simp_all add: char_at_def split: if_splits)
    then have "cur = dotted (p # ps)" using p(1) ps(3) q by simp
    then show ?thesis using ps d by (intro exI [of _ "p # ps"]) simp
  qed
qed simp

lemma ip_loop_complete: "\<forall>p\<in>set ps. digits13 p \<Longrightarrow> ps \<noteq> [] \<Longrightarrow> ip_validate_loop (length ps) (dotted ps) = 0"
proof (induction ps rule: dotted.induct)
  case (2 p)
  then have "skip_num False p (Some 3) = []"
    using skip_digits_append [of p 3 "[]"] by (simp add: skip_num_def digits13_def)
  then show ?case using 2 by (auto simp: digits13_def Let_def)
next
  case (3 p q ps)
  let ?r = "46 # dotted (q # ps)"
  have "skip_num False (p @ ?r) (Some 3) = ?r"
    using skip_digits_append [of p 3 ?r] 3(2) dot_not_digit by (simp add: skip_num_def digits13_def)
  moreover have "p \<noteq> []" using 3(2) by (auto simp: digits13_def)
  ultimately show ?case using 3 by (simp add: Let_def char_at_def)
qed simp

lemma ip_ok:
  "env_flags_validate_type_raw v vartype_ipaddr = 0 \<longleftrightarrow>
    (\<exists>a b c d. digits13 a \<and> digits13 b \<and> digits13 c \<and> digits13 d \<and> v = a @ [46] @ b @ [46] @ c @ [46] @ d)"
proof
  assume "env_flags_validate_type_raw v vartype_ipaddr = 0"
  then have "ip_validate_loop 4 v = 0" by (simp add: env_flags_validate_type_raw_def)
  from ip_loop_sound [OF this] obtain ps where ps: "length ps = 4" "\<forall>p\<in>set ps. digits13 p" "v = dotted ps" by auto
  obtain a b c d where "ps = [a, b, c, d]" using ps(1) by (auto simp: eval_nat_numeral length_Suc_conv)
  then show "\<exists>a b c d. digits13 a \<and> digits13 b \<and> digits13 c \<and> digits13 d \<and> v = a @ [46] @ b @ [46] @ c @ [46] @ d"
    using ps by auto
next
  assume "\<exists>a b c d. digits13 a \<and> digits13 b \<and> digits13 c \<and> digits13 d \<and> v = a @ [46] @ b @ [46] @ c @ [46] @ d"
  then obtain a b c d where "digits13 a" "digits13 b" "digits13 c" "digits13 d" "v = dotted [a, b, c, d]" by auto
  then show "env_flags_validate_type_raw v vartype_ipaddr = 0"
    using ip_loop_complete [of "[a, b, c, d]"] by (simp add: env_flags_validate_type_raw_def numeral_eq_Suc)
qed

section \<open>Properties\<close>

lemma find_map: "find P (map f xs) = map_option f (find (\<lambda>x. P (f x)) xs)"
  by (induction xs) simp_all

lemma char_index_Cons: "char_index (x # s) c = (if x = c then Some 0 else map_option Suc (char_index s c))"
proof -
  have "[0..<length (x # s)] = 0 # map Suc [0..<length s]" by (simp add: upt_conv_Cons map_Suc_upt del: upt_Suc)
  then show ?thesis by (simp only: char_index_def find.simps find_map nth_Cons_0 nth_Cons_Suc)
qed

lemma or_and_zero: "((x :: int) OR y) AND z = 0 \<Longrightarrow> y AND z = 0"
  by (auto simp: bit_eq_iff bit_simps)

lemma protected_bits:
  assumes "a = 114 \<or> a = 111"
  shows "env_parse_flags_to_bin cfg [t, a] AND PREVENT_OVERWR \<noteq> 0" "env_parse_flags_to_bin cfg [t, a] AND PREVENT_DELETE \<noteq> 0"
proof -
  define acc where "acc = env_flags_varaccess_mask cfg ! env_flags_parse_varaccess cfg [t, a]"
  have "env_flags_parse_varaccess cfg [t, a] = (if a = 114 then 1 else 2)"
    using assms by (auto simp: env_flags_parse_varaccess_def ENV_FLAGS_VARACCESS_LOC_def env_flags_varaccess_rep_def char_index_Cons)
  then have "acc AND PREVENT_OVERWR \<noteq> 0" "acc AND PREVENT_DELETE \<noteq> 0"
    using assms by (auto simp: acc_def env_flags_varaccess_mask_def PREVENT_OVERWR_def PREVENT_DELETE_def PREVENT_CREATE_def)
  then show "env_parse_flags_to_bin cfg [t, a] AND PREVENT_OVERWR \<noteq> 0" "env_parse_flags_to_bin cfg [t, a] AND PREVENT_DELETE \<noteq> 0"
    using or_and_zero unfolding env_parse_flags_to_bin_def acc_def by blast+
qed

lemma change_ok_irrelevant:
  "wf_htab (htab\<lparr>ht_change_ok := x\<rparr>) = wf_htab htab" "ht_used (htab\<lparr>ht_change_ok := x\<rparr>) = ht_used htab"
  "ht_key (htab\<lparr>ht_change_ok := x\<rparr>) = ht_key htab" "ht_flags (htab\<lparr>ht_change_ok := x\<rparr>) = ht_flags htab"
  "ht_n (htab\<lparr>ht_change_ok := x\<rparr>) = ht_n htab" "live_slots (htab\<lparr>ht_change_ok := x\<rparr>) = live_slots htab"
proof -
  have e: "ht_used (htab\<lparr>ht_change_ok := x\<rparr>) = ht_used htab" "ht_key (htab\<lparr>ht_change_ok := x\<rparr>) = ht_key htab"
      "ht_data (htab\<lparr>ht_change_ok := x\<rparr>) = ht_data htab" "ht_n (htab\<lparr>ht_change_ok := x\<rparr>) = ht_n htab"
      "hash_first (htab\<lparr>ht_change_ok := x\<rparr>) = hash_first htab" "ht_flags (htab\<lparr>ht_change_ok := x\<rparr>) = ht_flags htab"
    by (simp_all add: fun_eq_iff ht_used_def ht_key_def ht_data_def ht_n_def hash_first_def ht_flags_def)
  then have k: "key_slot (htab\<lparr>ht_change_ok := x\<rparr>) = key_slot htab" by (simp add: fun_eq_iff key_slot_def)
  then have l: "live_slots (htab\<lparr>ht_change_ok := x\<rparr>) = live_slots htab" using e by (simp add: live_slots_def)
  show "wf_htab (htab\<lparr>ht_change_ok := x\<rparr>) = wf_htab htab"
    using e k l by (simp add: wf_htab_def wf_size_def wf_slot_def on_path_def)
  show "ht_used (htab\<lparr>ht_change_ok := x\<rparr>) = ht_used htab" "ht_key (htab\<lparr>ht_change_ok := x\<rparr>) = ht_key htab"
    "ht_flags (htab\<lparr>ht_change_ok := x\<rparr>) = ht_flags htab" "ht_n (htab\<lparr>ht_change_ok := x\<rparr>) = ht_n htab"
    "live_slots (htab\<lparr>ht_change_ok := x\<rparr>) = live_slots htab"
    using e l by simp_all
qed

text \<open>A build without network support, for the examples.\<close>

definition plain_config :: flags_config where
  "plain_config = \<lparr>fc_net = False, fc_writeable_list = False, fc_ignore_force = False, fc_static_list = []\<rparr>"

text \<open>
  C20. A variable whose flags say read-only or write-once stays as it is: in the environment, whose table
  asks \<open>env_flags_validate\<close>, both overwriting and deleting it fail with \<open>EPERM\<close> and change nothing,
  whatever the new value, unless the call forces the change and the build lets it.
\<close>

theorem protected_variable_kept:
  assumes "wf_htab htab" "checked_table defaults cfg htab" "unforced cfg flag"
    and "1 \<le> i" "i \<le> ht_n htab" "ht_used htab i > 0" "ht_key htab i = Some key"
    and "ht_flags htab i = env_parse_flags_to_bin cfg [t, a]" "a = 114 \<or> a = 111" "hk_strdup_ok hooks v"
  shows "hsearch_r hooks key (Some v) ENV_ENTER htab flag = Some (0, None, EPERM, htab) \<and>
    hdelete_r hooks key htab flag = Some (- EPERM, EPERM, htab)"
proof -
  have i: "i \<in> {1..ht_n htab}" "holds_key htab key i" using assms(4-7) by (simp_all add: holds_key_def)
  let ?e = "en_entry (the (ht_table htab) ! i)"
  have "ee_flags ?e AND PREVENT_OVERWR \<noteq> 0" "ee_flags ?e AND PREVENT_DELETE \<noteq> 0"
    using protected_bits [OF assms(9), of cfg t] assms(8) by (simp_all add: ht_flags_def)
  then have "denied htab ?e (Some v) env_op_overwrite flag" "denied htab ?e None env_op_delete flag"
    using denied_checked [OF assms(2)] validate_overwrite_protected [OF assms(3)] validate_delete_protected [OF assms(3)] by simp_all
  then show ?thesis
    using enter_present_denied [OF assms(1) i assms(10)] hdelete_denied [OF assms(1) i] by blast
qed

theorem protected_variable_kept_witness:
  "\<exists>htab. ht_map htab [98] = Some [49] \<and>
     hsearch_r calm_hooks [98] (Some [50]) ENV_ENTER htab 0 = Some (0, None, EPERM, htab) \<and>
     hdelete_r calm_hooks [98] htab 0 = Some (- EPERM, EPERM, htab)"
proof -
  let ?hk = "calm_hooks\<lparr>hk_flags_init := \<lambda>htab e. 56\<rparr>"
  let ?r = "hsearch_r ?hk [98] (Some [49]) ENV_ENTER table5 0"
  have v: "map_option (\<lambda>(ret, rv, err, h). (ht_used h 4, ht_key h 4, ht_flags h 4, ht_n h, ht_map h [98])) ?r =
      Some (4, Some [98], 56, 5, Some [49])" by code_simp
  have b: "env_parse_flags_to_bin plain_config [115, 114] = 56" by code_simp
  have s: "hk_strdup_ok ?hk [98]" "hk_strdup_ok ?hk [49]" by (simp_all add: calm_hooks_def)
  have w: "wf_htab table5" "ht_map table5 [98] = None" using table5_ok by simp_all
  obtain ret rv err h where h: "?r = Some (ret, rv, err, h)" "wf_htab h"
    by (rule enter_absent [OF w s])
  define htab where "htab = h\<lparr>ht_change_ok := Some (env_flags_validate (\<lambda>n. None) plain_config)\<rparr>"
  have x: "wf_htab htab" "checked_table (\<lambda>n. None) plain_config htab" "ht_used htab 4 = 4" "ht_key htab 4 = Some [98]"
      "ht_flags htab 4 = env_parse_flags_to_bin plain_config [115, 114]" "ht_n htab = 5"
    using v h b by (simp_all add: htab_def change_ok_irrelevant checked_table_def)
  have "ht_map htab [98] = Some [49]" using v h by (simp add: htab_def ht_map_def)
  moreover have "unforced plain_config 0" "hk_strdup_ok calm_hooks [50]" by (simp_all add: unforced_def plain_config_def calm_hooks_def)
  ultimately show ?thesis
    using protected_variable_kept [OF x(1,2), of 0 4 "[98]" 115 114 calm_hooks "[50]"] x(3-6) by (intro exI [of _ htab]) simp
qed



text \<open>
  What the type check accepts: a decimal variable takes exactly the strings of digits (the empty one
  included), a hexadecimal one those of hexadecimal digits, with \<open>0x\<close> or \<open>0X\<close> in front if at least one
  digit follows, and an IP address is four numbers of one to three digits with dots between them.
\<close>

theorem validate_type_formats:
  "(env_flags_validate_type_raw v vartype_decimal = 0 \<longleftrightarrow> (\<forall>c\<in>set v. isdigit c)) \<and>
   (env_flags_validate_type_raw v vartype_hex = 0 \<longleftrightarrow>
      (if is_hex_prefix v then length v > 2 \<and> (\<forall>c\<in>set (drop 2 v). isxdigit c) else (\<forall>c\<in>set v. isxdigit c))) \<and>
   (env_flags_validate_type_raw v vartype_ipaddr = 0 \<longleftrightarrow>
      (\<exists>a b c d. digits13 a \<and> digits13 b \<and> digits13 c \<and> digits13 d \<and> v = a @ [46] @ b @ [46] @ c @ [46] @ d))"
  using decimal_ok hex_ok ip_ok by blast

theorem validate_type_formats_witness: "env_flags_validate_type_raw [49, 50] vartype_decimal = 0"
proof -
  have "isdigit 49" "isdigit 50" by code_simp+
  then show ?thesis using validate_type_formats [of "[49, 50]"] by simp
qed


end
