(* ===== verification/Strto.thy ===== *)
theory Strto
  imports Env_Flags_Props
begin

text \<open>
  Numbers in text, \<open>lib/strto.c\<close>. A string is the list of its bytes without the terminator, and a
  pointer into it is the rest of the string from there; an end pointer is a second result. An
  \<open>unsigned long\<close> has 32 bits, as on ARM. A base is at most 256, the value of what is no digit, so that
  the terminator ends a number.
\<close>

section \<open>Digits\<close>

definition parse_integer_fixup_radix :: "cstr \<Rightarrow> u32 \<Rightarrow> cstr \<times> u32" where
  "parse_integer_fixup_radix s base =
     (if char_at s 0 = 48 then
        if tolower (char_at s 1) = 120 then (drop 2 s, 16)
        else (s, if base = 0 then 8 else base)
      else (s, if base = 0 then 10 else base))"

definition decode_digit :: "u8 \<Rightarrow> u32" where
  "decode_digit ch =
     (if \<not> isxdigit ch then 256
      else let c = tolower ch in if c \<le> 57 then ucast c - 48 else ucast c - 97 + 10)"

text \<open>The loop of \<open>simple_strtoul\<close> and of \<open>simple_strtoull\<close>, which differ in the width of the result.\<close>

primrec strtoul_loop :: "u32 \<Rightarrow> cstr \<Rightarrow> 'a::len word \<Rightarrow> 'a word \<times> cstr" where
  "strtoul_loop base [] result = (result, [])"
| "strtoul_loop base (c # s) result =
     (if decode_digit c < base then strtoul_loop base s (result * ucast base + ucast (decode_digit c))
      else (result, c # s))"

section \<open>Numbers\<close>

definition simple_strtoul :: "cstr \<Rightarrow> u32 \<Rightarrow> u32 \<times> cstr" where
  "simple_strtoul cp base = (case parse_integer_fixup_radix cp base of (s, b) \<Rightarrow> strtoul_loop b s 0)"

definition simple_strtoull :: "cstr \<Rightarrow> u32 \<Rightarrow> u64 \<times> cstr" where
  "simple_strtoull cp base = (case parse_integer_fixup_radix cp base of (s, b) \<Rightarrow> strtoul_loop b s 0)"

definition hextoul :: "cstr \<Rightarrow> u32 \<times> cstr" where "hextoul cp = simple_strtoul cp 16"

definition hextoull :: "cstr \<Rightarrow> u64 \<times> cstr" where "hextoull cp = simple_strtoull cp 16"

definition dectoul :: "cstr \<Rightarrow> u32 \<times> cstr" where "dectoul cp = simple_strtoul cp 10"

text \<open>The return value and the number.\<close>

definition strict_strtoul :: "cstr \<Rightarrow> u32 \<Rightarrow> int \<times> u32" where
  "strict_strtoul cp base =
     (if cp = [] then (- EINVAL, 0)
      else case simple_strtoul cp base of
        (val, tail) \<Rightarrow>
          if length tail = length cp then (- EINVAL, 0)
          else if tail = [] \<or> (length cp = length cp - length tail + 1 \<and> char_at tail 0 = 10) then (0, val)
          else (- EINVAL, 0))"

definition simple_strtol :: "cstr \<Rightarrow> u32 \<Rightarrow> u32 \<times> cstr" where
  "simple_strtol cp base =
     (if char_at cp 0 = 45 then (case simple_strtoul (drop 1 cp) base of (v, e) \<Rightarrow> (- v, e))
      else simple_strtoul cp base)"

definition simple_strtoll :: "cstr \<Rightarrow> u32 \<Rightarrow> u64 \<times> cstr" where
  "simple_strtoll cp base =
     (if char_at cp 0 = 45 then (case simple_strtoull (drop 1 cp) base of (v, e) \<Rightarrow> (- v, e))
      else simple_strtoull cp base)"

text \<open>The suffix of a size: the switch that \<open>ustrtoul\<close> and \<open>ustrtoull\<close> share.\<close>

definition skip_char :: "u8 \<Rightarrow> cstr \<Rightarrow> cstr" where
  "skip_char c s = (if s \<noteq> [] \<and> hd s = c then tl s else s)"

definition size_suffix :: "'a::len word \<times> cstr \<Rightarrow> 'a word \<times> cstr" where
  "size_suffix p =
     (case p of (result, endp) \<Rightarrow>
        let c = tolower (char_at endp 0); endp1 = skip_char 66 (skip_char 105 (drop 1 endp))
        in if c = 103 then (result * 1024 * 1024 * 1024, endp1)
           else if c = 109 then (result * 1024 * 1024, endp1)
           else if c = 107 then (result * 1024, endp1)
           else (result, endp))"

definition ustrtoul :: "cstr \<Rightarrow> u32 \<Rightarrow> u32 \<times> cstr" where
  "ustrtoul cp base = size_suffix (simple_strtoul cp base)"

definition ustrtoull :: "cstr \<Rightarrow> u32 \<Rightarrow> u64 \<times> cstr" where
  "ustrtoull cp base = size_suffix (simple_strtoull cp base)"

section \<open>The number at the end of a name\<close>

text \<open>The loop goes back from \<open>p\<close>, which is behind the first character, to the first of the digits.\<close>

fun trailing_loop :: "cstr \<Rightarrow> nat \<Rightarrow> nat option" where
  "trailing_loop str p =
     (if \<not> isdigit (char_at str (p - 1)) then Some p
      else if p - 1 > 0 then trailing_loop str (p - 1) else None)"

declare trailing_loop.simps [simp del]

text \<open>The number or -1, and the offset that goes to \<open>endp\<close>; the end is an offset too.\<close>

definition trailing_strtoln_end :: "cstr \<Rightarrow> nat option \<Rightarrow> u32 \<times> nat" where
  "trailing_strtoln_end str end0 =
     (let e = (case end0 of None \<Rightarrow> length str | Some n \<Rightarrow> n)
      in if e > 1 \<and> isdigit (char_at str (e - 1)) then
           case trailing_loop str (e - 1) of
             Some p \<Rightarrow> (fst (dectoul (drop p str)), p)
           | None \<Rightarrow> (- 1, e)
         else (- 1, e))"

definition trailing_strtoln :: "cstr \<Rightarrow> nat option \<Rightarrow> u32" where
  "trailing_strtoln str end0 = fst (trailing_strtoln_end str end0)"

definition trailing_strtol :: "cstr \<Rightarrow> u32" where
  "trailing_strtol str = trailing_strtoln str None"

section \<open>Strings\<close>

text \<open>The bytes written to \<open>out\<close>.\<close>

fun str_to_upper :: "cstr \<Rightarrow> nat \<Rightarrow> u8 list" where
  "str_to_upper s 0 = []"
| "str_to_upper [] (Suc len) = [0]"
| "str_to_upper (c # s) (Suc len) = toupper c # str_to_upper s len"

text \<open>The first loop of \<open>str_to_list\<close> puts a NUL in the place of every space; the second collects the strings.\<close>

definition blank_spaces :: "cstr \<Rightarrow> u8 list" where
  "blank_spaces s = map (\<lambda>c. if c = 32 then 0 else c) s"

definition str_list_count :: "cstr \<Rightarrow> nat" where
  "str_list_count s =
     length (filter (\<lambda>c. c = 32) s) + (if s \<noteq> [] \<and> last (blank_spaces s) \<noteq> 0 then 1 else 0)"

primrec str_list_items :: "nat \<Rightarrow> u8 list \<Rightarrow> cstr list" where
  "str_list_items 0 p = []"
| "str_list_items (Suc n) p =
     takeWhile (\<lambda>c. c \<noteq> 0) p # str_list_items n (drop (length (takeWhile (\<lambda>c. c \<noteq> 0) p) + 1) p)"

definition str_to_list :: "allocator \<Rightarrow> cstr \<Rightarrow> cstr list option" where
  "str_to_list malloc instr =
     (if instr \<noteq> [] \<and> \<not> malloc (length instr + 1) then None
      else if \<not> malloc ((str_list_count instr + 1) * 4) then None
      else Some (str_list_items (str_list_count instr) (blank_spaces instr)))"

end
