(* ===== verification/Vsprintf.thy ===== *)
theory Vsprintf
  imports Strto
begin

text \<open>
  Formatted output, \<open>lib/vsprintf.c\<close>, in a build without the EFI loader, \<open>CONFIG_LIB_UUID\<close> and
  \<open>CONFIG_ERRNO_STR\<close>. The output goes to memory through a record of the memory, the next position and
  the end of the buffer. Digits are lists of the bytes written, in the order of writing. An argument
  that is not of the type a conversion takes has no defined behaviour: the result is None.
\<close>

section \<open>Output\<close>

record outbuf =
  ob_mem :: memory
  ob_str :: ptr
  ob_end :: ptr

definition addch :: "u8 \<Rightarrow> outbuf \<Rightarrow> outbuf" where
  "addch ch ob =
     (let ob1 = (if ob_str ob < ob_end ob then ob\<lparr>ob_mem := (ob_mem ob)(ob_str ob := ch)\<rparr> else ob)
      in ob1\<lparr>ob_str := ob_str ob1 + 1\<rparr>)"

text \<open>The loop \<open>while (--size >= 0) ADDCH(buf, c)\<close>, with the value it leaves in \<open>size\<close>.\<close>

function pad_loop :: "int \<Rightarrow> u8 \<Rightarrow> outbuf \<Rightarrow> int \<times> outbuf" where
  "pad_loop sz c ob = (if sz - 1 \<ge> 0 then pad_loop (sz - 1) c (addch c ob) else (sz - 1, ob))"
  by pat_completeness auto
termination
  by (relation "measure (\<lambda>(sz, c, ob). nat sz)") auto

text \<open>The loop \<open>while (len < field_width--) ADDCH(buf, ' ')\<close>.\<close>

function width_loop :: "int \<Rightarrow> int \<Rightarrow> outbuf \<Rightarrow> int \<times> outbuf" where
  "width_loop len fw ob = (if len < fw then width_loop len (fw - 1) (addch 32 ob) else (fw - 1, ob))"
  by pat_completeness auto
termination
  by (relation "measure (\<lambda>(len, fw, ob). nat (fw - len))") auto

declare pad_loop.simps [simp del] width_loop.simps [simp del]

section \<open>Decimal digits\<close>

definition is_digit :: "u8 \<Rightarrow> bool" where "is_digit c \<longleftrightarrow> 48 \<le> c \<and> c \<le> 57"

fun skip_atoi :: "int \<Rightarrow> cstr \<Rightarrow> int \<times> cstr" where
  "skip_atoi i [] = (i, [])"
| "skip_atoi i (c # s) = (if is_digit c then skip_atoi (i * 10 + uint c - 48) s else (i, c # s))"

definition put_dec_trunc :: "u32 \<Rightarrow> u8 list" where
  "put_dec_trunc q0 =
     (let d1 = drop_bit 4 q0 AND 0xf; d2 = drop_bit 8 q0 AND 0xf; d3 = drop_bit 12 q0;
          d0 = 6 * (d3 + d2 + d1) + (q0 AND 0xf);
          q1 = drop_bit 11 (d0 * 0xcd);
          e1 = q1 + 9 * d3 + 5 * d2 + d1;
          q2 = drop_bit 11 (e1 * 0xcd);
          e2 = q2 + 2 * d2;
          q3 = drop_bit 7 (e2 * 0xd);
          e3 = q3 + 4 * d3;
          q4 = drop_bit 11 (e3 * 0xcd)
      in (ucast (d0 - 10 * q1) + 48) #
         (if e1 \<noteq> 0 then
            (ucast (e1 - 10 * q2) + 48) #
            (if e2 \<noteq> 0 \<or> d3 \<noteq> 0 then
               (ucast (e2 - 10 * q3) + 48) #
               (if e3 \<noteq> 0 then (ucast (e3 - 10 * q4) + 48) # (if q4 \<noteq> 0 then [ucast q4 + 48] else []) else [])
             else [])
          else []))"

definition put_dec_full :: "u32 \<Rightarrow> u8 list" where
  "put_dec_full q0 =
     (let d1 = drop_bit 4 q0 AND 0xf; d2 = drop_bit 8 q0 AND 0xf; d3 = drop_bit 12 q0;
          d0 = 6 * (d3 + d2 + d1) + (q0 AND 0xf);
          q1 = drop_bit 11 (d0 * 0xcd);
          e1 = q1 + 9 * d3 + 5 * d2 + d1;
          q2 = drop_bit 11 (e1 * 0xcd);
          e2 = q2 + 2 * d2;
          q3 = drop_bit 7 (e2 * 0xd);
          e3 = q3 + 4 * d3;
          q4 = drop_bit 11 (e3 * 0xcd)
      in [ucast (d0 - 10 * q1) + 48, ucast (e1 - 10 * q2) + 48, ucast (e2 - 10 * q3) + 48,
          ucast (e3 - 10 * q4) + 48, ucast q4 + 48])"

function put_dec :: "u64 \<Rightarrow> u8 list" where
  "put_dec num =
     (if num < 100000 then put_dec_trunc (ucast num)
      else put_dec_full (ucast (num mod 100000)) @ put_dec (num div 100000))"
  by pat_completeness auto
termination
  by (relation "measure unat") (auto simp: unat_div word_le_nat_alt not_less intro!: div_less_dividend)

declare put_dec.simps [simp del]

section \<open>Numbers\<close>

definition ZEROPAD :: int where "ZEROPAD = 1"
definition SIGN :: int where "SIGN = 2"
definition PLUS :: int where "PLUS = 4"
definition SPACE :: int where "SPACE = 8"
definition LEFT :: int where "LEFT = 16"
definition SMALL :: int where "SMALL = 32"
definition SPECIAL :: int where "SPECIAL = 64"

definition number_digits :: "u8 list" where
  "number_digits = [48, 49, 50, 51, 52, 53, 54, 55, 56, 57, 65, 66, 67, 68, 69, 70]"

lemma unat_drop_bit_less: "drop_bit n w \<noteq> 0 \<Longrightarrow> n \<noteq> 0 \<Longrightarrow> unat (drop_bit n w) < unat (w :: 'a::len word)"
proof -
  assume "drop_bit n w \<noteq> 0" and n: "n \<noteq> 0"
  then have "unat w > 0" by (metis drop_bit_of_0 unat_gt_0)
  moreover have "(2::nat) ^ n > 1" using n one_less_power [of "2::nat" n] by simp
  ultimately show ?thesis
    by (simp add: unat_drop_bit_eq drop_bit_eq_div [where 'a = nat] div_less_dividend)
qed

text \<open>The loop for the bases 8 and 16; the shift is 3 or 4, and the test for 0 only makes the function total.\<close>

function number_loop :: "u64 \<Rightarrow> nat \<Rightarrow> u8 \<Rightarrow> u64 \<Rightarrow> u8 list" where
  "number_loop msk shift locase num =
     (number_digits ! unat (ucast (ucast num :: u8) AND msk) OR locase) #
     (if drop_bit shift num \<noteq> 0 \<and> shift \<noteq> 0 then number_loop msk shift locase (drop_bit shift num) else [])"
  by pat_completeness auto
termination
  by (relation "measure (\<lambda>(msk, shift, locase, num). unat num)")
    (auto intro: unat_drop_bit_less)


declare number_loop.simps [simp del]

definition number_tmp :: "u64 \<Rightarrow> int \<Rightarrow> u8 \<Rightarrow> u8 list" where
  "number_tmp num base locase =
     (if num = 0 then [48]
      else if base \<noteq> 10 then number_loop (word_of_int (base - 1)) (if base = 16 then 4 else 3) locase num
      else put_dec num)"

text \<open>The loop \<open>while (i <= --precision) ADDCH(buf, '0')\<close>.\<close>

function zeros_loop :: "int \<Rightarrow> int \<Rightarrow> outbuf \<Rightarrow> outbuf" where
  "zeros_loop i precision ob = (if i \<le> precision - 1 then zeros_loop i (precision - 1) (addch 48 ob) else ob)"
  by pat_completeness auto
termination
  by (relation "measure (\<lambda>(i, precision, ob). nat (precision - i))") auto

declare zeros_loop.simps [simp del]

text \<open>The sign, or 0, and the number without it.\<close>

definition number_sign :: "u64 \<Rightarrow> int \<Rightarrow> u8 \<times> u64" where
  "number_sign num type =
     (if type AND SIGN \<noteq> 0 then
        if num <s 0 then (45, - num)
        else if type AND PLUS \<noteq> 0 then (43, num)
        else if type AND SPACE \<noteq> 0 then (32, num)
        else (0, num)
      else (0, num))"

definition number :: "u64 \<Rightarrow> int \<Rightarrow> int \<Rightarrow> int \<Rightarrow> int \<Rightarrow> outbuf \<Rightarrow> outbuf" where
  "number num0 base size0 precision0 type0 ob =
     (let need_pfx = (type0 AND SPECIAL \<noteq> 0 \<and> base \<noteq> 10);
          locase = word_of_int (type0 AND SMALL);
          type = (if type0 AND LEFT \<noteq> 0 then type0 AND NOT ZEROPAD else type0);
          sign = fst (number_sign num0 type); num = snd (number_sign num0 type);
          size1 = (if sign \<noteq> 0 then size0 - 1 else size0);
          size2 = (if need_pfx then if base = 16 then size1 - 2 else size1 - 1 else size1);
          tmp = number_tmp num base locase;
          i = int (length tmp);
          precision = (if i > precision0 then i else precision0);
          size3 = size2 - precision;
          (size4, ob1) = (if type AND (ZEROPAD + LEFT) = 0 then pad_loop size3 32 ob else (size3, ob));
          ob2 = (if sign \<noteq> 0 then addch sign ob1 else ob1);
          ob3 = (if need_pfx then
                   let obp = addch 48 ob2 in if base = 16 then addch (88 OR locase) obp else obp
                 else ob2);
          (size5, ob4) = (if type AND LEFT = 0
                          then pad_loop size4 (if type AND ZEROPAD \<noteq> 0 then 48 else 32) ob3 else (size4, ob3));
          ob5 = zeros_loop i precision ob4;
          ob6 = fold addch (rev tmp) ob5
      in snd (pad_loop size5 32 ob6))"

section \<open>Strings and addresses\<close>

definition null_text :: cstr where "null_text = [60, 78, 85, 76, 76, 62]"

definition string :: "cstr option \<Rightarrow> int \<Rightarrow> int \<Rightarrow> int \<Rightarrow> outbuf \<Rightarrow> outbuf" where
  "string s0 field_width precision flags ob =
     (let s = (case s0 of None \<Rightarrow> null_text | Some t \<Rightarrow> t);
          len = (if precision < 0 then length s else min (nat precision) (length s));
          (fw1, ob1) = (if flags AND LEFT = 0 then width_loop (int len) field_width ob else (field_width, ob));
          ob2 = fold addch (take len s) ob1
      in snd (width_loop (int len) fw1 ob2))"

definition hex_asc :: "u8 list" where
  "hex_asc = [48, 49, 50, 51, 52, 53, 54, 55, 56, 57, 97, 98, 99, 100, 101, 102]"

definition hex_byte_pack :: "u8 \<Rightarrow> u8 list" where
  "hex_byte_pack byte = [hex_asc ! unat (drop_bit 4 (byte AND 0xf0)), hex_asc ! unat (byte AND 0x0f)]"

definition mac_address_string :: "ptr \<Rightarrow> int \<Rightarrow> int \<Rightarrow> int \<Rightarrow> outbuf \<Rightarrow> outbuf" where
  "mac_address_string addr field_width precision flags ob =
     string (Some (concat (map (\<lambda>i. hex_byte_pack (ob_mem ob (addr + i)) @
               (if flags AND SPECIAL = 0 \<and> i \<noteq> 5 then [58] else [])) [0..<6])))
       field_width precision (flags AND NOT SPECIAL) ob"

definition ip6_addr_string :: "ptr \<Rightarrow> int \<Rightarrow> int \<Rightarrow> int \<Rightarrow> outbuf \<Rightarrow> outbuf" where
  "ip6_addr_string addr field_width precision flags ob =
     string (Some (concat (map (\<lambda>i. hex_byte_pack (ob_mem ob (addr + 2 * i)) @ hex_byte_pack (ob_mem ob (addr + 2 * i + 1)) @
               (if flags AND SPECIAL = 0 \<and> i \<noteq> 7 then [58] else [])) [0..<8])))
       field_width precision (flags AND NOT SPECIAL) ob"

definition ip4_addr_string :: "ptr \<Rightarrow> int \<Rightarrow> int \<Rightarrow> int \<Rightarrow> outbuf \<Rightarrow> outbuf" where
  "ip4_addr_string addr field_width precision flags ob =
     string (Some (concat (map (\<lambda>i. rev (put_dec_trunc (ucast (ob_mem ob (addr + i)))) @
               (if i \<noteq> 3 then [46] else [])) [0..<4])))
       field_width precision (flags AND NOT SPECIAL) ob"

text \<open>A 64-bit \<open>phys_addr_t\<close> in memory, with the low byte first.\<close>

definition load_phys_addr :: "memory \<Rightarrow> ptr \<Rightarrow> u64" where
  "load_phys_addr m p = (\<Sum>i<8. push_bit (8 * i) (ucast (m (p + i))))"

definition pointer :: "bool \<Rightarrow> cstr \<Rightarrow> ptr \<Rightarrow> int \<Rightarrow> int \<Rightarrow> int \<Rightarrow> outbuf \<Rightarrow> outbuf" where
  "pointer ipv6 fmt p field_width precision flags ob =
     (let plain = (\<lambda>num fw fl.
            let fl1 = fl OR SMALL
            in if fw = - 1 then number num 16 8 precision (fl1 OR ZEROPAD) ob
               else number num 16 fw precision fl1 ob);
          num = word_of_nat p; c = char_at fmt 0; special = (if c = 109 \<or> c = 105 then flags OR SPECIAL else flags)
      in if c = 97 then plain (load_phys_addr (ob_mem ob) p) 18 (flags OR SPECIAL OR ZEROPAD)
         else if c = 109 \<or> c = 77 then mac_address_string p field_width precision special ob
         else if c = 105 \<or> c = 73 then
           if ipv6 \<and> char_at fmt 1 = 54 then ip6_addr_string p field_width precision special ob
           else if char_at fmt 1 = 52 then ip4_addr_string p field_width precision special ob
           else plain num field_width (special AND NOT SPECIAL)
         else plain num field_width flags)"

section \<open>Formats\<close>

text \<open>
  An argument: an \<open>int\<close>, \<open>long\<close>, \<open>size_t\<close> or \<open>ptrdiff_t\<close>, which have 32 bits, a \<open>long long\<close>, a pointer,
  or the string a pointer points to.
\<close>

datatype va_arg = ArgInt u32 | ArgLong u64 | ArgPtr ptr | ArgStr "cstr option"

definition flag_char :: "u8 \<Rightarrow> int option" where
  "flag_char c =
     (if c = 45 then Some LEFT else if c = 43 then Some PLUS else if c = 32 then Some SPACE
      else if c = 35 then Some SPECIAL else if c = 48 then Some ZEROPAD else None)"

fun format_flags :: "int \<Rightarrow> cstr \<Rightarrow> int \<times> cstr" where
  "format_flags flags [] = (flags, [])"
| "format_flags flags (c # fmt) =
     (case flag_char c of Some f \<Rightarrow> format_flags (flags OR f) fmt | None \<Rightarrow> (flags, c # fmt))"

text \<open>The width, with the flags, the rest of the format and the arguments left.\<close>

definition format_width :: "int \<Rightarrow> cstr \<Rightarrow> va_arg list \<Rightarrow> (int \<times> int \<times> cstr \<times> va_arg list) option" where
  "format_width flags fmt args =
     (if fmt \<noteq> [] \<and> is_digit (hd fmt) then
        (case skip_atoi 0 fmt of (w, fmt1) \<Rightarrow> Some (w, flags, fmt1, args))
      else if char_at fmt 0 = 42 then
        (case args of
           ArgInt w # args1 \<Rightarrow>
             if sint w < 0 then Some (- sint w, flags OR LEFT, tl fmt, args1) else Some (sint w, flags, tl fmt, args1)
         | _ \<Rightarrow> None)
      else Some (- 1, flags, fmt, args))"

definition format_precision :: "cstr \<Rightarrow> va_arg list \<Rightarrow> (int \<times> cstr \<times> va_arg list) option" where
  "format_precision fmt args =
     (if char_at fmt 0 = 46 then
        let fmt1 = tl fmt
        in if fmt1 \<noteq> [] \<and> is_digit (hd fmt1) then
             (case skip_atoi 0 fmt1 of (p, fmt2) \<Rightarrow> Some (if p < 0 then 0 else p, fmt2, args))
           else if char_at fmt1 0 = 42 then
             (case args of
                ArgInt p # args1 \<Rightarrow> Some (if sint p < 0 then 0 else sint p, tl fmt1, args1)
              | _ \<Rightarrow> None)
           else Some (0, fmt1, args)
      else Some (- 1, fmt, args))"

text \<open>The qualifier is a character, or 0 when there is none.\<close>

definition format_qualifier :: "cstr \<Rightarrow> u8 \<times> cstr" where
  "format_qualifier fmt =
     (let c = char_at fmt 0
      in if c \<in> {104, 108, 76, 90, 122, 116} then
           if c = 108 \<and> char_at fmt 1 = 108 then (76, drop 2 fmt) else (c, tl fmt)
         else (0, fmt))"

definition fetch_number :: "u8 \<Rightarrow> int \<Rightarrow> va_arg list \<Rightarrow> (u64 \<times> va_arg list) option" where
  "fetch_number qualifier flags args =
     (case args of
        ArgLong n # args1 \<Rightarrow> if qualifier = 76 then Some (n, args1) else None
      | ArgInt n # args1 \<Rightarrow>
          if qualifier = 76 then None
          else if qualifier = 108 then Some (if flags AND SIGN \<noteq> 0 then scast n else ucast n, args1)
          else if qualifier = 90 \<or> qualifier = 122 then Some (ucast n, args1)
          else if qualifier = 116 then Some (scast n, args1)
          else if qualifier = 104 then
            Some (if flags AND SIGN \<noteq> 0 then scast (ucast n :: u16) else ucast (ucast n :: u16), args1)
          else Some (if flags AND SIGN \<noteq> 0 then scast n else ucast n, args1)
      | _ \<Rightarrow> None)"

text \<open>The loop \<open>while (--field_width > 0) ADDCH(str, ' ')\<close> is the padding loop with one less.\<close>

definition format_char :: "u8 \<Rightarrow> int \<Rightarrow> int \<Rightarrow> outbuf \<Rightarrow> outbuf" where
  "format_char c flags field_width ob =
     (let (fw1, ob1) = (if flags AND LEFT = 0 then pad_loop (field_width - 1) 32 ob else (field_width - 1, ob))
      in snd (pad_loop fw1 32 (addch c ob1)))"

definition store_word32 :: "memory \<Rightarrow> ptr \<Rightarrow> u32 \<Rightarrow> memory" where
  "store_word32 m p w =
     (\<lambda>a. if p \<le> a \<and> a < p + 4 then ucast (drop_bit (8 * (a - p)) w) else m a)"

definition format_integer ::
  "u8 \<Rightarrow> int \<Rightarrow> int \<Rightarrow> int \<Rightarrow> int \<Rightarrow> cstr \<Rightarrow> va_arg list \<Rightarrow> outbuf \<Rightarrow> (cstr \<times> va_arg list \<times> outbuf) option" where
  "format_integer qualifier flags base field_width precision fmt args ob =
     map_option (\<lambda>(num, args1). (fmt, args1, number num base field_width precision flags ob))
       (fetch_number qualifier flags args)"

text \<open>One conversion at its character; \<open>buf\<close> is the start of the buffer.\<close>

definition format_conversion ::
  "bool \<Rightarrow> ptr \<Rightarrow> u8 \<Rightarrow> int \<Rightarrow> int \<Rightarrow> int \<Rightarrow> cstr \<Rightarrow> va_arg list \<Rightarrow> outbuf \<Rightarrow>
   (cstr \<times> va_arg list \<times> outbuf) option" where
  "format_conversion ipv6 buf qualifier flags field_width precision fmt args ob =
     (let c = char_at fmt 0; rest = tl fmt
      in if c = 99 then
           (case args of
              ArgInt n # args1 \<Rightarrow> Some (rest, args1, format_char (ucast n) flags field_width ob)
            | _ \<Rightarrow> None)
         else if c = 115 then
           (case args of
              ArgStr s # args1 \<Rightarrow> Some (rest, args1, string s field_width precision flags ob)
            | _ \<Rightarrow> None)
         else if c = 112 then
           (case args of
              ArgPtr p # args1 \<Rightarrow>
                Some (dropWhile isalnum rest, args1, pointer ipv6 rest p field_width precision flags ob)
            | _ \<Rightarrow> None)
         else if c = 110 then
           (case args of
              ArgPtr p # args1 \<Rightarrow>
                Some (rest, args1, ob\<lparr>ob_mem := store_word32 (ob_mem ob) p (word_of_nat (ob_str ob - buf))\<rparr>)
            | _ \<Rightarrow> None)
         else if c = 37 then Some (rest, args, addch 37 ob)
         else if c = 111 then format_integer qualifier flags 8 field_width precision rest args ob
         else if c = 120 then format_integer qualifier (flags OR SMALL) 16 field_width precision rest args ob
         else if c = 88 then format_integer qualifier flags 16 field_width precision rest args ob
         else if c = 100 then
           format_integer qualifier (flags OR SIGN) 10 field_width precision
             (if char_at rest 0 = 69 then tl rest else rest) args ob
         else if c = 105 then format_integer qualifier (flags OR SIGN) 10 field_width precision rest args ob
         else if c = 117 then format_integer qualifier flags 10 field_width precision rest args ob
         else Some (rest, args, (if fmt \<noteq> [] then addch c else id) (addch 37 ob)))"

text \<open>Everything behind a \<open>%\<close>.\<close>

definition format_spec ::
  "bool \<Rightarrow> ptr \<Rightarrow> cstr \<Rightarrow> va_arg list \<Rightarrow> outbuf \<Rightarrow> (cstr \<times> va_arg list \<times> outbuf) option" where
  "format_spec ipv6 buf fmt0 args0 ob =
     (case format_flags 0 fmt0 of (flags0, fmt1) \<Rightarrow>
      case format_width flags0 fmt1 args0 of
        None \<Rightarrow> None
      | Some (field_width, flags, fmt2, args1) \<Rightarrow>
          case format_precision fmt2 args1 of
            None \<Rightarrow> None
          | Some (precision, fmt3, args2) \<Rightarrow>
              case format_qualifier fmt3 of (qualifier, fmt4) \<Rightarrow>
                format_conversion ipv6 buf qualifier flags field_width precision fmt4 args2 ob)"

lemma format_flags_shorter: "format_flags flags fmt = (flags1, fmt1) \<Longrightarrow> length fmt1 \<le> length fmt"
  by (induction flags fmt rule: format_flags.induct) (auto split: option.splits)

lemma skip_atoi_shorter: "length (snd (skip_atoi i s)) \<le> length s"
  by (induction i s rule: skip_atoi.induct) auto

lemma format_width_shorter:
  "format_width flags fmt args = Some (w, flags1, fmt1, args1) \<Longrightarrow> length fmt1 \<le> length fmt"
  using skip_atoi_shorter [of 0 fmt]
  by (auto simp: format_width_def split: if_splits prod.splits list.splits va_arg.splits)

lemma format_precision_shorter:
  "format_precision fmt args = Some (p, fmt1, args1) \<Longrightarrow> length fmt1 \<le> length fmt"
  using skip_atoi_shorter [of 0 "tl fmt"]
  by (auto simp: format_precision_def Let_def split: if_splits prod.splits list.splits va_arg.splits)

lemma format_qualifier_shorter: "format_qualifier fmt = (q, fmt1) \<Longrightarrow> length fmt1 \<le> length fmt"
  by (auto simp: format_qualifier_def Let_def split: if_splits)

lemma format_conversion_shorter:
  "format_conversion ipv6 buf q flags w p fmt args ob = Some (fmt1, args1, ob1) \<Longrightarrow> length fmt1 \<le> length fmt"
  using length_dropWhile_le [of isalnum "tl fmt"]
  by (auto simp: format_conversion_def format_integer_def Let_def split: if_splits list.splits va_arg.splits)

lemma format_spec_shorter:
  "format_spec ipv6 buf fmt args ob = Some (fmt1, args1, ob1) \<Longrightarrow> length fmt1 \<le> length fmt"
  by (auto simp: format_spec_def split: prod.splits option.splits
      dest!: format_conversion_shorter format_precision_shorter format_width_shorter format_flags_shorter
        format_qualifier_shorter)

section \<open>The functions\<close>

function vsnprintf_loop ::
  "bool \<Rightarrow> ptr \<Rightarrow> cstr \<Rightarrow> va_arg list \<Rightarrow> outbuf \<Rightarrow> outbuf option" where
  "vsnprintf_loop ipv6 buf [] args ob = Some ob"
| "vsnprintf_loop ipv6 buf (c # fmt) args ob =
     (if c \<noteq> 37 then vsnprintf_loop ipv6 buf fmt args (addch c ob)
      else case format_spec ipv6 buf fmt args ob of
        None \<Rightarrow> None
      | Some (fmt1, args1, ob1) \<Rightarrow> vsnprintf_loop ipv6 buf fmt1 args1 ob1)"
  by pat_completeness auto
termination
  by (relation "measure (\<lambda>(ipv6, buf, fmt, args, ob). length fmt)") (auto dest: format_spec_shorter)

text \<open>
  The length of the text and the memory afterwards. An end of the buffer behind the 32-bit address
  space is moved to its last address.
\<close>

definition vsnprintf_internal :: "bool \<Rightarrow> memory \<Rightarrow> ptr \<Rightarrow> nat \<Rightarrow> cstr \<Rightarrow> va_arg list \<Rightarrow> (int \<times> memory) option" where
  "vsnprintf_internal ipv6 m buf size0 fmt args =
     (let e = (if buf + size0 \<ge> 2 ^ 32 then 2 ^ 32 - 1 else buf + size0); sz = e - buf
      in map_option (\<lambda>ob.
           if sz > 0 then
             let ob1 = addch 0 ob;
                 m1 = (if ob_str ob1 > e then (ob_mem ob1)(e - 1 := 0) else ob_mem ob1)
             in (int (ob_str ob1 - 1) - int buf, m1)
           else (int (ob_str ob) - int buf, ob_mem ob))
         (vsnprintf_loop ipv6 buf fmt args \<lparr>ob_mem = m, ob_str = buf, ob_end = e\<rparr>))"

definition vsnprintf :: "bool \<Rightarrow> memory \<Rightarrow> ptr \<Rightarrow> nat \<Rightarrow> cstr \<Rightarrow> va_arg list \<Rightarrow> (int \<times> memory) option" where
  "vsnprintf ipv6 m buf sz fmt args = vsnprintf_internal ipv6 m buf sz fmt args"

definition vscnprintf :: "bool \<Rightarrow> memory \<Rightarrow> ptr \<Rightarrow> nat \<Rightarrow> cstr \<Rightarrow> va_arg list \<Rightarrow> (int \<times> memory) option" where
  "vscnprintf ipv6 m buf sz fmt args =
     map_option (\<lambda>(i, m1). (if i < int sz then i else if sz \<noteq> 0 then int sz - 1 else 0, m1))
       (vsnprintf ipv6 m buf sz fmt args)"

definition snprintf :: "bool \<Rightarrow> memory \<Rightarrow> ptr \<Rightarrow> nat \<Rightarrow> cstr \<Rightarrow> va_arg list \<Rightarrow> (int \<times> memory) option" where
  "snprintf ipv6 m buf sz fmt args = vsnprintf ipv6 m buf sz fmt args"

definition scnprintf :: "bool \<Rightarrow> memory \<Rightarrow> ptr \<Rightarrow> nat \<Rightarrow> cstr \<Rightarrow> va_arg list \<Rightarrow> (int \<times> memory) option" where
  "scnprintf ipv6 m buf sz fmt args = vscnprintf ipv6 m buf sz fmt args"

definition vsprintf :: "bool \<Rightarrow> memory \<Rightarrow> ptr \<Rightarrow> cstr \<Rightarrow> va_arg list \<Rightarrow> (int \<times> memory) option" where
  "vsprintf ipv6 m buf fmt args = vsnprintf_internal ipv6 m buf 0x7fffffff fmt args"

definition sprintf :: "bool \<Rightarrow> memory \<Rightarrow> ptr \<Rightarrow> cstr \<Rightarrow> va_arg list \<Rightarrow> (int \<times> memory) option" where
  "sprintf ipv6 m buf fmt args = vsprintf ipv6 m buf fmt args"

text \<open>
  \<open>vprintf\<close> with its buffer at \<open>buf\<close>, whose size is \<open>CONFIG_SYS_PBSIZE\<close>: the return value and the text
  that goes to \<open>puts\<close>, up to the terminator.
\<close>

primrec mem_text :: "nat \<Rightarrow> memory \<Rightarrow> ptr \<Rightarrow> cstr" where
  "mem_text 0 m p = []"
| "mem_text (Suc n) m p = (if m p = 0 then [] else m p # mem_text n m (p + 1))"

definition vprintf :: "bool \<Rightarrow> nat \<Rightarrow> memory \<Rightarrow> ptr \<Rightarrow> cstr \<Rightarrow> va_arg list \<Rightarrow> (int \<times> cstr) option" where
  "vprintf ipv6 pbsize m buf fmt args =
     map_option (\<lambda>(i, m1). if i = 0 then (0, []) else (i, mem_text pbsize m1 buf))
       (vscnprintf ipv6 m buf pbsize fmt args)"

definition printf :: "bool \<Rightarrow> nat \<Rightarrow> memory \<Rightarrow> ptr \<Rightarrow> cstr \<Rightarrow> va_arg list \<Rightarrow> (int \<times> cstr) option" where
  "printf ipv6 pbsize m buf fmt args = vprintf ipv6 pbsize m buf fmt args"

section \<open>Simple conversions\<close>

text \<open>The digits, each put in front of those before it.\<close>

function simple_itoa_loop :: "u32 \<Rightarrow> cstr \<Rightarrow> cstr" where
  "simple_itoa_loop i p =
     (let p1 = (48 + ucast (i mod 10)) # p in if i div 10 > 0 then simple_itoa_loop (i div 10) p1 else p1)"
  by pat_completeness auto
termination
  by (relation "measure (\<lambda>(i, p). unat i)")
    (auto simp: unat_div word_less_nat_alt Let_def intro!: div_less_dividend)

definition simple_itoa :: "u32 \<Rightarrow> cstr" where "simple_itoa i = simple_itoa_loop i []"

function simple_xtoa_loop :: "u32 \<Rightarrow> cstr \<Rightarrow> cstr" where
  "simple_xtoa_loop num p =
     (let p1 = hex_byte_pack (ucast (num AND 0xff)) @ p
      in if drop_bit 8 num > 0 then simple_xtoa_loop (drop_bit 8 num) p1 else p1)"
  by pat_completeness auto
termination
  by (relation "measure (\<lambda>(num, p). unat num)") (auto intro: unat_drop_bit_less)

definition simple_xtoa :: "u32 \<Rightarrow> cstr" where "simple_xtoa num = simple_xtoa_loop num []"

declare simple_itoa_loop.simps [simp del] simple_xtoa_loop.simps [simp del]

definition str2off :: "cstr \<Rightarrow> bool \<times> u64" where
  "str2off p = (case simple_strtoull p 16 of (num, endptr) \<Rightarrow> (p \<noteq> [] \<and> endptr = [], num))"

definition str2long :: "cstr \<Rightarrow> bool \<times> u32" where
  "str2long p = (case hextoul p of (num, endptr) \<Rightarrow> (p \<noteq> [] \<and> endptr = [], num))"

text \<open>The number of characters \<open>sprintf\<close> returns is where the second text goes.\<close>

definition DIV_ROUND_CLOSEST :: "u32 \<Rightarrow> u32 \<Rightarrow> u32" where
  "DIV_ROUND_CLOSEST x d = (x + d div 2) div d"

definition strmhz :: "bool \<Rightarrow> memory \<Rightarrow> ptr \<Rightarrow> u32 \<Rightarrow> memory option" where
  "strmhz ipv6 mem buf hz =
     (let n = DIV_ROUND_CLOSEST hz 1000 div 1000
      in Option.bind (sprintf ipv6 mem buf [37, 108, 100] [ArgInt n]) (\<lambda>(l, mem1).
           let m = DIV_ROUND_CLOSEST (hz - n * 1000000) 1000
           in if m \<noteq> 0 then map_option snd (sprintf ipv6 mem1 (nat (int buf + l)) [46, 37, 48, 51, 108, 100] [ArgInt m])
              else Some mem1))"

end
