(* ===== verification/Digits.thy ===== *)
theory Digits
  imports Vsprintf
begin

text \<open>
  Digits of numbers: what the conversions of \<open>lib/vsprintf.c\<close> write and those of \<open>lib/strto.c\<close> read, as
  lists of natural numbers. Both sides are compared with the same reference, \<open>digits_of\<close>.
\<close>

section \<open>The reference\<close>

text \<open>The digits of a number, the lowest first.\<close>

function digits_of :: "nat \<Rightarrow> nat \<Rightarrow> nat list" where
  "digits_of b n = n mod b # (if n div b = 0 \<or> b < 2 then [] else digits_of b (n div b))"
  by pat_completeness auto
termination
  by (relation "measure snd") (auto simp: div_greater_zero_iff intro!: div_less_dividend)

declare digits_of.simps [simp del]

definition digits_value :: "nat \<Rightarrow> nat list \<Rightarrow> nat" where
  "digits_value b ds = foldr (\<lambda>d v. v * b + d) ds 0"

lemma digits_value_simps [simp]:
  "digits_value b [] = 0" "digits_value b (d # ds) = digits_value b ds * b + d"
  by (simp_all add: digits_value_def)

lemma digits_value_digits_of: "2 \<le> b \<Longrightarrow> digits_value b (digits_of b n) = n"
proof (induction b n rule: digits_of.induct)
  case (1 b n)
  then show ?case
    by (subst digits_of.simps) (auto simp: div_eq_0_iff)
qed

lemma digits_of_less: "2 \<le> b \<Longrightarrow> d \<in> set (digits_of b n) \<Longrightarrow> d < b"
proof (induction b n rule: digits_of.induct)
  case (1 b n)
  from 1(3) show ?case
    by (subst (asm) digits_of.simps) (use 1(1,2) in \<open>auto split: if_splits\<close>)
qed

lemma digits_of_unfold: "digits_of b n = (if n < b \<or> b < 2 then [n mod b] else n mod b # digits_of b (n div b))"
  by (subst digits_of.simps) (auto simp: div_eq_0_iff)

lemma digits_of_small: "n < b \<Longrightarrow> digits_of b n = [n]"
  by (subst digits_of_unfold) simp

lemma digits_of_ne [simp]: "digits_of b n \<noteq> []"
  by (subst digits_of.simps) simp

text \<open>Only 0 has a leading digit 0.\<close>

lemma last_digit_pos: "2 \<le> b \<Longrightarrow> n > 0 \<Longrightarrow> last (digits_of b n) > 0"
proof (induction b n rule: digits_of.induct)
  case (1 b n)
  show ?case
  proof (cases "n < b")
    case False
    then have "n div b > 0" "n div b \<noteq> 0" using 1(2) by (auto simp: div_greater_zero_iff)
    then show ?thesis using 1 False by (subst digits_of_unfold) auto
  qed (use 1 in \<open>simp add: digits_of_small\<close>)
qed

text \<open>Splitting off the five lowest digits.\<close>

lemma digits_of_append:
  "2 \<le> b \<Longrightarrow> n \<ge> b ^ k \<Longrightarrow>
   digits_of b n = map (\<lambda>i. n div b ^ i mod b) [0..<k] @ digits_of b (n div b ^ k)"
proof (induction k)
  case (Suc k)
  have "b ^ k \<le> b ^ Suc k" using Suc.prems(1) by (intro power_increasing) auto
  then have "b ^ k \<le> n" using Suc.prems(2) by (rule order_trans)
  then have "digits_of b n = map (\<lambda>i. n div b ^ i mod b) [0..<k] @ digits_of b (n div b ^ k)"
    using Suc by simp
  moreover have "\<not> n div b ^ k < b" using Suc.prems
    by (simp add: not_less less_eq_div_iff_mult_less_eq mult.commute)
  then have "digits_of b (n div b ^ k) = n div b ^ k mod b # digits_of b (n div b ^ Suc k)"
    using Suc.prems(1) by (subst digits_of_unfold) (auto simp: div_mult2_eq [symmetric] mult.commute)
  ultimately show ?case by simp
qed simp

section \<open>Decimal digits without division\<close>

text \<open>The digits of the quotients of 16, with 16, 256 and 4096 written as 6 + 10, 6 + 50 + 200 and 6 + 90 + 4000.\<close>

lemma drop_bit_word_of_nat:
  "n < 2 ^ LENGTH('a) \<Longrightarrow> drop_bit k (word_of_nat n :: 'a::len word) = word_of_nat (n div 2 ^ k)"
  by (rule word_unat_eq_iff [THEN iffD2])
    (simp add: unat_drop_bit_eq unat_of_nat drop_bit_eq_div [where 'a = nat] le_less_trans [OF div_le_dividend])

lemma and_15_word_of_nat: "(word_of_nat n :: u32) AND 15 = word_of_nat (n mod 16)"
proof -
  have "n mod 4294967296 AND 15 = take_bit 4 (n mod 4294967296)" by (simp add: take_bit_eq_mask mask_eq_exp_minus_1)
  also have "\<dots> = n mod 16" by (simp add: take_bit_eq_mod mod_mod_cancel)
  finally show ?thesis by (intro word_unat_eq_iff [THEN iffD2]) (simp add: unat_of_nat unsigned_and_eq)
qed


lemma div_10_trick: "n < 1000 \<Longrightarrow> n * 205 div 2048 = n div (10::nat)"
proof -
  assume "n < 1000"
  then have "n div 10 < 100" "n mod 10 < 10" by auto
  then have "2 * (n div 10) + 205 * (n mod 10) < 2048" by linarith
  moreover have "n * 205 = 2048 * (n div 10) + (2 * (n div 10) + 205 * (n mod 10))"
    using div_mult_mod_eq [of n 10] by linarith
  ultimately show ?thesis by simp
qed

lemma div_10_trick_small: "n < 64 \<Longrightarrow> n * 13 div 128 = n div (10::nat)"
proof -
  assume "n < 64"
  then have "n mod 10 \<le> 9" "10 * (n div 10) + n mod 10 \<le> 63" by auto
  then have "2 * (n div 10) + 13 * (n mod 10) < 128" by linarith
  moreover have "n * 13 = 128 * (n div 10) + (2 * (n div 10) + 13 * (n mod 10))"
    using div_mult_mod_eq [of n 10] by linarith
  ultimately show ?thesis by simp
qed


text \<open>The intermediate values of the conversion.\<close>

definition dec_e0 :: "nat \<Rightarrow> nat" where
  "dec_e0 n = 6 * (n div 4096 + n div 256 mod 16 + n div 16 mod 16) + n mod 16"
definition dec_e1 :: "nat \<Rightarrow> nat" where
  "dec_e1 n = dec_e0 n div 10 + 9 * (n div 4096) + 5 * (n div 256 mod 16) + n div 16 mod 16"
definition dec_e2 :: "nat \<Rightarrow> nat" where
  "dec_e2 n = dec_e1 n div 10 + 2 * (n div 256 mod 16)"
definition dec_e3 :: "nat \<Rightarrow> nat" where
  "dec_e3 n = dec_e2 n div 10 + 4 * (n div 4096)"

lemmas dec_defs = dec_e0_def dec_e1_def dec_e2_def dec_e3_def

lemma dec_bounds:
  assumes "n < 100000"
  shows "dec_e0 n < 1000" "dec_e1 n < 1000" "dec_e2 n < 64" "dec_e3 n < 1000"
proof -
  have b: "n div 4096 \<le> 24" "n div 256 mod 16 \<le> 15" "n div 16 mod 16 \<le> 15" "n mod 16 \<le> 15" using assms by auto
  then have 0: "dec_e0 n \<le> 339" by (simp add: dec_e0_def)
  then have "dec_e0 n div 10 \<le> 33" by auto
  then have 1: "dec_e1 n \<le> 339" using b by (simp add: dec_e1_def)
  then have "dec_e1 n div 10 \<le> 33" by auto
  then have 2: "dec_e2 n \<le> 63" using b by (simp add: dec_e2_def)
  then have "dec_e2 n div 10 \<le> 6" by auto
  then have 3: "dec_e3 n \<le> 102" using b by (simp add: dec_e3_def)
  show "dec_e0 n < 1000" "dec_e1 n < 1000" "dec_e2 n < 64" "dec_e3 n < 1000" using 0 1 2 3 by auto
qed

lemma dec_sum_linear:
  fixes n a b c r :: nat
  assumes "n = 16 * x + r" "x = 16 * y + c" "y = 16 * a + b" "e0 = 6 * (a + b + c) + r" "e0 = 10 * q0 + m0"
    "e1 = q0 + 9 * a + 5 * b + c" "e1 = 10 * q1 + m1" "e2 = q1 + 2 * b" "e2 = 10 * q2 + m2" "e3 = q2 + 4 * a"
  shows "n = m0 + 10 * m1 + 100 * m2 + 1000 * e3"
proof -
  have "n = e0 + 10 * (9 * a + 5 * b + c) + 200 * b + 4000 * a" using assms(1-4) by simp
  also have "\<dots> = m0 + 10 * e1 + 200 * b + 4000 * a" using assms(5,6) by simp
  also have "\<dots> = m0 + 10 * m1 + 100 * e2 + 4000 * a" using assms(7,8) by simp
  finally show ?thesis using assms(9,10) by simp
qed

lemma dec_sum:
  "n = dec_e0 n mod 10 + 10 * (dec_e1 n mod 10) + 100 * (dec_e2 n mod 10) + 1000 * dec_e3 n"
proof (rule dec_sum_linear)
  show "n = 16 * (n div 16) + n mod 16" "n div 16 = 16 * (n div 256) + n div 16 mod 16"
    "n div 256 = 16 * (n div 4096) + n div 256 mod 16"
    using mult_div_mod_eq [of 16 n] mult_div_mod_eq [of 16 "n div 16"] mult_div_mod_eq [of 16 "n div 256"]
    by (simp_all add: div_mult2_eq [symmetric] del: mult_div_mod_eq)
  show "dec_e0 n = 10 * (dec_e0 n div 10) + dec_e0 n mod 10" "dec_e1 n = 10 * (dec_e1 n div 10) + dec_e1 n mod 10"
    "dec_e2 n = 10 * (dec_e2 n div 10) + dec_e2 n mod 10"
    by (simp_all only: mult_div_mod_eq)
qed (rule dec_defs)+

definition dec_char :: "nat \<Rightarrow> u8" where "dec_char d = word_of_nat d + 48"

lemma ucast_word_of_nat: "n < 256 \<Longrightarrow> ucast (word_of_nat n :: u32) = (word_of_nat n :: u8)"
  by (rule word_unat_eq_iff [THEN iffD2]) (simp add: unsigned_ucast_eq unat_of_nat take_bit_nat_eq_self)

lemma word_sub_mod_10: "(word_of_nat d :: u32) - 10 * word_of_nat (d div 10) = word_of_nat (d mod 10)"
proof -
  have "(word_of_nat d :: u32) = word_of_nat (10 * (d div 10) + d mod 10)" by (simp only: mult_div_mod_eq)
  also have "\<dots> = 10 * word_of_nat (d div 10) + word_of_nat (d mod 10)"
    by (simp only: of_nat_add of_nat_mult of_nat_numeral)
  finally show ?thesis by simp
qed

lemma ucast_digit: "ucast (word_of_nat (d mod 10) :: u32) + 48 = dec_char (d mod 10)"
proof -
  have "d mod 10 < 256" by (rule less_trans [of _ 10]) auto
  then show ?thesis by (simp add: ucast_word_of_nat dec_char_def)
qed

lemma dec_words:
  assumes n: "n < 100000"
  defines "q \<equiv> word_of_nat n :: u32"
  shows "drop_bit 4 q AND 0xf = word_of_nat (n div 16 mod 16)"
    "drop_bit 8 q AND 0xf = word_of_nat (n div 256 mod 16)"
    "drop_bit 12 q = word_of_nat (n div 4096)" "q AND 0xf = word_of_nat (n mod 16)"
  using n by (simp_all add: q_def drop_bit_word_of_nat and_15_word_of_nat)

lemma drop_bit_trick: "d < 1000 \<Longrightarrow> drop_bit 11 (word_of_nat d * 0xcd :: u32) = word_of_nat (d div 10)"
  using drop_bit_word_of_nat [of "d * 205" 11, where 'a = 32] by (simp add: div_10_trick)

lemma drop_bit_trick_small: "d < 64 \<Longrightarrow> drop_bit 7 (word_of_nat d * 0xd :: u32) = word_of_nat (d div 10)"
  using drop_bit_word_of_nat [of "d * 13" 7, where 'a = 32] by (simp add: div_10_trick_small)

lemma dec_steps:
  assumes n: "n < 100000"
  defines "q \<equiv> word_of_nat n :: u32"
  shows "6 * (drop_bit 12 q + (drop_bit 8 q AND 0xf) + (drop_bit 4 q AND 0xf)) + (q AND 0xf) = word_of_nat (dec_e0 n)"
    "word_of_nat (dec_e0 n div 10) + 9 * drop_bit 12 q + 5 * (drop_bit 8 q AND 0xf) + (drop_bit 4 q AND 0xf) =
       word_of_nat (dec_e1 n)"
    "word_of_nat (dec_e1 n div 10) + 2 * (drop_bit 8 q AND 0xf) = word_of_nat (dec_e2 n)"
    "word_of_nat (dec_e2 n div 10) + 4 * drop_bit 12 q = word_of_nat (dec_e3 n)"
  unfolding q_def dec_words [OF n] dec_defs by (simp_all only: of_nat_add of_nat_mult of_nat_numeral)

lemma put_dec_full_digits:
  assumes n: "n < 100000"
  shows "put_dec_full (word_of_nat n) =
    map dec_char [dec_e0 n mod 10, dec_e1 n mod 10, dec_e2 n mod 10, dec_e3 n mod 10, dec_e3 n div 10]"
proof -
  have "dec_e3 n div 10 < 256" using dec_bounds [OF n] by auto
  then show ?thesis
    using dec_bounds [OF n]
    by (simp only: put_dec_full_def Let_def dec_steps [OF n] drop_bit_trick drop_bit_trick_small word_sub_mod_10
        ucast_digit list.map ucast_word_of_nat dec_char_def)
qed

lemma dec_places:
  "dec_e0 n mod 10 = n mod 10" "dec_e1 n mod 10 = n div 10 mod 10" "dec_e2 n mod 10 = n div 100 mod 10"
  "dec_e3 n = n div 1000"
proof -
  have *: "(a + 10 * b + 100 * c + 1000 * d) mod 10 = a \<and> (a + 10 * b + 100 * c + 1000 * d) div 10 mod 10 = b \<and>
      (a + 10 * b + 100 * c + 1000 * d) div 100 mod 10 = c \<and> (a + 10 * b + 100 * c + 1000 * d) div 1000 = d"
    if "a < 10" "b < 10" "c < 10" for a b c d :: nat
  proof -
    let ?n = "a + 10 * (b + 10 * (c + 10 * d))"
    have low: "(x + 10 * y) mod 10 = x" "(x + 10 * y) div 10 = y" if "x < 10" for x y :: nat using that by simp_all
    have "?n div 100 = ?n div 10 div 10" "?n div 1000 = ?n div 10 div 10 div 10"
      using div_mult2_eq [of ?n 10 10] div_mult2_eq [of ?n 100 10] by (simp_all del: distrib_left)
    moreover have "a + 10 * b + 100 * c + 1000 * d = ?n" by simp
    ultimately show ?thesis by (simp only: low that)
  qed
  show "dec_e0 n mod 10 = n mod 10" "dec_e1 n mod 10 = n div 10 mod 10" "dec_e2 n mod 10 = n div 100 mod 10"
    "dec_e3 n = n div 1000"
    using * [of "dec_e0 n mod 10" "dec_e1 n mod 10" "dec_e2 n mod 10" "dec_e3 n"] dec_sum [of n] by simp_all
qed

lemma dec_zero:
  "dec_e1 n = 0 \<longleftrightarrow> n < 10" "dec_e2 n = 0 \<and> n div 4096 = 0 \<longleftrightarrow> n < 100" "dec_e3 n = 0 \<longleftrightarrow> n < 1000"
proof -
  have sum: "n = n mod 10 + 10 * (dec_e1 n mod 10) + 100 * (dec_e2 n mod 10) + 1000 * dec_e3 n"
    using dec_sum [of n] by (simp only: dec_places(1))
  have m: "n mod 10 < 10" "dec_e1 n mod 10 < 10" by simp_all
  have 2: "dec_e2 n = 0" "n div 4096 = 0" if "n < 100"
  proof -
    have "dec_e3 n = 0" "dec_e2 n mod 10 = 0" using that by (simp_all add: dec_places)
    then show "dec_e2 n = 0" "n div 4096 = 0"
      using mult_div_mod_eq [of 10 "dec_e2 n"] by (auto simp: dec_e3_def)
  qed
  show "dec_e2 n = 0 \<and> n div 4096 = 0 \<longleftrightarrow> n < 100"
    using sum m 2 by (auto simp: dec_e3_def)
  show "dec_e3 n = 0 \<longleftrightarrow> n < 1000" by (simp add: dec_places div_eq_0_iff)
  show "dec_e1 n = 0 \<longleftrightarrow> n < 10"
  proof
    assume "dec_e1 n = 0"
    then have "dec_e2 n = 0" "n div 4096 = 0" by (simp_all only: dec_e1_def dec_e2_def add_is_0 mult_is_0 div_0) auto
    then show "n < 10" using sum m \<open>dec_e1 n = 0\<close> by (auto simp: dec_e3_def)
  next
    assume "n < 10"
    then have "dec_e2 n = 0" "dec_e1 n mod 10 = 0" using 2 by (simp_all add: dec_places)
    then show "dec_e1 n = 0" using mult_div_mod_eq [of 10 "dec_e1 n"] by (auto simp: dec_e2_def)
  qed
qed

lemma word_of_nat_eq_0_small: "n < 100000 \<Longrightarrow> (word_of_nat n :: u32) = 0 \<longleftrightarrow> n = 0"
  by (auto simp: word_of_nat_eq_0_iff dest: dvd_imp_le)

lemma put_dec_trunc_nat:
  assumes n: "n < 100000"
  shows "put_dec_trunc (word_of_nat n) = map dec_char (dec_e0 n mod 10 #
    (if dec_e1 n \<noteq> 0 then dec_e1 n mod 10 #
       (if dec_e2 n \<noteq> 0 \<or> n div 4096 \<noteq> 0 then dec_e2 n mod 10 #
          (if dec_e3 n \<noteq> 0 then dec_e3 n mod 10 # (if dec_e3 n div 10 \<noteq> 0 then [dec_e3 n div 10] else []) else [])
        else [])
     else []))"
proof -
  have "dec_e3 n div 10 < 256" "dec_e1 n < 100000" "dec_e2 n < 100000" "dec_e3 n < 100000"
    "dec_e3 n div 10 < 100000" "n div 4096 < 100000"
    using dec_bounds [OF n] n by auto
  then show ?thesis
    using dec_bounds [OF n]
    by (simp only: put_dec_trunc_def Let_def dec_steps [OF n] drop_bit_trick drop_bit_trick_small word_sub_mod_10
        ucast_digit word_of_nat_eq_0_small) (simp only: dec_words(3) [OF n] list.map ucast_word_of_nat
        word_of_nat_eq_0_small if_distrib [of "map dec_char"] dec_char_def)
qed

lemma put_dec_trunc_digits: "n < 100000 \<Longrightarrow> put_dec_trunc (word_of_nat n) = map dec_char (digits_of 10 n)"
proof -
  assume n: "n < 100000"
  have d: "n div 10 div 10 = n div 100" "n div 100 div 10 = n div 1000" "n div 1000 div 10 = n div 10000"
    by (simp_all add: div_mult2_eq [symmetric])
  have "dec_e2 n \<noteq> 0 \<or> n div 4096 \<noteq> 0 \<longleftrightarrow> \<not> n < 100" by (simp only: de_Morgan_conj [symmetric] dec_zero(2))
  then have "put_dec_trunc (word_of_nat n) = map dec_char (n mod 10 #
    (if \<not> n < 10 then n div 10 mod 10 #
       (if \<not> n < 100 then n div 100 mod 10 #
          (if \<not> n < 1000 then n div 1000 mod 10 # (if \<not> n < 10000 then [n div 10000] else []) else [])
        else [])
     else []))"
    using d(3) by (simp only: put_dec_trunc_nat [OF n] dec_zero(1,3) dec_places) (simp add: div_eq_0_iff)
  moreover have "digits_of 10 n = n mod 10 #
    (if \<not> n < 10 then n div 10 mod 10 #
       (if \<not> n < 100 then n div 100 mod 10 #
          (if \<not> n < 1000 then n div 1000 mod 10 # (if \<not> n < 10000 then [n div 10000] else []) else [])
        else [])
     else [])"
    using n
    by (subst digits_of_unfold, subst digits_of_unfold, subst digits_of_unfold, subst digits_of_unfold)
      (auto simp: d digits_of_small div_less_iff_less_mult)
  ultimately show ?thesis by simp
qed

lemma five_digits:
  assumes "n < (100000::nat)"
  shows "[n mod 10, n div 10 mod 10, n div 100 mod 10, n div 1000 mod 10, n div 1000 div 10] =
    map (\<lambda>i. n div 10 ^ i mod 10) [0..<5]"
proof -
  have "n div 10000 < 10" using assms by (simp add: div_less_iff_less_mult)
  moreover have "[0..<5] = [0, 1, 2, 3, 4]" by (simp add: upt_rec)
  ultimately show ?thesis by (simp add: div_mult2_eq [symmetric])
qed

lemma mod_power_digit: "i < k \<Longrightarrow> n mod b ^ k div b ^ i mod b = n div b ^ i mod (b::nat)"
proof -
  assume "i < k"
  then obtain j where j: "k = Suc i + j" using less_imp_Suc_add by force
  show ?thesis
  proof (cases "b = 0")
    case False
    have "n mod b ^ k = n mod (b ^ i * (b * b ^ j))" by (simp add: j power_add mult.assoc mult.left_commute)
    also have "\<dots> = b ^ i * (n div b ^ i mod (b * b ^ j)) + n mod b ^ i" by (rule mod_mult2_eq)
    finally have "n mod b ^ k div b ^ i = n div b ^ i mod (b * b ^ j)" using False by (simp add: div_mult_self4)
    then show ?thesis by (simp add: mod_mod_cancel)
  qed (simp add: j)
qed

lemma put_dec_digits: "put_dec num = map dec_char (digits_of 10 (unat num))"
proof (induction num rule: put_dec.induct)
  case (1 num)
  let ?n = "unat num"
  show ?case
  proof (cases "num < 100000")
    case True
    then have "?n < 100000" by (simp add: word_less_nat_alt)
    then show ?thesis
      using True put_dec_trunc_digits [of ?n] by (subst put_dec.simps) simp
  next
    case False
    have ge: "10 ^ 5 \<le> ?n" using False by (simp add: word_less_nat_alt)
    have m: "?n mod 100000 < 100000" by simp
    have u: "ucast (num mod 100000) = (word_of_nat (?n mod 100000) :: u32)"
      using of_nat_unat [of "num mod 100000", where 'a = "u32"] by (simp add: unat_mod)
    have "put_dec_full (ucast (num mod 100000)) = map dec_char (map (\<lambda>i. ?n mod 10 ^ 5 div 10 ^ i mod 10) [0..<5])"
      unfolding u put_dec_full_digits [OF m] dec_places five_digits [OF m] by simp
    moreover have "map (\<lambda>i. ?n mod 10 ^ 5 div 10 ^ i mod 10) [0..<5] = map (\<lambda>i. ?n div 10 ^ i mod 10) [0..<5]"
      by (intro map_cong refl mod_power_digit) simp
    moreover have "put_dec (num div 100000) = map dec_char (digits_of 10 (?n div 10 ^ 5))"
      using 1 False by (simp add: unat_div)
    moreover have "put_dec num = put_dec_full (ucast (num mod 100000)) @ put_dec (num div 100000)"
      using False by (subst put_dec.simps) simp
    ultimately show ?thesis using digits_of_append [of 10 5 ?n] ge by (simp only: map_append)
  qed
qed

section \<open>Digits of any base\<close>

definition digit_char :: "u8 \<Rightarrow> nat \<Rightarrow> u8" where "digit_char locase d = number_digits ! d OR locase"

lemma unat_masked:
  "k \<le> 8 \<Longrightarrow> unat (ucast (ucast (num :: u64) :: u8) AND (mask k :: u64)) = unat num mod 2 ^ k"
proof -
  assume k: "k \<le> 8"
  have "unat (ucast (ucast num :: u8) AND (mask k :: u64)) = take_bit k (unat (ucast num :: u8))"
    by (simp add: take_bit_eq_mask [symmetric] unsigned_take_bit_eq unsigned_ucast_eq take_bit_take_bit min_def)
  also have "\<dots> = unat num mod 2 ^ 8 mod 2 ^ k" by (simp add: unat_ucast_mod take_bit_eq_mod)
  also have "\<dots> = unat num mod 2 ^ k" using k by (intro mod_mod_cancel le_imp_power_dvd)
  finally show ?thesis .
qed

lemma number_loop_digits:
  "k \<noteq> 0 \<Longrightarrow> k \<le> 8 \<Longrightarrow>
   number_loop (mask k) k locase num = map (digit_char locase) (digits_of (2 ^ k) (unat num))"
proof (induction "unat num" arbitrary: num rule: less_induct)
  case less
  have k: "\<not> (2::nat) ^ k < 2" using less.prems power_increasing [of 1 k "2::nat"] by simp
  have d: "unat (drop_bit k num) = unat num div 2 ^ k" by (simp add: unat_drop_bit_eq drop_bit_eq_div [where 'a = nat])
  then have z: "drop_bit k num = 0 \<longleftrightarrow> unat num div 2 ^ k = 0" by (metis unat_eq_zero)
  show ?case
  proof (cases "drop_bit k num = 0")
    case True
    then show ?thesis using z less.prems
      by (subst number_loop.simps, subst digits_of.simps) (simp add: unat_masked digit_char_def)
  next
    case False
    then have "number_loop (mask k) k locase (drop_bit k num) = map (digit_char locase) (digits_of (2 ^ k) (unat num div 2 ^ k))"
      using less d unat_drop_bit_less [of k num] by simp
    then show ?thesis using False z k less.prems
      by (subst number_loop.simps, subst digits_of.simps) (simp add: unat_masked digit_char_def)
  qed
qed

lemma dec_char_eq: "d < 10 \<Longrightarrow> locase \<in> {0, 32} \<Longrightarrow> dec_char d = digit_char locase d"
proof -
  have "list_all (\<lambda>d. dec_char d = digit_char 0 d \<and> dec_char d = digit_char 32 d) [0..<10]" by code_simp
  then have "\<forall>d\<in>{0..<10}. dec_char d = digit_char 0 d \<and> dec_char d = digit_char 32 d" by (simp only: list_all_iff set_upt)
  moreover assume "d < 10" "locase \<in> {0, 32}"
  ultimately have "dec_char d = digit_char 0 d" "dec_char d = digit_char 32 d" by (blast intro: atLeastLessThan_iff [THEN iffD2])+
  with \<open>locase \<in> {0, 32}\<close> show ?thesis by (elim insertE emptyE) simp_all
qed

lemma number_tmp_digits:
  assumes "base \<in> {8, 10, 16}" "locase \<in> {0, 32}"
  shows "number_tmp num base locase = map (digit_char locase) (digits_of (nat base) (unat num))"
proof (cases "num = 0")
  case True
  moreover have "digit_char locase 0 = 48" using assms(2) dec_char_eq [of 0 locase] by (simp add: dec_char_def)
  ultimately show ?thesis using assms(1) by (auto simp: number_tmp_def digits_of_small)
next
  case False
  consider "base = 8" | "base = 16" | "base = 10" using assms(1) by auto
  then show ?thesis
  proof cases
    case 1
    then show ?thesis using False number_loop_digits [of 3 locase num] by (simp add: number_tmp_def mask_eq_exp_minus_1)
  next
    case 2
    then show ?thesis using False number_loop_digits [of 4 locase num] by (simp add: number_tmp_def mask_eq_exp_minus_1)
  next
    case 3
    moreover have "map dec_char (digits_of 10 (unat num)) = map (digit_char locase) (digits_of 10 (unat num))"
      using assms(2) by (intro map_cong refl dec_char_eq digits_of_less [of 10]) auto
    ultimately show ?thesis using False by (simp add: number_tmp_def put_dec_digits)
  qed
qed

section \<open>Reading digits\<close>

lemma decode_digit_char:
  assumes "d < 16" "locase \<in> {0, 32}"
  shows "decode_digit (digit_char locase d) = word_of_nat d" "tolower (digit_char locase d) \<noteq> 120"
proof -
  have "list_all (\<lambda>d. decode_digit (digit_char 0 d) = word_of_nat d \<and> decode_digit (digit_char 32 d) = word_of_nat d \<and>
      tolower (digit_char 0 d) \<noteq> 120 \<and> tolower (digit_char 32 d) \<noteq> 120) [0..<16]" by code_simp
  then show "decode_digit (digit_char locase d) = word_of_nat d" "tolower (digit_char locase d) \<noteq> 120"
    using assms by (auto simp: list_all_iff)
qed

lemma strtoul_loop_digits:
  assumes "\<forall>d\<in>set ds. d < b" "b \<le> 16" "locase \<in> {0, 32}"
  shows "strtoul_loop (word_of_nat b) (map (digit_char locase) ds) (word_of_nat v :: 'a::len word) =
    (word_of_nat (foldl (\<lambda>v d. v * b + d) v ds), [])"
  using assms(1)
proof (induction ds arbitrary: v)
  case (Cons d ds)
  then have d: "d < b" "d < 16" using assms(2) by auto
  have "unat (word_of_nat d :: u32) = d" "unat (word_of_nat b :: u32) = b" using d assms(2) by (simp_all add: unat_of_nat)
  then have lt: "(word_of_nat d :: u32) < word_of_nat b"
    and uc: "ucast (word_of_nat d :: u32) = (word_of_nat d :: 'a word)" "ucast (word_of_nat b :: u32) = (word_of_nat b :: 'a word)"
    using d of_nat_unat [of "word_of_nat d :: u32", where 'a = "'a word"] of_nat_unat [of "word_of_nat b :: u32", where 'a = "'a word"]
    by (simp_all add: word_less_nat_alt)
  show ?case
    using Cons.IH [of "v * b + d"] Cons.prems
    by (simp add: decode_digit_char(1) [OF d(2) assms(3)] lt uc)
qed simp

lemma foldl_rev_digits: "foldl (\<lambda>v d. v * b + d) 0 (rev ds) = digits_value b ds"
  by (simp add: digits_value_def foldl_conv_foldr)

lemma fixup_radix_digits:
  assumes "\<forall>d\<in>set ds. d < 16" "locase \<in> {0, 32}" "b \<noteq> 0"
  shows "parse_integer_fixup_radix (map (digit_char locase) ds) b = (map (digit_char locase) ds, b)"
proof -
  have "tolower (char_at (map (digit_char locase) ds) 1) \<noteq> 120"
  proof (cases "1 < length ds")
    case True
    then show ?thesis using assms decode_digit_char(2) [of "ds ! 1" locase] by (simp add: char_at_def)
  next
    case False
    have "tolower 0 \<noteq> (120 :: u8)" by code_simp
    then show ?thesis using False by (simp add: char_at_def)
  qed
  then show ?thesis using assms(3) by (simp add: parse_integer_fixup_radix_def)
qed

text \<open>The two widths of the numbers read.\<close>

lemma strtoul_digits:
  assumes "b \<in> {8, 10, 16}" "locase \<in> {0, 32}"
  shows "simple_strtoul (map (digit_char locase) (rev (digits_of b n))) (word_of_nat b) = (word_of_nat n, [])"
    "simple_strtoull (map (digit_char locase) (rev (digits_of b n))) (word_of_nat b) = (word_of_nat n, [])"
proof -
  have b: "2 \<le> b" "b \<le> 16" "(word_of_nat b :: u32) \<noteq> 0" using assms(1) by auto
  have less: "\<forall>d\<in>set (rev (digits_of b n)). d < b" using digits_of_less [OF b(1)] by auto
  then have "\<forall>d\<in>set (rev (digits_of b n)). d < 16" using b(2) by auto
  note radix = fixup_radix_digits [OF this assms(2) b(3)]
  note loop = strtoul_loop_digits [OF less b(2) assms(2), of 0]
  show "simple_strtoul (map (digit_char locase) (rev (digits_of b n))) (word_of_nat b) = (word_of_nat n, [])"
    using loop b(1) by (simp add: simple_strtoul_def radix foldl_rev_digits digits_value_digits_of)
  show "simple_strtoull (map (digit_char locase) (rev (digits_of b n))) (word_of_nat b) = (word_of_nat n, [])"
    using loop b(1) by (simp add: simple_strtoull_def radix foldl_rev_digits digits_value_digits_of)
qed

lemma simple_itoa_loop_digits: "simple_itoa_loop i p = rev (map dec_char (digits_of 10 (unat i))) @ p"
proof (induction i p rule: simple_itoa_loop.induct)
  case (1 i p)
  have d: "unat (i div 10) = unat i div 10" "unat (i mod 10) = unat i mod 10" by (simp_all add: unat_div unat_mod)
  then have z: "i div 10 > 0 \<longleftrightarrow> unat i div 10 \<noteq> 0" by (simp only: word_less_nat_alt) simp
  have "ucast (i mod 10) = (word_of_nat (unat i mod 10) :: u8)"
    using of_nat_unat [of "i mod 10", where 'a = u8] by (simp add: d)
  then have c: "48 + ucast (i mod 10) = dec_char (unat i mod 10)" by (simp add: dec_char_def)
  show ?case
    using 1 by (subst simple_itoa_loop.simps, subst digits_of.simps) (simp add: z c d Let_def)
qed

lemma simple_itoa_digits: "simple_itoa i = map (digit_char 0) (rev (digits_of 10 (unat i)))"
proof -
  have "map dec_char (rev (digits_of 10 (unat i))) = map (digit_char 0) (rev (digits_of 10 (unat i)))"
    by (intro map_cong refl dec_char_eq digits_of_less [of 10]) auto
  then show ?thesis by (simp add: simple_itoa_def simple_itoa_loop_digits rev_map)
qed

end
