(* ===== verification/Vsprintf_Props.thy ===== *)
theory Vsprintf_Props
  imports Digits
begin

text \<open>
  What formatted output does: every conversion adds a text to the output that does not depend on the
  buffer, the output of \<open>vsnprintf\<close> is the beginning of that text and stays in the buffer, and numbers
  that are printed are read back.
\<close>

section \<open>Adding text\<close>

lemma addch_str_end [simp]: "ob_str (addch c ob) = Suc (ob_str ob)" "ob_end (addch c ob) = ob_end ob"
  by (simp_all add: addch_def Let_def)

lemma addch_mem: "ob_mem (addch c ob) = (if ob_str ob < ob_end ob then (ob_mem ob)(ob_str ob := c) else ob_mem ob)"
  by (simp add: addch_def Let_def)

lemma fold_addch_str_end [simp]:
  "ob_str (fold addch t ob) = ob_str ob + length t" "ob_end (fold addch t ob) = ob_end ob"
  by (induction t arbitrary: ob) simp_all

lemma pad_loop_eq: "pad_loop n c ob = (min (n - 1) (- 1), fold addch (replicate (nat n) c) ob)"
proof (induction n c ob rule: pad_loop.induct)
  case (1 n c ob)
  show ?case
  proof (cases "n - 1 \<ge> 0")
    case True
    then have "nat n = Suc (nat (n - 1))" by linarith
    then show ?thesis using 1 True by (subst pad_loop.simps) simp
  qed (subst pad_loop.simps, simp)
qed


lemma zeros_loop_eq: "zeros_loop i p ob = fold addch (replicate (nat (p - i)) 48) ob"
proof (induction i p ob rule: zeros_loop.induct)
  case (1 i p ob)
  show ?case
  proof (cases "i \<le> p - 1")
    case True
    then have "nat (p - i) = Suc (nat (p - 1 - i))" by linarith
    then show ?thesis using 1 True by (subst zeros_loop.simps) simp
  qed (subst zeros_loop.simps, simp)
qed

lemma fold_addch_append: "fold addch t (fold addch s ob) = fold addch (s @ t) ob"
  by simp

section \<open>The text of a conversion\<close>

definition number_text :: "u64 \<Rightarrow> int \<Rightarrow> int \<Rightarrow> int \<Rightarrow> int \<Rightarrow> u8 list" where
  "number_text num0 base size0 precision0 type0 =
     (let need_pfx = (type0 AND SPECIAL \<noteq> 0 \<and> base \<noteq> 10);
          locase = word_of_int (type0 AND SMALL);
          type = (if type0 AND LEFT \<noteq> 0 then type0 AND NOT ZEROPAD else type0);
          sign = fst (number_sign num0 type);
          tmp = number_tmp (snd (number_sign num0 type)) base locase;
          front = (if sign \<noteq> 0 then [sign] else []) @
                  (if need_pfx then if base = 16 then [48, 88 OR locase] else [48] else []);
          digits = replicate (nat precision0 - length tmp) 48 @ rev tmp;
          fill = nat size0 - (length front + length digits)
      in if type AND LEFT \<noteq> 0 then front @ digits @ replicate fill 32
         else if type AND ZEROPAD \<noteq> 0 then front @ replicate fill 48 @ digits
         else replicate fill 32 @ front @ digits)"

lemma and_ZEROPAD_LEFT: "x AND (ZEROPAD + LEFT) = 0 \<longleftrightarrow> x AND ZEROPAD = 0 \<and> x AND LEFT = 0"
proof -
  have "ZEROPAD + LEFT = ZEROPAD OR LEFT" by (simp add: ZEROPAD_def LEFT_def)
  then show ?thesis by (simp add: bit.conj_disj_distrib or_eq_0_iff)
qed

lemma nat_min_neg [simp]: "nat (min a (- 1)) = 0"
  by simp

lemma number_eq: "number num0 base size0 precision0 type0 ob = fold addch (number_text num0 base size0 precision0 type0) ob"
proof -
  define need_pfx where "need_pfx \<longleftrightarrow> type0 AND SPECIAL \<noteq> 0 \<and> base \<noteq> 10"
  define locase :: u8 where "locase = word_of_int (type0 AND SMALL)"
  define type where "type = (if type0 AND LEFT \<noteq> 0 then type0 AND NOT ZEROPAD else type0)"
  define sign where "sign = fst (number_sign num0 type)"
  define tmp where "tmp = number_tmp (snd (number_sign num0 type)) base locase"
  define front where "front = (if sign \<noteq> 0 then [sign] else []) @
    (if need_pfx then if base = 16 then [48, 88 OR locase] else [48] else [])"
  define digits where "digits = replicate (nat precision0 - length tmp) 48 @ rev tmp"
  define fill where "fill = nat size0 - (length front + length digits)"
  define size3 where "size3 = (let size1 = (if sign \<noteq> 0 then size0 - 1 else size0)
    in if need_pfx then if base = 16 then size1 - 2 else size1 - 1 else size1) -
    (if int (length tmp) > precision0 then int (length tmp) else precision0)"
  have text_eq: "number_text num0 base size0 precision0 type0 =
    (if type AND LEFT \<noteq> 0 then front @ digits @ replicate fill 32
     else if type AND ZEROPAD \<noteq> 0 then front @ replicate fill 48 @ digits
     else replicate fill 32 @ front @ digits)"
    by (simp only: number_text_def Let_def need_pfx_def locase_def type_def sign_def tmp_def front_def digits_def fill_def)
  have fill: "nat size3 = fill"
    unfolding size3_def fill_def front_def digits_def Let_def by (auto simp: nat_diff_distrib')
  have front: "(if need_pfx then let obp = addch 48 (if sign \<noteq> 0 then addch sign ob1 else ob1)
      in if base = 16 then addch (88 OR locase) obp else obp else (if sign \<noteq> 0 then addch sign ob1 else ob1)) =
      fold addch front ob1" for ob1
    by (simp add: front_def)
  have digits: "fold addch (rev tmp) (zeros_loop (int (length tmp))
      (if int (length tmp) > precision0 then int (length tmp) else precision0) ob1) = fold addch digits ob1" for ob1
    by (simp add: zeros_loop_eq digits_def nat_diff_distrib')
  have "number num0 base size0 precision0 type0 ob =
    (let (size4, ob1) = (if type AND (ZEROPAD + LEFT) = 0 then pad_loop size3 32 ob else (size3, ob));
         (size5, ob4) = (if type AND LEFT = 0
                          then pad_loop size4 (if type AND ZEROPAD \<noteq> 0 then 48 else 32) (fold addch front ob1)
                          else (size4, fold addch front ob1))
     in snd (pad_loop size5 32 (fold addch digits ob4)))"
    unfolding number_def need_pfx_def [symmetric] locase_def [symmetric]
    by (simp only: Let_def type_def [symmetric] sign_def [symmetric] tmp_def [symmetric] front [unfolded Let_def]
        digits [unfolded Let_def] size3_def [unfolded Let_def, symmetric])
  also have "\<dots> = fold addch (number_text num0 base size0 precision0 type0) ob"
    by (simp add: text_eq and_ZEROPAD_LEFT pad_loop_eq fill Let_def)
  finally show ?thesis .
qed











section \<open>The buffer\<close>

text \<open>
  The output so far is \<open>outp\<close>: as much of it as fits stands in the buffer, and the rest of the memory is
  \<open>ext\<close>.
\<close>

definition shows_text :: "ptr \<Rightarrow> memory \<Rightarrow> u8 list \<Rightarrow> outbuf \<Rightarrow> bool" where
  "shows_text buf ext outp ob \<longleftrightarrow> ob_str ob = buf + length outp \<and>
     (\<forall>a. ob_mem ob a = (if buf \<le> a \<and> a < buf + length outp \<and> a < ob_end ob then outp ! (a - buf) else ext a))"

lemma shows_text_addch: "shows_text buf ext outp ob \<Longrightarrow> shows_text buf ext (outp @ [c]) (addch c ob)"
  by (auto simp: shows_text_def addch_mem nth_append less_Suc_eq)

lemma shows_text_fold: "shows_text buf ext outp ob \<Longrightarrow> shows_text buf ext (outp @ t) (fold addch t ob)"
proof (induction t arbitrary: outp ob)
  case (Cons c t)
  then show ?case using Cons.IH [OF shows_text_addch [OF Cons.prems, of c]] by simp
qed simp


definition kept_outside :: "va_arg list \<Rightarrow> memory \<Rightarrow> memory \<Rightarrow> bool" where
  "kept_outside args m m1 \<longleftrightarrow> (\<forall>a. (\<forall>p. ArgPtr p \<in> set args \<longrightarrow> \<not> (p \<le> a \<and> a < p + 4)) \<longrightarrow> m1 a = m a)"

lemma kept_outside_refl [simp]: "kept_outside args m m"
  by (simp add: kept_outside_def)
















text \<open>What the end of \<open>vsnprintf_internal\<close> makes of the output.\<close>

lemma vsnprintf_finish:
  assumes ob: "shows_text buf ext t ob" "ob_end ob = buf + sz" and sz: "0 < sz" "buf + sz < 2 ^ 32"
    and run: "vsnprintf_loop ipv6 buf fmt args \<lparr>ob_mem = m, ob_str = buf, ob_end = buf + sz\<rparr> = Some ob"
  obtains m1 where "vsnprintf ipv6 m buf sz fmt args = Some (int (length t), m1)"
    "\<And>i. i < min (length t) (sz - 1) \<Longrightarrow> m1 (buf + i) = t ! i" "m1 (buf + min (length t) (sz - 1)) = 0"
    "\<And>a. a < buf \<or> buf + sz \<le> a \<Longrightarrow> m1 a = ext a"
proof
  define m1 where "m1 = (if buf + length t + 1 > buf + sz then (ob_mem (addch 0 ob))(buf + sz - 1 := 0) else ob_mem (addch 0 ob))"
  have sh: "shows_text buf ext (t @ [0]) (addch 0 ob)" using ob(1) by (rule shows_text_addch)
  have str: "ob_str ob = buf + length t" using ob(1) by (simp add: shows_text_def)
  have mem: "ob_mem (addch 0 ob) a =
      (if buf \<le> a \<and> a < buf + Suc (length t) \<and> a < buf + sz then (t @ [0]) ! (a - buf) else ext a)" for a
    using sh ob(2) by (simp add: shows_text_def)
  show "vsnprintf ipv6 m buf sz fmt args = Some (int (length t), m1)"
    using sz by (simp add: vsnprintf_def vsnprintf_internal_def run str m1_def Let_def)
  show "m1 (buf + i) = t ! i" if "i < min (length t) (sz - 1)" for i
    using that by (auto simp: m1_def mem nth_append)
  show "m1 (buf + min (length t) (sz - 1)) = 0"
    using sz by (auto simp: m1_def mem nth_append min_def)
  show "m1 a = ext a" if "a < buf \<or> buf + sz \<le> a" for a
    using that sz by (auto simp: m1_def mem)
qed



section \<open>Numbers are read back\<close>

lemma length_digits_of: "2 \<le> b \<Longrightarrow> k \<ge> 1 \<Longrightarrow> n < b ^ k \<Longrightarrow> length (digits_of b n) \<le> k"
proof (induction k arbitrary: n)
  case (Suc k)
  show ?case
  proof (cases "n < b")
    case False
    then have "k \<ge> 1" using Suc.prems by (cases k) auto
    moreover have "n div b < b ^ k" using Suc.prems by (simp add: div_less_iff_less_mult mult.commute)
    ultimately have "length (digits_of b (n div b)) \<le> k" using Suc by simp
    then show ?thesis using False Suc.prems by (subst digits_of_unfold) simp
  qed (simp add: digits_of_small)
qed simp

lemma digit_char_ne_0: "d < 16 \<Longrightarrow> locase \<in> {0, 32} \<Longrightarrow> digit_char locase d \<noteq> 0"
proof
  assume d: "d < 16" "locase \<in> {0, 32}" "digit_char locase d = 0"
  have "decode_digit 0 = 256" by code_simp
  then have "(word_of_nat d :: u32) = 256" using decode_digit_char(1) [OF d(1,2)] d(3) by simp
  then have "unat (word_of_nat d :: u32) = 256" by simp
  then show False using d(1) by (simp add: unat_of_nat)
qed

text \<open>A format of one conversion into a buffer with enough room.\<close>

lemma vsnprintf_one:
  assumes spec: "\<And>ob. format_spec ipv6 buf fmt args ob = Some ([], args1, fold addch t ob)"
    and sz: "length t < sz" "buf + sz < 2 ^ 32" and t: "\<forall>c\<in>set t. c \<noteq> 0"
  shows "\<exists>m1. vsnprintf ipv6 m buf sz (37 # fmt) args = Some (int (length t), m1) \<and> is_cstr m1 buf t"
proof -
  define ob where "ob = \<lparr>ob_mem = m, ob_str = buf, ob_end = buf + sz\<rparr>"
  have "shows_text buf m [] ob" by (auto simp: shows_text_def ob_def)
  then have sh: "shows_text buf m t (fold addch t ob)" using shows_text_fold [of buf m "[]" ob t] by simp
  have e: "ob_end (fold addch t ob) = buf + sz" by (simp add: ob_def)
  have run: "vsnprintf_loop ipv6 buf (37 # fmt) args \<lparr>ob_mem = m, ob_str = buf, ob_end = buf + sz\<rparr> = Some (fold addch t ob)"
    by (simp add: spec ob_def)
  have "0 < sz" using sz(1) by simp
  from vsnprintf_finish [OF sh e this sz(2) run] obtain m1 where m1:
    "vsnprintf ipv6 m buf sz (37 # fmt) args = Some (int (length t), m1)"
    "\<And>i. i < min (length t) (sz - 1) \<Longrightarrow> m1 (buf + i) = t ! i" "m1 (buf + min (length t) (sz - 1)) = 0" by metis
  have "min (length t) (sz - 1) = length t" using sz(1) by simp
  then have "is_cstr m1 buf t" using m1(2,3) t by (simp add: is_cstr_def)
  then show ?thesis using m1(1) by blast
qed

lemma plain_number_text:
  assumes "base \<in> {8, 10, 16}" "flags \<in> {0, SMALL}"
  shows "number_text num base (- 1) (- 1) flags =
    map (digit_char (word_of_int flags)) (rev (digits_of (nat base) (unat num)))"
proof -
  have lc: "word_of_int flags \<in> {0, 32 :: u8}" using assms(2) by (auto simp: SMALL_def)
  have f: "flags AND LEFT = 0" "flags AND ZEROPAD = 0" "flags AND SIGN = 0" "flags AND SPECIAL = 0" "flags AND SMALL = flags"
    using assms(2) by (auto simp: LEFT_def ZEROPAD_def SIGN_def SPECIAL_def SMALL_def)
  show ?thesis
    by (simp add: number_text_def f Let_def number_sign_def number_tmp_digits [OF assms(1) lc] rev_map)
qed

text \<open>
  C26. A 64-bit number printed with \<open>%llu\<close>, \<open>%llo\<close>, \<open>%llx\<close> or \<open>%llX\<close> to a buffer of at least 23 bytes is what
  \<open>simple_strtoull\<close> reads back in that base, to the end of the text: the decimal digits that are computed
  without a division are the right ones.
\<close>

theorem number_round_trip:
  assumes c: "(c, base) \<in> {(117, 10), (111, 8), (120, 16), (88, 16)}" and sz: "23 \<le> sz" "buf + sz < 2 ^ 32"
  shows "\<exists>t m1. vsnprintf v m buf sz [37, 108, 108, c] [ArgLong num] = Some (int (length t), m1) \<and>
    is_cstr m1 buf t \<and> simple_strtoull t (word_of_nat base) = (num, [])"
proof -
  define flags where "flags = (if c = 120 then SMALL else 0)"
  define t where "t = map (digit_char (word_of_int flags)) (rev (digits_of base (unat num)))"
  have base: "base \<in> {8, 10, 16}" "int base \<in> {8, 10, 16}" "2 \<le> base" "base \<le> 16" using c by auto
  have flags: "flags \<in> {0, SMALL}" by (simp add: flags_def)
  then have lc: "word_of_int flags \<in> {0, 32 :: u8}" by (auto simp: SMALL_def)
  have "length t \<le> 22"
  proof -
    have "unat num < 8 ^ 22" using unat_u64_less [of num] by simp
    also have "\<dots> \<le> base ^ 22" using base by (intro power_mono) auto
    finally show ?thesis using length_digits_of [OF base(3), of 22 "unat num"] by (simp add: t_def)
  qed
  moreover have "\<forall>c\<in>set t. c \<noteq> 0"
    using digits_of_less [OF base(3)] base(4) digit_char_ne_0 [OF _ lc] by (fastforce simp: t_def)
  moreover have "format_spec v buf [108, 108, c] [ArgLong num] ob = Some ([], [], fold addch t ob)" for ob
    using c plain_number_text [OF base(2) flags, of num]
    by (auto simp: format_spec_def format_width_def format_precision_def char_at_def is_digit_def format_qualifier_def
        format_conversion_def flag_char_def format_integer_def fetch_number_def number_eq flags_def t_def Let_def)
  ultimately have "\<exists>m1. vsnprintf v m buf sz [37, 108, 108, c] [ArgLong num] = Some (int (length t), m1) \<and> is_cstr m1 buf t"
    using sz by (intro vsnprintf_one) auto
  moreover have "simple_strtoull t (word_of_nat base) = (num, [])"
    using strtoul_digits(2) [OF base(1) lc, of "unat num"] by (simp add: t_def)
  ultimately show ?thesis by blast
qed

theorem number_round_trip_witness:
  "\<exists>t m1. vsnprintf False (\<lambda>a. 0) 100 23 [37, 108, 108, 120] [ArgLong 0xdeadbeef00] = Some (int (length t), m1) \<and>
    is_cstr m1 100 t \<and> simple_strtoull t 16 = (0xdeadbeef00, [])"
  using number_round_trip [where c = 120 and base = 16 and sz = 23 and buf = 100 and v = False and m = "\<lambda>a. 0"
      and num = "0xdeadbeef00"] by simp

text \<open>
  A \<open>size_t\<close> has 32 bits here, and \<open>%zd\<close> takes its argument as one without extending its sign: the
  negative number -1 is printed as 4294967295.
\<close>

theorem printf_zd_negative:
  "\<exists>m1. vsnprintf False (\<lambda>a. 0) 100 20 [37, 122, 100] [ArgInt (- 1)] = Some (10, m1) \<and>
     is_cstr m1 100 [52, 50, 57, 52, 57, 54, 55, 50, 57, 53]"
proof -
  have "digits_of 10 4294967295 = [5, 9, 2, 7, 6, 9, 4, 9, 2, 4]" by (simp add: digits_of.simps)
  then have "number_text 0xffffffff 10 (- 1) (- 1) SIGN = [52, 50, 57, 52, 57, 54, 55, 50, 57, 53]"
    by (simp add: number_text_def number_sign_def Let_def number_tmp_digits SIGN_def SPECIAL_def SMALL_def LEFT_def
        ZEROPAD_def PLUS_def SPACE_def word_sless_alt digit_char_def number_digits_def)
  moreover have "ucast (- 1 :: u32) = (0xffffffff :: u64)" by code_simp
  ultimately have "format_spec False 100 [122, 100] [ArgInt (- 1)] ob =
      Some ([], [], fold addch [52, 50, 57, 52, 57, 54, 55, 50, 57, 53] ob)" for ob
    by (simp add: format_spec_def format_width_def format_precision_def char_at_def is_digit_def format_qualifier_def
        format_conversion_def flag_char_def format_integer_def fetch_number_def number_eq Let_def)
  from vsnprintf_one [OF this, of 20 "\<lambda>a. 0"] show ?thesis by simp
qed

end
