(* ===== verification/Crc32.thy ===== *)
theory Crc32
  imports Vsprintf_Props
begin

text \<open>
  The checksum \<open>lib/crc32.c\<close> on a little-endian machine, where \<open>tole\<close>, \<open>cpu_to_le32\<close> and \<open>le32_to_cpu\<close> do
  nothing. A block of memory is its address, of which only the alignment matters, and its bytes. The
  routine takes four bytes at a time from a table of 256 entries; it is compared with the division of
  polynomials bit by bit.
\<close>

section \<open>The table\<close>

definition crc_terms :: "nat list" where
  "crc_terms = [0, 1, 2, 4, 5, 7, 8, 10, 11, 12, 16, 22, 23, 26]"

definition crc_poly :: u32 where
  "crc_poly = fold (\<lambda>p poly. poly OR push_bit (31 - p) 1) crc_terms 0"

text \<open>One bit of the division.\<close>

definition crc_bit :: "u32 \<Rightarrow> u32" where
  "crc_bit c = (if c AND 1 \<noteq> 0 then crc_poly XOR drop_bit 1 c else drop_bit 1 c)"

definition make_crc_table :: "u32 list" where
  "make_crc_table = map (\<lambda>n. (crc_bit ^^ 8) (word_of_nat n)) [0..<256]"

definition crc_table :: "u32 list" where
  "crc_table =
     [0x00000000, 0x77073096, 0xee0e612c, 0x990951ba, 0x076dc419, 0x706af48f, 0xe963a535, 0x9e6495a3,
      0x0edb8832, 0x79dcb8a4, 0xe0d5e91e, 0x97d2d988, 0x09b64c2b, 0x7eb17cbd, 0xe7b82d07, 0x90bf1d91,
      0x1db71064, 0x6ab020f2, 0xf3b97148, 0x84be41de, 0x1adad47d, 0x6ddde4eb, 0xf4d4b551, 0x83d385c7,
      0x136c9856, 0x646ba8c0, 0xfd62f97a, 0x8a65c9ec, 0x14015c4f, 0x63066cd9, 0xfa0f3d63, 0x8d080df5,
      0x3b6e20c8, 0x4c69105e, 0xd56041e4, 0xa2677172, 0x3c03e4d1, 0x4b04d447, 0xd20d85fd, 0xa50ab56b,
      0x35b5a8fa, 0x42b2986c, 0xdbbbc9d6, 0xacbcf940, 0x32d86ce3, 0x45df5c75, 0xdcd60dcf, 0xabd13d59,
      0x26d930ac, 0x51de003a, 0xc8d75180, 0xbfd06116, 0x21b4f4b5, 0x56b3c423, 0xcfba9599, 0xb8bda50f,
      0x2802b89e, 0x5f058808, 0xc60cd9b2, 0xb10be924, 0x2f6f7c87, 0x58684c11, 0xc1611dab, 0xb6662d3d,
      0x76dc4190, 0x01db7106, 0x98d220bc, 0xefd5102a, 0x71b18589, 0x06b6b51f, 0x9fbfe4a5, 0xe8b8d433,
      0x7807c9a2, 0x0f00f934, 0x9609a88e, 0xe10e9818, 0x7f6a0dbb, 0x086d3d2d, 0x91646c97, 0xe6635c01,
      0x6b6b51f4, 0x1c6c6162, 0x856530d8, 0xf262004e, 0x6c0695ed, 0x1b01a57b, 0x8208f4c1, 0xf50fc457,
      0x65b0d9c6, 0x12b7e950, 0x8bbeb8ea, 0xfcb9887c, 0x62dd1ddf, 0x15da2d49, 0x8cd37cf3, 0xfbd44c65,
      0x4db26158, 0x3ab551ce, 0xa3bc0074, 0xd4bb30e2, 0x4adfa541, 0x3dd895d7, 0xa4d1c46d, 0xd3d6f4fb,
      0x4369e96a, 0x346ed9fc, 0xad678846, 0xda60b8d0, 0x44042d73, 0x33031de5, 0xaa0a4c5f, 0xdd0d7cc9,
      0x5005713c, 0x270241aa, 0xbe0b1010, 0xc90c2086, 0x5768b525, 0x206f85b3, 0xb966d409, 0xce61e49f,
      0x5edef90e, 0x29d9c998, 0xb0d09822, 0xc7d7a8b4, 0x59b33d17, 0x2eb40d81, 0xb7bd5c3b, 0xc0ba6cad,
      0xedb88320, 0x9abfb3b6, 0x03b6e20c, 0x74b1d29a, 0xead54739, 0x9dd277af, 0x04db2615, 0x73dc1683,
      0xe3630b12, 0x94643b84, 0x0d6d6a3e, 0x7a6a5aa8, 0xe40ecf0b, 0x9309ff9d, 0x0a00ae27, 0x7d079eb1,
      0xf00f9344, 0x8708a3d2, 0x1e01f268, 0x6906c2fe, 0xf762575d, 0x806567cb, 0x196c3671, 0x6e6b06e7,
      0xfed41b76, 0x89d32be0, 0x10da7a5a, 0x67dd4acc, 0xf9b9df6f, 0x8ebeeff9, 0x17b7be43, 0x60b08ed5,
      0xd6d6a3e8, 0xa1d1937e, 0x38d8c2c4, 0x4fdff252, 0xd1bb67f1, 0xa6bc5767, 0x3fb506dd, 0x48b2364b,
      0xd80d2bda, 0xaf0a1b4c, 0x36034af6, 0x41047a60, 0xdf60efc3, 0xa867df55, 0x316e8eef, 0x4669be79,
      0xcb61b38c, 0xbc66831a, 0x256fd2a0, 0x5268e236, 0xcc0c7795, 0xbb0b4703, 0x220216b9, 0x5505262f,
      0xc5ba3bbe, 0xb2bd0b28, 0x2bb45a92, 0x5cb36a04, 0xc2d7ffa7, 0xb5d0cf31, 0x2cd99e8b, 0x5bdeae1d,
      0x9b64c2b0, 0xec63f226, 0x756aa39c, 0x026d930a, 0x9c0906a9, 0xeb0e363f, 0x72076785, 0x05005713,
      0x95bf4a82, 0xe2b87a14, 0x7bb12bae, 0x0cb61b38, 0x92d28e9b, 0xe5d5be0d, 0x7cdcefb7, 0x0bdbdf21,
      0x86d3d2d4, 0xf1d4e242, 0x68ddb3f8, 0x1fda836e, 0x81be16cd, 0xf6b9265b, 0x6fb077e1, 0x18b74777,
      0x88085ae6, 0xff0f6a70, 0x66063bca, 0x11010b5c, 0x8f659eff, 0xf862ae69, 0x616bffd3, 0x166ccf45,
      0xa00ae278, 0xd70dd2ee, 0x4e048354, 0x3903b3c2, 0xa7672661, 0xd06016f7, 0x4969474d, 0x3e6e77db,
      0xaed16a4a, 0xd9d65adc, 0x40df0b66, 0x37d83bf0, 0xa9bcae53, 0xdebb9ec5, 0x47b2cf7f, 0x30b5ffe9,
      0xbdbdf21c, 0xcabac28a, 0x53b39330, 0x24b4a3a6, 0xbad03605, 0xcdd70693, 0x54de5729, 0x23d967bf,
      0xb3667a2e, 0xc4614ab8, 0x5d681b02, 0x2a6f2b94, 0xb40bbe37, 0xc30c8ea1, 0x5a05df1b, 0x2d02ef8d]"

section \<open>The checksum\<close>

definition DO_CRC :: "u32 list \<Rightarrow> u8 \<Rightarrow> u32 \<Rightarrow> u32" where
  "DO_CRC tab x crc = tab ! unat ((crc XOR ucast x) AND 255) XOR drop_bit 8 crc"

text \<open>The bytes up to an aligned address.\<close>

fun crc_align :: "u32 list \<Rightarrow> ptr \<Rightarrow> u32 \<Rightarrow> u8 list \<Rightarrow> u32 \<times> u8 list" where
  "crc_align tab p crc [] = (crc, [])"
| "crc_align tab p crc (x # xs) =
     (if p mod 4 = 0 then (crc, x # xs) else crc_align tab (p + 1) (DO_CRC tab x crc) xs)"

definition load_le32 :: "u8 \<Rightarrow> u8 \<Rightarrow> u8 \<Rightarrow> u8 \<Rightarrow> u32" where
  "load_le32 a b c d = ucast a OR push_bit 8 (ucast b) OR push_bit 16 (ucast c) OR push_bit 24 (ucast d)"

fun crc_words :: "u32 list \<Rightarrow> u32 \<Rightarrow> u8 list \<Rightarrow> u32 \<times> u8 list" where
  "crc_words tab crc (a # b # c # d # xs) =
     crc_words tab (DO_CRC tab 0 (DO_CRC tab 0 (DO_CRC tab 0 (DO_CRC tab 0 (crc XOR load_le32 a b c d))))) xs"
| "crc_words tab crc xs = (crc, xs)"

text \<open>The option \<open>CONFIG_DYNAMIC_CRC_TABLE\<close> chooses the table.\<close>

definition crc32_no_comp :: "bool \<Rightarrow> u32 \<Rightarrow> ptr \<Rightarrow> u8 list \<Rightarrow> u32" where
  "crc32_no_comp dynamic crc buf data =
     (let tab = (if dynamic then make_crc_table else crc_table)
      in case crc_align tab buf crc data of (crc1, rest1) \<Rightarrow>
           case crc_words tab crc1 rest1 of (crc2, rest2) \<Rightarrow> fold (DO_CRC tab) rest2 crc2)"

definition crc32 :: "bool \<Rightarrow> u32 \<Rightarrow> ptr \<Rightarrow> u8 list \<Rightarrow> u32" where
  "crc32 dynamic crc p data = crc32_no_comp dynamic (crc XOR 0xffffffff) p data XOR 0xffffffff"

text \<open>With a chunk size of 0 the loop does not end.\<close>

partial_function (option) crc32_wd_loop :: "bool \<Rightarrow> nat \<Rightarrow> u32 \<Rightarrow> ptr \<Rightarrow> u8 list \<Rightarrow> u32 option" where
  "crc32_wd_loop dynamic chunk_sz crc cur data =
     (if data \<noteq> [] then
        let chunk = (if length data > chunk_sz then chunk_sz else length data)
        in crc32_wd_loop dynamic chunk_sz (crc32 dynamic crc cur (take chunk data)) (cur + chunk) (drop chunk data)
      else Some crc)"

definition crc32_wd :: "bool \<Rightarrow> bool \<Rightarrow> u32 \<Rightarrow> ptr \<Rightarrow> u8 list \<Rightarrow> nat \<Rightarrow> u32 option" where
  "crc32_wd dynamic watchdog crc buf data chunk_sz =
     (if watchdog then crc32_wd_loop dynamic chunk_sz crc buf data else Some (crc32 dynamic crc buf data))"

text \<open>The four bytes written to \<open>output\<close>, the highest first.\<close>

definition crc32_wd_buf :: "bool \<Rightarrow> bool \<Rightarrow> ptr \<Rightarrow> u8 list \<Rightarrow> nat \<Rightarrow> u8 list option" where
  "crc32_wd_buf dynamic watchdog input data chunk_sz =
     map_option (\<lambda>crc. [ucast (drop_bit 24 crc), ucast (drop_bit 16 crc), ucast (drop_bit 8 crc), ucast crc])
       (crc32_wd dynamic watchdog 0 input data chunk_sz)"

section \<open>The static table is the computed one\<close>

lemma crc_poly_eq: "crc_poly = 0xedb88320"
  by (simp add: crc_poly_def crc_terms_def)

lemma funpow_8: "(f ^^ 8) x = f (f (f (f (f (f (f (f x)))))))"
  by (simp add: numeral_eq_Suc)

lemma crc_bit_alt: "crc_bit c = (if bit c 0 then crc_poly XOR drop_bit 1 c else drop_bit 1 c)"
  by (simp add: crc_bit_def and_one_eq bit_0 odd_iff_mod_2_eq_one)

lemma crc_bit_xor: "crc_bit (x XOR y) = crc_bit x XOR crc_bit y"
  by (simp add: crc_bit_alt bit_xor_iff drop_bit_xor ac_simps)

text \<open>The eight steps for one byte.\<close>

definition crc_byte :: "u32 \<Rightarrow> u32" where "crc_byte c = (crc_bit ^^ 8) c"

lemma crc_byte_xor: "crc_byte (x XOR y) = crc_byte x XOR crc_byte y"
  by (simp add: crc_byte_def funpow_8 crc_bit_xor)

lemma word_of_nat_add_xor:
  assumes "j < 2 ^ k"
  shows "(word_of_nat (j + 2 ^ k) :: u32) = 2 ^ k XOR word_of_nat j"
proof -
  have "(2 ^ k :: u32) AND word_of_nat j = 0"
  proof (rule bit_eqI)
    fix n
    have "\<not> bit j k" using assms by (simp add: bit_iff_odd)
    then show "bit ((2 ^ k :: u32) AND word_of_nat j) n = bit 0 n" by (auto simp: bit_and_iff bit_exp_iff bit_of_nat_iff)
  qed
  then show ?thesis using disjunctive_add_eq_xor [of "2 ^ k :: u32" "word_of_nat j"] by (simp add: add.commute)
qed

definition crc_double :: "u32 \<Rightarrow> u32 list \<Rightarrow> u32 list" where
  "crc_double c t = t @ map (\<lambda>v. c XOR v) t"

lemma table_double:
  "map (\<lambda>n. crc_byte (word_of_nat n)) [0..<2 ^ Suc k] =
     crc_double (crc_byte (2 ^ k)) (map (\<lambda>n. crc_byte (word_of_nat n)) [0..<2 ^ k])"
proof -
  have "[0..<2 ^ Suc k] = [0..<2 ^ k] @ map (\<lambda>j. j + 2 ^ k) [0..<2 ^ k]"
    using upt_add_eq_append [of 0 "2 ^ k" "2 ^ k"] by (simp add: map_add_upt mult_2)
  then show ?thesis by (simp add: crc_double_def word_of_nat_add_xor crc_byte_xor del: of_nat_add)
qed

lemma crc_byte_basis:
  "crc_byte 0 = 0" "crc_byte 1 = 0x77073096" "crc_byte 2 = 0xee0e612c" "crc_byte 4 = 0x076dc419" "crc_byte 8 = 0x0edb8832"
  "crc_byte 16 = 0x1db71064" "crc_byte 32 = 0x3b6e20c8" "crc_byte 64 = 0x76dc4190" "crc_byte 128 = 0xedb88320"
  by (simp_all add: crc_byte_def funpow_8 crc_bit_def crc_poly_eq)

lemma static_table_correct: "crc_table = make_crc_table"
proof -
  let ?t = "\<lambda>k. map (\<lambda>n. crc_byte (word_of_nat n)) [0..<2 ^ k]"
  have "make_crc_table = ?t (Suc (Suc (Suc (Suc (Suc (Suc (Suc (Suc 0))))))))"
    by (simp only: make_crc_table_def crc_byte_def power_Suc power_0 mult_1_right numeral_times_numeral) (simp only: num.simps semiring_norm)
  also have "\<dots> = crc_double 0xedb88320 (crc_double 0x76dc4190 (crc_double 0x3b6e20c8 (crc_double 0x1db71064
      (crc_double 0x0edb8832 (crc_double 0x076dc419 (crc_double 0xee0e612c (crc_double 0x77073096 [0])))))))"
    unfolding table_double by (simp add: crc_byte_basis)
  also have "\<dots> = crc_table" by (simp add: crc_double_def crc_table_def)
  finally show ?thesis by simp
qed

section \<open>The routine divides polynomials\<close>

text \<open>The reference: every byte is added to the register, which then takes eight steps of one bit.\<close>

definition crc_reference :: "u32 \<Rightarrow> u8 list \<Rightarrow> u32" where
  "crc_reference crc data = fold (\<lambda>x c. crc_byte (c XOR ucast x)) data crc"

lemma funpow_crc_bit_low: "(\<forall>i < n. \<not> bit x i) \<Longrightarrow> (crc_bit ^^ n) x = drop_bit n x"
proof (induction n)
  case (Suc n)
  then have "(crc_bit ^^ n) x = drop_bit n x" by simp
  moreover have "\<not> bit (drop_bit n x) 0" using Suc.prems by (simp add: bit_drop_bit_eq)
  ultimately show ?case using crc_bit_alt [of "drop_bit n x"] by simp
qed simp

lemma crc_byte_push:
  assumes "\<forall>i \<ge> 24. \<not> bit y i"
  shows "crc_byte (x XOR push_bit 8 y) = crc_byte x XOR y"
proof -
  have "crc_byte (push_bit 8 y) = drop_bit 8 (push_bit 8 y)"
    unfolding crc_byte_def by (rule funpow_crc_bit_low) (simp add: bit_push_bit_iff)
  also have "\<dots> = y" using assms by (intro bit_eqI) (auto simp: bit_drop_bit_eq bit_push_bit_iff not_le)
  finally show ?thesis by (simp add: crc_byte_xor)
qed

lemma and_255: "c AND 255 = take_bit 8 (c :: u32)"
proof -
  have "(255 :: u32) = mask 8" by (simp add: mask_eq_exp_minus_1)
  then show ?thesis by (simp only: take_bit_eq_mask)
qed

lemma crc_table_lookup: "make_crc_table ! unat (c AND 255) = crc_byte (c AND 255)"
proof -
  have "unat (take_bit 8 c) = take_bit 8 (unat c)" by (rule unsigned_take_bit_eq)
  then have "unat (c AND 255) < 2 ^ 8" by (simp only: and_255 take_bit_nat_less_exp)
  then show ?thesis by (simp add: make_crc_table_def crc_byte_def)
qed

lemma crc_byte_split: "crc_byte c = crc_byte (c AND 255) XOR drop_bit 8 c"
proof -
  have "bit c n = bit ((c AND 255) XOR push_bit 8 (drop_bit 8 c)) n" if "n < 32" for n
    using that by (cases "n < 8") (simp_all add: and_255 bit_xor_iff bit_take_bit_iff bit_push_bit_iff bit_drop_bit_eq)
  then have "c = (c AND 255) XOR push_bit 8 (drop_bit 8 c)" by (intro bit_eqI) (simp add: bit_imp_le_length)
  moreover have "\<forall>i \<ge> 24. \<not> bit (drop_bit 8 c) i" by (auto simp: bit_drop_bit_eq dest: bit_imp_le_length)
  ultimately show ?thesis using crc_byte_push by metis
qed

lemma bit_ucast_high: "8 \<le> n \<Longrightarrow> \<not> bit (ucast (x :: u8) :: u32) n"
  using bit_imp_le_length [of x n] by (auto simp: bit_simps)

lemma DO_CRC_eq: "DO_CRC make_crc_table x crc = crc_byte (crc XOR ucast x)"
proof -
  have "drop_bit 8 (crc XOR ucast x) = drop_bit 8 crc"
    by (rule bit_eqI) (simp add: bit_drop_bit_eq bit_xor_iff bit_ucast_high del: drop_bit_xor)
  then show ?thesis
    using crc_byte_split [of "crc XOR ucast x"] by (simp only: DO_CRC_def crc_table_lookup)
qed

text \<open>Up to four bytes at once, the first in the lowest place.\<close>

primrec le_word :: "u8 list \<Rightarrow> u32" where
  "le_word [] = 0"
| "le_word (x # xs) = ucast x XOR push_bit 8 (le_word xs)"

lemma le_word_high: "length xs \<le> 4 \<Longrightarrow> 8 * length xs \<le> i \<Longrightarrow> \<not> bit (le_word xs) i"
proof (induction xs arbitrary: i)
  case (Cons x xs)
  then have "\<not> bit (ucast x :: u32) i" using bit_imp_le_length [of x i] by (auto simp: bit_simps)
  then show ?case using Cons by (auto simp: bit_xor_iff bit_push_bit_iff)
qed simp

lemma crc_reference_word: "length xs \<le> 4 \<Longrightarrow> crc_reference crc xs = (crc_byte ^^ length xs) (crc XOR le_word xs)"
proof (induction xs arbitrary: crc)
  case (Cons x xs)
  have "crc_byte (crc XOR (ucast x XOR push_bit 8 (le_word xs))) = crc_byte (crc XOR ucast x) XOR le_word xs"
    using le_word_high [of xs] Cons.prems crc_byte_push [of "le_word xs" "crc XOR ucast x"] by (simp add: ac_simps)
  then show ?case
    using Cons by (simp add: crc_reference_def funpow_swap1)
qed (simp add: crc_reference_def)

lemma or_push_byte: "ucast (a :: u8) OR push_bit 8 y = ucast a XOR push_bit 8 (y :: u32)"
proof (rule bit_eqI)
  fix n
  show "bit (ucast a OR push_bit 8 y) n = bit (ucast a XOR push_bit 8 y) n"
    using bit_ucast_high [of n a] by (cases "8 \<le> n") (auto simp: bit_or_iff bit_xor_iff bit_push_bit_iff)
qed

lemma load_le32_eq: "load_le32 a b c d = le_word [a, b, c, d]"
proof -
  have "load_le32 a b c d = ucast a OR push_bit 8 (ucast b OR push_bit 8 (ucast c OR push_bit 8 (ucast d)))"
    by (simp add: load_le32_def push_bit_or ac_simps)
  then show ?thesis by (simp only: or_push_byte le_word.simps push_bit_of_0 xor.right_neutral)
qed

lemma crc_align_reference: "crc_align make_crc_table p crc xs = (crc1, ys) \<Longrightarrow> crc_reference crc1 ys = crc_reference crc xs"
  by (induction make_crc_table p crc xs rule: crc_align.induct)
    (auto simp: DO_CRC_eq crc_reference_def split: if_splits)

lemma crc_words_reference: "crc_words make_crc_table crc xs = (crc1, ys) \<Longrightarrow> crc_reference crc1 ys = crc_reference crc xs"
proof (induction make_crc_table crc xs rule: crc_words.induct)
  case (1 crc a b c d xs)
  have "crc_reference crc [a, b, c, d] = crc_byte (crc_byte (crc_byte (crc_byte (crc XOR load_le32 a b c d))))"
    using crc_reference_word [of "[a, b, c, d]" crc] by (simp add: load_le32_eq numeral_eq_Suc)
  then have "crc_reference crc (a # b # c # d # xs) =
      crc_reference (crc_byte (crc_byte (crc_byte (crc_byte (crc XOR load_le32 a b c d))))) xs"
    by (simp add: crc_reference_def)
  then show ?case using 1 by (simp add: DO_CRC_eq)
qed auto

lemma crc32_no_comp_reference: "crc32_no_comp dynamic crc buf data = crc_reference crc data"
proof -
  have tab: "(if dynamic then make_crc_table else crc_table) = make_crc_table" by (simp add: static_table_correct)
  obtain crc1 ys where 1: "crc_align make_crc_table buf crc data = (crc1, ys)" by fastforce
  obtain crc2 zs where 2: "crc_words make_crc_table crc1 ys = (crc2, zs)" by fastforce
  have "DO_CRC make_crc_table = (\<lambda>x c. crc_byte (c XOR ucast x))" by (intro ext) (rule DO_CRC_eq)
  then have "fold (DO_CRC make_crc_table) zs crc2 = crc_reference crc2 zs" by (simp add: crc_reference_def)
  then show ?thesis
    using crc_align_reference [OF 1] crc_words_reference [OF 2] by (simp add: crc32_no_comp_def Let_def tab 1 2)
qed

lemma crc32_reference: "crc32 dynamic crc p data = crc_reference (crc XOR 0xffffffff) data XOR 0xffffffff"
  by (simp only: crc32_def crc32_no_comp_reference)

text \<open>A checksum goes on where another stopped.\<close>

lemma crc32_append: "crc32 dynamic (crc32 dynamic crc p xs) q ys = crc32 dynamic crc r (xs @ ys)"
  by (simp only: crc32_reference xor.assoc xor_self_eq xor.right_neutral crc_reference_def fold_append comp_def)

lemma crc32_wd_loop_eq:
  "chunk_sz > 0 \<Longrightarrow> crc32_wd_loop dynamic chunk_sz (crc32 dynamic crc p xs) q ys = Some (crc32 dynamic crc p (xs @ ys))"
proof (induction "length ys" arbitrary: xs q ys rule: less_induct)
  case less
  show ?case
  proof (cases "ys = []")
    case False
    define chunk where "chunk = (if length ys > chunk_sz then chunk_sz else length ys)"
    have "length (drop chunk ys) < length ys" using False less.prems by (simp add: chunk_def)
    note IH = less.hyps [OF this less.prems, of "xs @ take chunk ys" "q + chunk"]
    have "crc32 dynamic (crc32 dynamic crc p xs) q (take chunk ys) = crc32 dynamic crc p (xs @ take chunk ys)"
      by (rule crc32_append)
    then show ?thesis using IH False by (subst crc32_wd_loop.simps) (simp add: Let_def chunk_def [symmetric])
  qed (subst crc32_wd_loop.simps, simp)
qed

text \<open>
  C7. The checksum, which takes four bytes at a time from the static or the computed table, is that of the
  shift register: the bytes are added one by one, and after each the register makes eight steps, in each
  of which the polynomial is added when a 1 is shifted out. It does not depend on the alignment of the
  block, and serving the watchdog after every chunk of any positive size changes nothing.
\<close>

theorem crc32_correct:
  "crc32 dynamic crc p data = fold (\<lambda>x c. (crc_bit ^^ 8) (c XOR ucast x)) data (crc XOR 0xffffffff) XOR 0xffffffff \<and>
   (0 < chunk_sz \<longrightarrow> crc32_wd dynamic watchdog crc p data chunk_sz = Some (crc32 dynamic crc p data))"
proof (intro conjI impI)
  show "crc32 dynamic crc p data = fold (\<lambda>x c. (crc_bit ^^ 8) (c XOR ucast x)) data (crc XOR 0xffffffff) XOR 0xffffffff"
    by (simp only: crc32_reference crc_reference_def crc_byte_def)
  have "crc32 dynamic crc p [] = crc" by (simp add: crc32_reference crc_reference_def xor.assoc)
  moreover assume "0 < chunk_sz"
  ultimately show "crc32_wd dynamic watchdog crc p data chunk_sz = Some (crc32 dynamic crc p data)"
    using crc32_wd_loop_eq [of chunk_sz dynamic crc p "[]" p data] by (simp add: crc32_wd_def)
qed

theorem crc32_correct_witness:
  "crc32_wd False True 0 1 [49, 50, 51, 52, 53, 54, 55, 56, 57] 4 = Some (crc32 True 0 2 [49, 50, 51, 52, 53, 54, 55, 56, 57])"
  using crc32_correct [of False 0 1 "[49, 50, 51, 52, 53, 54, 55, 56, 57]" 4 True]
    crc32_correct [of True 0 2 "[49, 50, 51, 52, 53, 54, 55, 56, 57]" 4 True] by simp

section \<open>Errors are detected\<close>

lemma xor_cancel_left: "c XOR x = c XOR y \<Longrightarrow> x = (y :: u32)"
proof -
  assume "c XOR x = c XOR y"
  then have "c XOR (c XOR x) = c XOR (c XOR y)" by simp
  then show ?thesis by (simp only: xor.assoc [symmetric] xor_self_eq xor.left_neutral)
qed

lemma crc_bit_inj: "crc_bit x = crc_bit y \<Longrightarrow> x = y"
proof (rule bit_eqI)
  fix n
  assume eq: "crc_bit x = crc_bit y"
  have "bit crc_poly 31" by (simp add: crc_poly_eq)
  moreover have "\<not> bit (drop_bit 1 z) 31" for z :: u32 by (auto simp: bit_drop_bit_eq dest: bit_imp_le_length)
  ultimately have top: "bit (crc_bit z) 31 = bit z 0" for z by (simp add: crc_bit_alt bit_xor_iff)
  have 0: "bit x 0 = bit y 0" using eq top [of x] top [of y] by simp
  then have "drop_bit 1 x = drop_bit 1 y" using eq by (auto simp: crc_bit_alt split: if_splits dest: xor_cancel_left)
  then have "bit x (Suc k) = bit y (Suc k)" for k by (metis bit_drop_bit_eq comp_apply plus_1_eq_Suc)
  then show "bit x n = bit y n" using 0 by (cases n) auto
qed

lemma crc_byte_inj: "crc_byte x = crc_byte y \<Longrightarrow> x = y"
  by (auto simp: crc_byte_def funpow_8 dest!: crc_bit_inj)

lemma funpow_crc_byte_inj: "(crc_byte ^^ n) x = (crc_byte ^^ n) y \<Longrightarrow> x = y"
  by (induction n) (auto dest!: crc_byte_inj)

lemma crc_reference_inj: "crc_reference c data = crc_reference d data \<Longrightarrow> c = d"
proof (induction data arbitrary: c d)
  case (Cons x data)
  then have "crc_byte (c XOR ucast x) = crc_byte (d XOR ucast x)" by (simp add: crc_reference_def)
  then have "c XOR ucast x = d XOR ucast x" by (rule crc_byte_inj)
  then show ?case using xor_cancel_left [of "ucast x" c d] by (simp add: xor.commute)
qed (simp add: crc_reference_def)

lemma le_word_inj: "length xs \<le> 4 \<Longrightarrow> length ys = length xs \<Longrightarrow> le_word xs = le_word ys \<Longrightarrow> xs = ys"
proof (induction xs arbitrary: ys)
  case (Cons x xs)
  then obtain y ys1 where ys: "ys = y # ys1" "length ys1 = length xs" by (cases ys) auto
  have eq: "ucast x XOR push_bit 8 (le_word xs) = ucast y XOR push_bit 8 (le_word ys1)" using Cons.prems ys by simp
  have low: "take_bit 8 (ucast z XOR push_bit 8 w) = (ucast z :: u32)" for z :: u8 and w
  proof (rule bit_eqI)
    fix n
    show "bit (take_bit 8 (ucast z XOR push_bit 8 w)) n = bit (ucast z :: u32) n"
      using bit_ucast_high [of n z] by (cases "8 \<le> n") (auto simp: bit_take_bit_iff bit_xor_iff bit_push_bit_iff)
  qed
  have u: "(ucast x :: u32) = ucast y" using arg_cong [OF eq, of "take_bit 8"] by (simp only: low)
  have nat: "unat (ucast z :: u32) = unat z" for z :: u8 by (rule unat_ucast_small) (rule less_trans [OF unsigned_less], simp)
  have "unat x = unat y" using arg_cong [OF u, of unat] by (simp only: nat)
  then have "x = y" by (rule word_unat_eq_iff [THEN iffD2])
  have shift: "drop_bit 8 (push_bit 8 (le_word zs)) = le_word zs" if "length zs \<le> 3" for zs
  proof (rule bit_eqI)
    fix n
    have "\<not> bit (le_word zs) n" if "24 \<le> n" using that \<open>length zs \<le> 3\<close> le_word_high [of zs n] by simp
    then show "bit (drop_bit 8 (push_bit 8 (le_word zs))) n = bit (le_word zs) n"
      by (cases "24 \<le> n") (auto simp: bit_drop_bit_eq bit_push_bit_iff)
  qed
  have "push_bit 8 (le_word xs) = push_bit 8 (le_word ys1)" using eq unfolding u by (rule xor_cancel_left)
  then have "drop_bit 8 (push_bit 8 (le_word xs)) = drop_bit 8 (push_bit 8 (le_word ys1))" by (rule arg_cong)
  moreover have "length xs \<le> 3" "length ys1 \<le> 3" using Cons.prems(1) ys(2) by auto
  ultimately have "le_word xs = le_word ys1" by (simp only: shift)
  moreover have "length xs \<le> 4" using Cons.prems(1) by simp
  ultimately have "xs = ys1" using Cons.IH [of ys1] ys(2) by blast
  then show ?case using ys(1) \<open>x = y\<close> by simp
qed simp

text \<open>Any change of up to four consecutive bytes changes the checksum.\<close>

lemma crc32_burst:
  assumes "xs \<noteq> ys" "length ys = length xs" "length xs \<le> 4"
  shows "crc32 dynamic crc p (front @ xs @ back) \<noteq> crc32 dynamic crc q (front @ ys @ back)"
proof
  assume "crc32 dynamic crc p (front @ xs @ back) = crc32 dynamic crc q (front @ ys @ back)"
  then have "crc_reference (crc XOR 0xffffffff) (front @ xs @ back) = crc_reference (crc XOR 0xffffffff) (front @ ys @ back)"
    unfolding crc32_reference by (metis xor.commute xor_cancel_left)
  moreover define c where "c = crc_reference (crc XOR 0xffffffff) front"
  ultimately have "crc_reference (crc_reference c xs) back = crc_reference (crc_reference c ys) back"
    by (simp add: crc_reference_def)
  then have "crc_reference c xs = crc_reference c ys" by (rule crc_reference_inj)
  then have "(crc_byte ^^ length xs) (c XOR le_word xs) = (crc_byte ^^ length xs) (c XOR le_word ys)"
    using assms by (simp add: crc_reference_word)
  then have "c XOR le_word xs = c XOR le_word ys" by (rule funpow_crc_byte_inj)
  then show False using assms le_word_inj xor_cancel_left by metis
qed

end
