(* ===== verification/Env_Common.thy ===== *)
theory Env_Common
  imports Crc32
begin

text \<open>
  The environment, \<open>env/common.c\<close>: reading and setting variables, the default environment, and loading
  and saving with a checksum, on top of the hash table, the flags, the numbers and the checksum. Builds
  have \<open>CONFIG_CMD_NVEDIT_EFI\<close> off. A result None stands for a search that does not end or for an access
  through a NULL pointer. Messages are left out.
\<close>

section \<open>State\<close>

abbreviation (input) EIO :: int where "EIO \<equiv> 5"
abbreviation (input) ENOMSG :: int where "ENOMSG \<equiv> 42"
abbreviation (input) CMD_RET_USAGE :: int where "CMD_RET_USAGE \<equiv> - 1"

definition H_PROGRAMMATIC :: int where "H_PROGRAMMATIC = 512"

datatype env_valid = ENV_INVALID | ENV_VALID | ENV_REDUND

text \<open>
  What is fixed: the hooks of the table, the allocator, \<open>CONFIG_ENV_APPEND\<close>, \<open>ENV_SIZE\<close>, the default
  environment, the choice of the checksum table, \<open>CONFIG_SYS_REDUNDAND_ENVIRONMENT\<close>, and the address of
  a device tree in the blob list if there is one.
\<close>

record env_config =
  ec_hooks :: env_hooks
  ec_malloc :: allocator
  ec_append :: bool
  ec_size :: nat
  ec_default_environment :: "u8 list"
  ec_dynamic :: bool
  ec_redundant :: bool
  ec_fdt_addr :: "u32 option"

text \<open>
  What changes: the table \<open>env_htab\<close>, \<open>env_id\<close>, the flags \<open>GD_FLG_ENV_READY\<close> and \<open>GD_FLG_ENV_DEFAULT\<close>, the
  field \<open>env_valid\<close> and the memory at \<open>env_addr\<close> of the global data, and the serial number \<open>env_flags\<close>.
\<close>

record env_state =
  es_htab :: hsearch_data
  es_id :: u32
  es_ready :: bool
  es_default :: bool
  es_valid :: env_valid
  es_addr :: memory
  es_serial :: u8

record env_image =
  ei_crc :: u32
  ei_flags :: u8
  ei_data :: "u8 list"

definition env_get_id :: "env_state \<Rightarrow> u32" where "env_get_id st = es_id st"

definition env_inc_id :: "env_state \<Rightarrow> env_state" where "env_inc_id st = st\<lparr>es_id := es_id st + 1\<rparr>"

section \<open>Setting a variable\<close>

text \<open>
  The options in front of the name; \<open>argv\<close> starts behind the name of the command, and a NULL in it is
  None. The result is the usage error, or the arguments left with their number and the flags.
\<close>

fun env_set_options :: "nat \<Rightarrow> cstr option list \<Rightarrow> int \<Rightarrow> (nat \<times> cstr option list \<times> int) option" where
  "env_set_options argc (Some (c # opts) # argv) env_flag =
     (if argc > 1 \<and> c = 45 then
        if \<forall>o1\<in>set opts. o1 = 102 then env_set_options (argc - 1) argv (if opts \<noteq> [] then env_flag OR H_FORCE else env_flag)
        else None
      else Some (argc, Some (c # opts) # argv, env_flag))"
| "env_set_options argc argv env_flag = Some (argc, argv, env_flag)"

text \<open>The values joined by spaces, as the copy loop writes them.\<close>

definition join_values :: "cstr list \<Rightarrow> cstr" where
  "join_values vs = butlast (concat (map (\<lambda>v. v @ [32]) vs))"

definition env_do_env_set ::
  "env_config \<Rightarrow> nat \<Rightarrow> cstr option list \<Rightarrow> int \<Rightarrow> env_state \<Rightarrow> (int \<times> env_state) option" where
  "env_do_env_set cfg argc0 argv0 env_flag0 st =
     (case env_set_options argc0 argv0 env_flag0 of
        None \<Rightarrow> Some (CMD_RET_USAGE, st)
      | Some (argc, argv, env_flag) \<Rightarrow>
          case argv of
            Some name # values \<Rightarrow>
              if 61 \<in> set name then Some (1, st)
              else
                let st1 = env_inc_id st
                in if argc < 3 \<or> hd values = None then
                     map_option (\<lambda>(rc, err, htab). (if rc \<noteq> 0 \<and> rc \<noteq> - ENOENT then 1 else 0, st1\<lparr>es_htab := htab\<rparr>))
                       (hdelete_r (ec_hooks cfg) name (es_htab st1) env_flag)
                   else
                     let vs = map the (take (argc - 2) values)
                     in if \<not> ec_malloc cfg (\<Sum>v\<leftarrow>vs. length v + 1) then Some (1, st1)
                        else map_option (\<lambda>(ret, ep, err, htab). (if ep = None then 1 else 0, st1\<lparr>es_htab := htab\<rparr>))
                          (hsearch_r (ec_hooks cfg) name (Some (join_values vs)) ENV_ENTER (es_htab st1) env_flag)
          | _ \<Rightarrow> None)"

definition env_set :: "env_config \<Rightarrow> cstr \<Rightarrow> cstr option \<Rightarrow> env_state \<Rightarrow> (int \<times> env_state) option" where
  "env_set cfg varname varvalue st =
     (if \<not> es_ready st then Some (1, st)
      else if varvalue = None \<or> varvalue = Some []
      then env_do_env_set cfg 2 [Some varname, varvalue, None] H_PROGRAMMATIC st
      else env_do_env_set cfg 3 [Some varname, varvalue, None] H_PROGRAMMATIC st)"

definition env_set_ulong :: "env_config \<Rightarrow> cstr \<Rightarrow> u32 \<Rightarrow> env_state \<Rightarrow> (int \<times> env_state) option" where
  "env_set_ulong cfg varname value st = env_set cfg varname (Some (simple_itoa value)) st"

text \<open>The text \<open>sprintf\<close> leaves in a local buffer of the given size.\<close>

definition local_sprintf :: "nat \<Rightarrow> cstr \<Rightarrow> va_arg list \<Rightarrow> memory \<Rightarrow> cstr option" where
  "local_sprintf sz fmt args m = map_option (\<lambda>(n, m1). mem_text sz m1 0) (sprintf False m 0 fmt args)"

definition env_set_hex :: "env_config \<Rightarrow> cstr \<Rightarrow> u32 \<Rightarrow> env_state \<Rightarrow> (int \<times> env_state) option" where
  "env_set_hex cfg varname value st =
     Option.bind (local_sprintf 17 [37, 108, 120] [ArgInt value] (\<lambda>a. 0)) (\<lambda>str. env_set cfg varname (Some str) st)"

section \<open>Reading a variable\<close>

text \<open>
  The linear environment is the memory from its start, \<open>sz\<close> is \<open>CONFIG_ENV_SIZE\<close>. The first loop finds the
  end of an entry.
\<close>

function linear_end :: "nat \<Rightarrow> memory \<Rightarrow> nat \<Rightarrow> nat option" where
  "linear_end sz env e = (if env e = 0 then Some e else if e \<ge> sz then None else linear_end sz env (e + 1))"
  by pat_completeness auto
termination
  by (relation "measure (\<lambda>(sz, env, e). sz - e)") auto

declare linear_end.simps [simp del]

lemma linear_end_bounds: "linear_end sz env e = Some e' \<Longrightarrow> e \<le> e' \<and> env e' = 0 \<and> (env e \<noteq> 0 \<longrightarrow> e < sz \<and> e < e')"
proof (induction sz env e rule: linear_end.induct)
  case (1 sz env e)
  then show ?case
    by (subst (asm) (2) linear_end.simps) (fastforce split: if_splits)
qed

text \<open>
  The return value and the bytes written to the buffer of \<open>len\<close> bytes, where \<open>len\<close> is not 0.
\<close>

function linear_loop :: "nat \<Rightarrow> memory \<Rightarrow> cstr \<Rightarrow> nat \<Rightarrow> nat \<Rightarrow> int \<times> u8 list" where
  "linear_loop sz env name len p =
     (if env p = 0 then (- 1, [])
      else case linear_end sz env p of
        None \<Rightarrow> (- 1, [])
      | Some e \<Rightarrow>
          if map (\<lambda>i. env (p + i)) [0..<length name] \<noteq> name \<or> env (p + length name) \<noteq> 61
          then linear_loop sz env name len (e + 1)
          else
            let value = p + length name + 1; res = e - value;
                buf = map (\<lambda>i. env (value + i)) [0..<min len (res + 1)]
            in (int res, if len \<le> res then buf[len - 1 := 0] else buf))"
  by pat_completeness auto
termination
  by (relation "measure (\<lambda>(sz, env, name, len, p). sz - p)") (auto dest: linear_end_bounds)

declare linear_loop.simps [simp del]

definition env_get_from_linear :: "nat \<Rightarrow> memory \<Rightarrow> cstr option \<Rightarrow> nat \<Rightarrow> int \<times> u8 list" where
  "env_get_from_linear sz env name len =
     (case name of
        None \<Rightarrow> (- 1, [])
      | Some n \<Rightarrow> if n = [] then (- 1, []) else linear_loop sz env n len 0)"

text \<open>The default environment as memory.\<close>

definition list_memory :: "u8 list \<Rightarrow> memory" where
  "list_memory bs = (\<lambda>i. if i < length bs then bs ! i else 0)"

definition env_config_size :: "env_config \<Rightarrow> nat" where
  "env_config_size cfg = ec_size cfg + (if ec_redundant cfg then 5 else 4)"

definition env_get_f :: "env_config \<Rightarrow> env_state \<Rightarrow> cstr option \<Rightarrow> nat \<Rightarrow> int \<times> u8 list" where
  "env_get_f cfg st name len =
     env_get_from_linear (env_config_size cfg)
       (if es_valid st = ENV_INVALID then list_memory (ec_default_environment cfg) else es_addr st) name len"

text \<open>The field \<open>env_buf\<close> of the global data has 32 bytes.\<close>

definition ENV_BUF_SIZE :: nat where "ENV_BUF_SIZE = 32"

definition cstr_of :: "u8 list \<Rightarrow> cstr" where
  "cstr_of bs = takeWhile (\<lambda>c. c \<noteq> 0) bs"

definition env_get :: "env_config \<Rightarrow> env_state \<Rightarrow> cstr \<Rightarrow> cstr option option" where
  "env_get cfg st name =
     (if es_ready st then
        map_option (\<lambda>(ret, ep, err, htab).
          case ep of None \<Rightarrow> None | Some idx \<Rightarrow> ee_data (en_entry (ht_node htab idx)))
          (hsearch_r (ec_hooks cfg) name None ENV_FIND (es_htab st) 0)
      else case env_get_f cfg st (Some name) ENV_BUF_SIZE of
        (ret, buf) \<Rightarrow> Some (if ret \<ge> 0 then Some (cstr_of buf) else None))"

definition from_env :: "env_config \<Rightarrow> env_state \<Rightarrow> cstr \<Rightarrow> cstr option option" where
  "from_env cfg st envvar = env_get cfg st envvar"

definition env_get_hex :: "env_config \<Rightarrow> env_state \<Rightarrow> cstr \<Rightarrow> u32 \<Rightarrow> u32 option" where
  "env_get_hex cfg st varname default_val =
     map_option (\<lambda>s. case s of
         None \<Rightarrow> default_val
       | Some t \<Rightarrow> case hextoul t of (value, endp) \<Rightarrow> if length endp = length t then default_val else value)
       (env_get cfg st varname)"

definition env_get_ulong :: "env_config \<Rightarrow> env_state \<Rightarrow> cstr \<Rightarrow> u32 \<Rightarrow> u32 \<Rightarrow> u32 option" where
  "env_get_ulong cfg st name base default_val =
     map_option (\<lambda>s. case s of None \<Rightarrow> default_val | Some t \<Rightarrow> fst (simple_strtoul t base)) (env_get cfg st name)"

definition env_get_yesno :: "env_config \<Rightarrow> env_state \<Rightarrow> cstr \<Rightarrow> int option" where
  "env_get_yesno cfg st var =
     map_option (\<lambda>s. case s of
         None \<Rightarrow> - 1
       | Some t \<Rightarrow> if char_at t 0 \<in> {49, 121, 89, 116, 84} then 1 else 0)
       (env_get cfg st var)"

definition env_get_autostart :: "env_config \<Rightarrow> env_state \<Rightarrow> bool option" where
  "env_get_autostart cfg st = map_option (\<lambda>r. r = 1) (env_get_yesno cfg st [97, 117, 116, 111, 115, 116, 97, 114, 116])"

definition env_get_default_into :: "env_config \<Rightarrow> cstr \<Rightarrow> nat \<Rightarrow> int \<times> u8 list" where
  "env_get_default_into cfg name len =
     env_get_from_linear (env_config_size cfg) (list_memory (ec_default_environment cfg)) (Some name) len"

definition env_get_default :: "env_config \<Rightarrow> cstr \<Rightarrow> cstr option" where
  "env_get_default cfg name =
     (case env_get_default_into cfg name ENV_BUF_SIZE of (ret, buf) \<Rightarrow> if ret \<ge> 0 then Some (cstr_of buf) else None)"

section \<open>Ethernet addresses\<close>

fun string_to_enetaddr_loop :: "nat \<Rightarrow> cstr option \<Rightarrow> u8 list" where
  "string_to_enetaddr_loop 0 addr = []"
| "string_to_enetaddr_loop (Suc n) None = 0 # string_to_enetaddr_loop n None"
| "string_to_enetaddr_loop (Suc n) (Some s) =
     (case hextoul s of (v, e) \<Rightarrow> ucast v # string_to_enetaddr_loop n (Some (if e \<noteq> [] then tl e else e)))"

definition string_to_enetaddr :: "cstr option \<Rightarrow> u8 list" where
  "string_to_enetaddr addr = string_to_enetaddr_loop 6 addr"

definition is_zero_ethaddr :: "u8 list \<Rightarrow> bool" where
  "is_zero_ethaddr addr \<longleftrightarrow> addr ! 0 OR addr ! 1 OR addr ! 2 OR addr ! 3 OR addr ! 4 OR addr ! 5 = 0"

definition is_multicast_ethaddr :: "u8 list \<Rightarrow> bool" where
  "is_multicast_ethaddr addr \<longleftrightarrow> 0x01 AND addr ! 0 \<noteq> 0"

definition is_valid_ethaddr :: "u8 list \<Rightarrow> bool" where
  "is_valid_ethaddr addr \<longleftrightarrow> \<not> is_multicast_ethaddr addr \<and> \<not> is_zero_ethaddr addr"

definition eth_env_get_enetaddr :: "env_config \<Rightarrow> env_state \<Rightarrow> cstr \<Rightarrow> (bool \<times> u8 list) option" where
  "eth_env_get_enetaddr cfg st name =
     map_option (\<lambda>s. let enetaddr = string_to_enetaddr s in (is_valid_ethaddr enetaddr, enetaddr)) (env_get cfg st name)"

text \<open>The buffer has 18 bytes; the address stands in memory behind it.\<close>

definition eth_env_set_enetaddr :: "env_config \<Rightarrow> cstr \<Rightarrow> u8 list \<Rightarrow> env_state \<Rightarrow> (int \<times> env_state) option" where
  "eth_env_set_enetaddr cfg name enetaddr st =
     Option.bind (eth_env_get_enetaddr cfg st name) (\<lambda>(valid, old).
       if valid then Some (- EEXIST, st)
       else Option.bind (local_sprintf 18 [37, 112, 77] [ArgPtr 18] (\<lambda>a. if 18 \<le> a \<and> a < 24 then enetaddr ! (a - 18) else 0))
         (\<lambda>buf. env_set cfg name (Some buf) st))"

section \<open>Loading and saving\<close>

definition env_update_fdt_addr_from_bloblist :: "env_config \<Rightarrow> env_state \<Rightarrow> (int \<times> env_state) option" where
  "env_update_fdt_addr_from_bloblist cfg st =
     (case ec_fdt_addr cfg of
        None \<Rightarrow> Some (0, st)
      | Some a \<Rightarrow> env_set_hex cfg [102, 100, 116, 95, 97, 100, 100, 114] a st)"

definition env_set_default :: "env_config \<Rightarrow> int \<Rightarrow> env_state \<Rightarrow> env_state option" where
  "env_set_default cfg flags0 st =
     Option.bind (himport_r (ec_hooks cfg) (ec_malloc cfg) (ec_append cfg) (es_htab st) (ec_default_environment cfg) 0
         (flags0 OR H_DEFAULT) False []) (\<lambda>(ret, err, htab).
       let st1 = st\<lparr>es_htab := htab\<rparr>
       in if ret = 0 then Some st1
          else map_option snd (env_update_fdt_addr_from_bloblist cfg (st1\<lparr>es_ready := True, es_default := True\<rparr>)))"

definition env_set_default_vars :: "env_config \<Rightarrow> cstr list \<Rightarrow> int \<Rightarrow> env_state \<Rightarrow> (int \<times> env_state) option" where
  "env_set_default_vars cfg vars flags0 st =
     map_option (\<lambda>(ret, err, htab). (ret, st\<lparr>es_htab := htab\<rparr>))
       (himport_r (ec_hooks cfg) (ec_malloc cfg) (ec_append cfg) (es_htab st) (ec_default_environment cfg) 0
         ((if vars = [] then flags0 OR H_NOCLEAR else flags0) OR H_DEFAULT) False vars)"

text \<open>The image stands at the address \<open>buf\<close>; its data follow the checksum and, in a redundant build, the serial number.\<close>

definition image_data_addr :: "env_config \<Rightarrow> ptr \<Rightarrow> ptr" where
  "image_data_addr cfg buf = buf + (if ec_redundant cfg then 5 else 4)"

definition image_crc_ok :: "env_config \<Rightarrow> ptr \<Rightarrow> env_image \<Rightarrow> bool" where
  "image_crc_ok cfg buf ep \<longleftrightarrow> crc32 (ec_dynamic cfg) 0 (image_data_addr cfg buf) (ei_data ep) = ei_crc ep"

definition env_import :: "env_config \<Rightarrow> ptr \<Rightarrow> env_image \<Rightarrow> bool \<Rightarrow> int \<Rightarrow> env_state \<Rightarrow> (int \<times> env_state) option" where
  "env_import cfg buf ep check flags st =
     (if check \<and> \<not> image_crc_ok cfg buf ep then map_option (\<lambda>st1. (- ENOMSG, st1)) (env_set_default cfg 0 st)
      else Option.bind (himport_r (ec_hooks cfg) (ec_malloc cfg) (ec_append cfg) (es_htab st) (ei_data ep) 0 flags False [])
        (\<lambda>(ret, err, htab).
          let st1 = st\<lparr>es_htab := htab\<rparr>
          in if ret \<noteq> 0 then env_update_fdt_addr_from_bloblist cfg (st1\<lparr>es_ready := True\<rparr>)
             else map_option (\<lambda>st2. (- EIO, st2)) (env_set_default cfg 0 st1)))"

text \<open>An image that could not be read is None.\<close>

definition env_check_redund ::
  "env_config \<Rightarrow> ptr \<Rightarrow> env_image option \<Rightarrow> ptr \<Rightarrow> env_image option \<Rightarrow> env_state \<Rightarrow> int \<times> env_state" where
  "env_check_redund cfg buf1 image1 buf2 image2 st =
     (if image1 = None \<and> image2 = None then (- EIO, st)
      else
        let crc1_ok = (case image1 of None \<Rightarrow> False | Some e \<Rightarrow> image_crc_ok cfg buf1 e);
            crc2_ok = (case image2 of None \<Rightarrow> False | Some e \<Rightarrow> image_crc_ok cfg buf2 e);
            flags1 = ei_flags (the image1); flags2 = ei_flags (the image2)
        in if \<not> crc1_ok \<and> \<not> crc2_ok then (- ENOMSG, st\<lparr>es_valid := ENV_INVALID\<rparr>)
           else if crc1_ok \<and> \<not> crc2_ok then (0, st\<lparr>es_valid := ENV_VALID\<rparr>)
           else if \<not> crc1_ok \<and> crc2_ok then (0, st\<lparr>es_valid := ENV_REDUND\<rparr>)
           else if flags1 = 255 \<and> flags2 = 0 then (0, st\<lparr>es_valid := ENV_REDUND\<rparr>)
           else if flags2 = 255 \<and> flags1 = 0 then (0, st\<lparr>es_valid := ENV_VALID\<rparr>)
           else if flags1 > flags2 then (0, st\<lparr>es_valid := ENV_VALID\<rparr>)
           else if flags2 > flags1 then (0, st\<lparr>es_valid := ENV_REDUND\<rparr>)
           else (0, st\<lparr>es_valid := ENV_VALID\<rparr>))"

definition env_import_redund ::
  "env_config \<Rightarrow> ptr \<Rightarrow> env_image option \<Rightarrow> ptr \<Rightarrow> env_image option \<Rightarrow> int \<Rightarrow> env_state \<Rightarrow> (int \<times> env_state) option" where
  "env_import_redund cfg buf1 image1 buf2 image2 flags st =
     (case env_check_redund cfg buf1 image1 buf2 image2 st of
        (ret, st1) \<Rightarrow>
          if ret = - EIO then map_option (\<lambda>st2. (- EIO, st2)) (env_set_default cfg 0 st1)
          else if ret = - ENOMSG then map_option (\<lambda>st2. (- ENOMSG, st2)) (env_set_default cfg 0 st1)
          else
            let (buf, ep) = (if es_valid st1 = ENV_VALID then (buf1, the image1) else (buf2, the image2))
            in env_import cfg buf ep False flags (st1\<lparr>es_serial := ei_flags ep\<rparr>))"

text \<open>
  The buffer of \<open>ENV_SIZE\<close> bytes has been cleared. A text longer than the buffer, which is possible (see
  \<open>hexport_r\<close>), would go beyond it; the image has the part in the buffer.
\<close>

definition env_export :: "env_config \<Rightarrow> ptr \<Rightarrow> env_image \<Rightarrow> env_state \<Rightarrow> int \<times> env_image \<times> env_state" where
  "env_export cfg buf env_out st =
     (case hexport_r (ec_hooks cfg) (ec_malloc cfg) (es_htab st) 0 0 True (ec_size cfg) [] of
        Inl err \<Rightarrow> (1, env_out, st)
      | Inr (len, exported) \<Rightarrow>
          let data = take (ec_size cfg) (exported @ replicate (ec_size cfg - length exported) 0);
              out1 = env_out\<lparr>ei_data := data, ei_crc := crc32 (ec_dynamic cfg) 0 (image_data_addr cfg buf) data\<rparr>
          in if ec_redundant cfg then (0, out1\<lparr>ei_flags := es_serial st + 1\<rparr>, st\<lparr>es_serial := es_serial st + 1\<rparr>)
             else (0, out1, st))"

section \<open>Completing names\<close>

lemma hmatch_loop_bounds: "hmatch_loop htab m idx \<noteq> 0 \<Longrightarrow> idx \<le> hmatch_loop htab m idx \<and> hmatch_loop htab m idx < unat (ht_size htab)"
proof (induction htab m idx rule: hmatch_loop.induct)
  case (1 htab m idx)
  let ?node = "the (ht_table htab) ! idx"
  have unfold: "hmatch_loop htab m idx =
     (if idx < unat (ht_size htab) then
        if en_used ?node \<le> 0 \<or> \<not> str_prefix m (the (ee_key (en_entry ?node))) then hmatch_loop htab m (idx + 1) else idx
      else 0)"
    by (subst hmatch_loop.simps) (simp add: Let_def)
  consider "\<not> idx < unat (ht_size htab)" | "hmatch_loop htab m idx = idx" "idx < unat (ht_size htab)"
    | "hmatch_loop htab m idx = hmatch_loop htab m (idx + 1)" "idx < unat (ht_size htab)"
      "en_used ?node \<le> 0 \<or> \<not> str_prefix m (the (ee_key (en_entry ?node)))"
    using unfold by (auto split: if_splits)
  then show ?case
  proof cases
    case 1
    then show ?thesis using unfold \<open>hmatch_loop htab m idx \<noteq> 0\<close> by simp
  next
    case 2
    then show ?thesis by simp
  next
    case 3
    then have "idx + 1 \<le> hmatch_loop htab m (idx + 1) \<and> hmatch_loop htab m (idx + 1) < unat (ht_size htab)"
      using 1 by fastforce
    then show ?thesis using 3(1) by simp
  qed
qed

lemma hmatch_loop_step:
  "0 < hmatch_loop htab m (Suc idx) \<Longrightarrow> unat (ht_size htab) - hmatch_loop htab m (Suc idx) < unat (ht_size htab) - idx"
  using hmatch_loop_bounds [of htab m "Suc idx"] by auto

text \<open>
  The loop that collects the matches: \<open>idx\<close> is where the search goes on and \<open>bufsz\<close> the room that is left
  for the strings. The result is the index at which it stopped, 0 at the end of the table, and the
  strings found.
\<close>

function complete_loop :: "hsearch_data \<Rightarrow> cstr \<Rightarrow> int \<Rightarrow> bool \<Rightarrow> nat \<Rightarrow> int \<Rightarrow> cstr list \<Rightarrow> nat \<times> cstr list" where
  "complete_loop htab var maxv dollar_comp idx bufsz found =
     (let idx1 = fst (hmatch_r var idx htab)
      in if idx1 = 0 then (0, found)
         else
           let key = the (ee_key (the (fst (snd (hmatch_r var idx htab))))); vallen = int (length key) + 1
           in if int (length found) \<ge> maxv - 2 \<or> bufsz < vallen + (if dollar_comp then 3 else 0) then (idx1, found)
              else complete_loop htab var maxv dollar_comp idx1 (bufsz - (if dollar_comp then 3 else 0) - vallen)
                     (found @ [if dollar_comp then [36, 123] @ key @ [125] else key]))"
  by pat_completeness auto
termination
  by (relation "measure (\<lambda>(htab, var, maxv, dollar_comp, idx, bufsz, found). unat (ht_size htab) - idx)")
    (auto simp: hmatch_r_def Let_def split: if_splits intro: hmatch_loop_step)

declare complete_loop.simps [simp del]

text \<open>The strings in \<open>cmdv\<close>, whose number is returned.\<close>

definition env_complete :: "hsearch_data \<Rightarrow> cstr \<Rightarrow> int \<Rightarrow> int \<Rightarrow> bool \<Rightarrow> cstr list" where
  "env_complete htab var0 maxv bufsz dollar_comp =
     (if dollar_comp \<and> (char_at var0 0 \<noteq> 36 \<or> char_at var0 1 \<noteq> 123 \<and> char_at var0 1 \<noteq> 0) then []
      else
        let var = (if dollar_comp then drop 2 var0 else var0)
        in case complete_loop htab var maxv dollar_comp 0 bufsz [] of
             (idx, found) \<Rightarrow>
               qsort strcmp_compar found @
               (if idx \<noteq> 0 then [if dollar_comp then [36, 123, 46, 46, 46, 125] else [46, 46, 46]] else []))"

section \<open>Variables from the device tree\<close>

text \<open>
  The device tree is a parameter: the properties of the node at a path, with their values, in their
  order, or None when there is no such node.
\<close>

fun env_set_all :: "env_config \<Rightarrow> (cstr \<times> cstr) list \<Rightarrow> env_state \<Rightarrow> env_state option" where
  "env_set_all cfg [] st = Some st"
| "env_set_all cfg ((name, val) # props) st =
     Option.bind (env_set cfg name (Some val) st) (\<lambda>(rc, st1). env_set_all cfg props st1)"

definition env_import_fdt :: "env_config \<Rightarrow> (cstr \<Rightarrow> (cstr \<times> cstr) list option) \<Rightarrow> env_state \<Rightarrow> env_state option" where
  "env_import_fdt cfg node_properties st =
     Option.bind (env_get cfg st [101, 110, 118, 95, 102, 100, 116, 95, 112, 97, 116, 104]) (\<lambda>path.
       case path of
         None \<Rightarrow> Some st
       | Some p \<Rightarrow>
           if p = [] then Some st
           else case node_properties p of None \<Rightarrow> Some st | Some props \<Rightarrow> env_set_all cfg props st)"

end
