(* ===== verification/Env_Common_Props.thy ===== *)
theory Env_Common_Props
  imports Env_Common
begin

text \<open>
  What the environment does with variables: setting and reading them as text and as numbers, saving and
  loading them, choosing between two copies, and reading them from a stored image before the table exists.
\<close>

section \<open>A store of variables\<close>

text \<open>
  What the functions for numbers rely on: setting a variable to a text that is not empty either succeeds
  and changes just that variable, or fails and changes none.
\<close>

locale variable_store =
  fixes inv :: "'s \<Rightarrow> bool" and name_ok :: "cstr \<Rightarrow> bool" and get :: "'s \<Rightarrow> cstr \<Rightarrow> cstr option"
    and put :: "cstr \<Rightarrow> cstr \<Rightarrow> 's \<Rightarrow> (int \<times> 's) option"
  assumes put_law: "inv s \<Longrightarrow> name_ok n \<Longrightarrow> v \<noteq> [] \<Longrightarrow>
    \<exists>rc s'. put n v s = Some (rc, s') \<and> inv s' \<and> (rc = 0 \<and> get s' = (get s)(n \<mapsto> v) \<or> rc = 1 \<and> get s' = get s)"
begin

lemma put_parsed:
  assumes "inv s" "name_ok n" "shown x \<noteq> []" "parse (shown x) = x"
  shows "\<exists>rc s'. put n (shown x) s = Some (rc, s') \<and> inv s' \<and>
    (rc = 0 \<and> map_option parse (get s' n) = Some x \<or> rc = 1 \<and> get s' = get s)"
  using put_law [OF assms(1-3)] assms(4) by fastforce

end

section \<open>Reading and setting\<close>

definition env_ready :: "env_config \<Rightarrow> env_state \<Rightarrow> bool" where
  "env_ready cfg st \<longleftrightarrow> es_ready st \<and> wf_htab (es_htab st) \<and> (\<forall>s. hk_strdup_ok (ec_hooks cfg) s) \<and> (\<forall>n. ec_malloc cfg n)"

text \<open>A name that is taken as one: it has no \<open>=\<close> and does not look like an option.\<close>

definition settable_name :: "cstr \<Rightarrow> bool" where
  "settable_name n \<longleftrightarrow> 61 \<notin> set n \<and> char_at n 0 \<noteq> 45"

abbreviation env_map :: "env_state \<Rightarrow> cstr \<Rightarrow> cstr option" where
  "env_map st \<equiv> ht_map (es_htab st)"

lemma env_get_ready: "es_ready st \<Longrightarrow> wf_htab (es_htab st) \<Longrightarrow> env_get cfg st name = Some (env_map st name)"
proof (cases "env_map st name")
  case None
  then show "es_ready st \<Longrightarrow> wf_htab (es_htab st) \<Longrightarrow> ?thesis" by (simp add: env_get_def find_absent)
next
  case (Some v)
  assume st: "es_ready st" "wf_htab (es_htab st)"
  obtain i where i: "i \<in> {1..ht_n (es_htab st)}" "ht_data (es_htab st) i = Some v"
    "hsearch_r (ec_hooks cfg) name None ENV_FIND (es_htab st) 0 = Some (int i, Some (of_nat i), 0, es_htab st)"
    by (rule find_present [OF st(2) Some])
  then have "ee_data (en_entry (ht_node (es_htab st) (of_nat i))) = Some v"
    using slot_word_of_nat [OF st(2) i(1)] by (simp add: ht_node_def ht_data_def)
  then show ?thesis using st(1) i(3) Some by (simp add: env_get_def)
qed

lemma enter_result:
  assumes "wf_htab htab" "\<forall>s. hk_strdup_ok hooks s"
  shows "\<exists>ret ep err htab'. hsearch_r hooks k (Some v) ENV_ENTER htab flag = Some (ret, ep, err, htab') \<and> wf_htab htab' \<and>
    (ep = None \<and> ht_map htab' = ht_map htab \<or> ep \<noteq> None \<and> ht_map htab' = (ht_map htab)(k \<mapsto> v))"
proof (cases "ht_map htab k")
  case None
  then show ?thesis
    by (rule enter_absent [OF assms(1), of k hooks v flag]) (use assms(2) in auto)
next
  case (Some w)
  then show ?thesis
    by (rule enter_present [OF assms(1), of k w hooks v flag]) (use assms(2) in auto)
qed

lemma plain_options: "settable_name n \<Longrightarrow> env_set_options argc (Some n # argv) flag = Some (argc, Some n # argv, flag)"
  by (cases n) (auto simp: settable_name_def char_at_def)

lemma env_set_value:
  assumes "env_ready cfg st" "settable_name n" "v \<noteq> []"
  shows "\<exists>rc st'. env_set cfg n (Some v) st = Some (rc, st') \<and> env_ready cfg st' \<and>
    (rc = 0 \<and> env_map st' = (env_map st)(n \<mapsto> v) \<or> rc = 1 \<and> env_map st' = env_map st)"
proof -
  have r: "es_ready st" "wf_htab (es_htab st)" "\<forall>s. hk_strdup_ok (ec_hooks cfg) s" "\<forall>n. ec_malloc cfg n"
    using assms(1) by (simp_all add: env_ready_def)
  obtain ret ep err htab' where h: "hsearch_r (ec_hooks cfg) n (Some v) ENV_ENTER (es_htab st) H_PROGRAMMATIC = Some (ret, ep, err, htab')"
      "wf_htab htab'" "ep = None \<and> ht_map htab' = env_map st \<or> ep \<noteq> None \<and> ht_map htab' = (env_map st)(n \<mapsto> v)"
    using enter_result [OF r(2,3), of n v H_PROGRAMMATIC] by (elim exE conjE) (rule that)
  have eq: "61 \<notin> set n" using assms(2) by (simp add: settable_name_def)
  have "env_set cfg n (Some v) st = Some (if ep = None then 1 else 0, (env_inc_id st)\<lparr>es_htab := htab'\<rparr>)"
    using r assms(3) h(1) eq
    by (simp add: env_set_def env_do_env_set_def plain_options [OF assms(2)] join_values_def env_inc_id_def Let_def)
  moreover have "env_ready cfg ((env_inc_id st)\<lparr>es_htab := htab'\<rparr>)" using h(2) r by (simp add: env_ready_def env_inc_id_def)
  moreover have "env_map ((env_inc_id st)\<lparr>es_htab := htab'\<rparr>) = ht_map htab'" by simp
  ultimately show ?thesis using h(3) by (elim disjE conjE) auto
qed


text \<open>The environment, with its configuration, is such a store.\<close>

type_synonym env_store = "env_config \<times> env_state"

definition store_get :: "env_store \<Rightarrow> cstr \<Rightarrow> cstr option" where
  "store_get s n = the (env_get (fst s) (snd s) n)"

definition store_put :: "cstr \<Rightarrow> cstr \<Rightarrow> env_store \<Rightarrow> (int \<times> env_store) option" where
  "store_put n v s = map_option (\<lambda>(rc, st). (rc, fst s, st)) (env_set (fst s) n (Some v) (snd s))"

interpretation ev: variable_store "\<lambda>s. env_ready (fst s) (snd s)" settable_name store_get store_put
proof
  fix s :: env_store and n v :: cstr
  assume "env_ready (fst s) (snd s)" "settable_name n" "v \<noteq> []"
  from env_set_value [OF this] obtain rc st' where e: "env_set (fst s) n (Some v) (snd s) = Some (rc, st')" "env_ready (fst s) st'"
      "rc = 0 \<and> env_map st' = (env_map (snd s))(n \<mapsto> v) \<or> rc = 1 \<and> env_map st' = env_map (snd s)"
    by (elim exE conjE) (rule that)
  have g: "store_get (fst s, st1) = env_map st1" if "env_ready (fst s) st1" for st1
    using that by (auto simp: store_get_def env_get_ready env_ready_def fun_eq_iff)
  have "store_get (fst s, st') = env_map st'" "store_get s = env_map (snd s)"
    using g e(2) g [of "snd s"] \<open>env_ready (fst s) (snd s)\<close> by simp_all
  then have "rc = 0 \<and> store_get (fst s, st') = (store_get s)(n \<mapsto> v) \<or> rc = 1 \<and> store_get (fst s, st') = store_get s"
    using e(3) by simp
  then show "\<exists>rc s'. store_put n v s = Some (rc, s') \<and> env_ready (fst s') (snd s') \<and>
      (rc = 0 \<and> store_get s' = (store_get s)(n \<mapsto> v) \<or> rc = 1 \<and> store_get s' = store_get s)"
    using e(1,2) by (intro exI [of _ rc] exI [of _ "(fst s, st')"]) (simp add: store_put_def)
qed

section \<open>Numbers\<close>

lemma mem_text_cstr: "is_cstr m p t \<Longrightarrow> length t < n \<Longrightarrow> mem_text n m p = t"
proof (induction t arbitrary: p n)
  case Nil
  then show ?case by (cases n) (auto simp: is_cstr_def)
next
  case (Cons c t)
  then obtain k where n: "n = Suc k" "length t < k" by (cases n) auto
  have "m p = c" "c \<noteq> 0" using Cons.prems(1) by (auto simp: is_cstr_def dest!: spec [of _ 0])
  moreover have "is_cstr m (p + 1) t" using Cons.prems(1) by (force simp: is_cstr_def dest: spec [of _ "Suc i" for i])
  ultimately show ?case using n Cons.IH [of "p + 1" k] by simp
qed

lemma hex_text: "local_sprintf 17 [37, 108, 120] [ArgInt num] (\<lambda>a. 0) =
  Some (map (digit_char 32) (rev (digits_of 16 (unat num))))"
proof -
  define t where "t = map (digit_char 32) (rev (digits_of 16 (unat num)))"
  have small: "word_of_int SMALL = (32 :: u8)" "SMALL AND SIGN = 0" by (simp_all add: SMALL_def SIGN_def)
  have "unat num < 16 ^ 8" using unat_u32_less [of num] by simp
  then have len: "length t \<le> 8" using length_digits_of [of 16 8 "unat num"] by (simp add: t_def)
  have "\<forall>c\<in>set t. c \<noteq> 0" using digits_of_less [of 16] digit_char_ne_0 [of _ 32] by (fastforce simp: t_def)
  moreover have "unat (ucast num :: u64) = unat num" by (rule unat_ucast_small) (rule less_trans [OF unsigned_less], simp)
  then have "number_text (ucast num) 16 (- 1) (- 1) SMALL = t"
    using plain_number_text [of 16 SMALL "ucast num"] by (simp add: t_def small)
  then have "format_spec False 0 [108, 120] [ArgInt num] ob = Some ([], [], fold addch t ob)" for ob
    by (simp add: format_spec_def format_width_def format_precision_def char_at_def is_digit_def format_qualifier_def
        format_conversion_def flag_char_def format_integer_def fetch_number_def number_eq small Let_def)
  ultimately obtain m1 where "vsnprintf False (\<lambda>a. 0) 0 0x7fffffff [37, 108, 120] [ArgInt num] = Some (int (length t), m1)"
      "is_cstr m1 0 t"
    using vsnprintf_one [of False 0 "[108, 120]" "[ArgInt num]" "[]" t "0x7fffffff" "\<lambda>a. 0"] len by auto
  then show ?thesis
    using mem_text_cstr [of m1 0 t 17] len by (simp add: local_sprintf_def sprintf_def vsprintf_def vsnprintf_def t_def)
qed

lemma hextoul_digits: "hextoul (map (digit_char 32) (rev (digits_of 16 (unat num)))) = (num, [])"
  using strtoul_digits(1) [of 16 32 "unat num"] by (simp add: hextoul_def)

text \<open>
  C25. A number that is set as a variable is read back: after \<open>env_set_hex\<close> by \<open>env_get_hex\<close>, and after
  \<open>env_set_ulong\<close> by \<open>env_get_ulong\<close> with base 10, whatever the default. Either the call returns 0 and this
  holds, or it returns 1 and no variable has changed.
\<close>

theorem env_numbers_round_trip:
  assumes "env_ready cfg st" "settable_name n"
  shows "(\<exists>rc st'. env_set_hex cfg n num st = Some (rc, st') \<and>
      (rc = 0 \<and> env_get_hex cfg st' n d = Some num \<or> rc = 1 \<and> (\<forall>k. env_get cfg st' k = env_get cfg st k))) \<and>
    (\<exists>rc st'. env_set_ulong cfg n num st = Some (rc, st') \<and>
      (rc = 0 \<and> env_get_ulong cfg st' n 10 d = Some num \<or> rc = 1 \<and> (\<forall>k. env_get cfg st' k = env_get cfg st k)))"
proof -
  have put: "\<exists>rc st'. env_set cfg n (Some (shown num)) st = Some (rc, st') \<and> env_ready cfg st' \<and>
      (rc = 0 \<and> (\<exists>t. env_get cfg st' n = Some (Some t) \<and> parse t = num) \<or> rc = 1 \<and> (\<forall>k. env_get cfg st' k = env_get cfg st k))"
    if "shown num \<noteq> []" "parse (shown num) = num" for shown :: "u32 \<Rightarrow> cstr" and parse
  proof -
    have "env_ready (fst (cfg, st)) (snd (cfg, st))" using assms(1) by simp
    from ev.put_parsed [of "(cfg, st)" n shown num parse, OF this assms(2) that] obtain rc s' where
        p: "store_put n (shown num) (cfg, st) = Some (rc, s')" "env_ready (fst s') (snd s')"
        "rc = 0 \<and> map_option parse (store_get s' n) = Some num \<or> rc = 1 \<and> store_get s' = store_get (cfg, st)"
      by (elim exE conjE) (rule that)
    then obtain st' where s': "s' = (cfg, st')" "env_set cfg n (Some (shown num)) st = Some (rc, st')"
      by (auto simp: store_put_def)
    have g: "env_get cfg st1 k = Some (store_get (cfg, st1) k)" if "env_ready cfg st1" for st1 k
      using that by (simp add: store_get_def env_get_ready env_ready_def)
    have "env_ready cfg st'" using p(2) s'(1) by simp
    then show ?thesis using p(3) s' g assms(1) by auto
  qed
  let ?hex = "\<lambda>x :: u32. map (digit_char 32) (rev (digits_of 16 (unat x)))"
  let ?parse = "\<lambda>t. case hextoul t of (v, e) \<Rightarrow> if length e = length t then d else v"
  have "\<exists>rc st'. env_set_hex cfg n num st = Some (rc, st') \<and>
      (rc = 0 \<and> env_get_hex cfg st' n d = Some num \<or> rc = 1 \<and> (\<forall>k. env_get cfg st' k = env_get cfg st k))"
    using put [of ?hex ?parse] by (auto simp: env_set_hex_def env_get_hex_def hex_text hextoul_digits)
  moreover have "fst (simple_strtoul (simple_itoa num) 10) = num" "simple_itoa num \<noteq> []"
    using strtoul_digits(1) [of 10 0 "unat num"] by (simp_all add: simple_itoa_digits)
  then have "\<exists>rc st'. env_set_ulong cfg n num st = Some (rc, st') \<and>
      (rc = 0 \<and> env_get_ulong cfg st' n 10 d = Some num \<or> rc = 1 \<and> (\<forall>k. env_get cfg st' k = env_get cfg st k))"
    using put [of simple_itoa "\<lambda>t. fst (simple_strtoul t 10)"] by (auto simp: env_set_ulong_def env_get_ulong_def)
  ultimately show ?thesis by blast
qed

text \<open>An environment of a few variables, for examples.\<close>

definition demo_config :: env_config where
  "demo_config = \<lparr>ec_hooks = calm_hooks, ec_malloc = (\<lambda>n. True), ec_append = False, ec_size = 16,
     ec_default_environment = [97, 61, 98, 0, 0], ec_dynamic = False, ec_redundant = True, ec_fdt_addr = None\<rparr>"

definition demo_state :: env_state where
  "demo_state = \<lparr>es_htab = table5, es_id = 1, es_ready = True, es_default = False, es_valid = ENV_VALID,
     es_addr = (\<lambda>a. 0), es_serial = 255\<rparr>"

lemma demo_ready: "env_ready demo_config demo_state" "env_map demo_state = Map.empty"
  using table5_ok by (simp_all add: env_ready_def demo_config_def demo_state_def calm_hooks_def)

theorem env_numbers_round_trip_witness:
  "\<exists>rc st'. env_set_hex demo_config [98] 0xbeef demo_state = Some (rc, st') \<and>
     (rc = 0 \<and> env_get_hex demo_config st' [98] 0 = Some 0xbeef \<or> rc = 1 \<and> env_get demo_config st' [98] = Some None)"
  using env_numbers_round_trip [of demo_config demo_state "[98]" "0xbeef" 0] demo_ready env_get_ready [of demo_state demo_config]
  by (auto simp: settable_name_def char_at_def env_ready_def)

section \<open>Setting and reading\<close>



text \<open>
  A name that starts with a dash is taken for an option of the command \<open>setenv\<close>: setting the variable
  \<open>-f\<close> to the text \<open>C37. b\<close> returns 0 but sets nothing, it deletes the variable \<open>b\<close>, by force.
\<close>

theorem env_set_dash_name:
  "env_set cfg [45, 102] (Some [98]) st =
     (if es_ready st then
        map_option (\<lambda>(rc, err, htab). (if rc \<noteq> 0 \<and> rc \<noteq> - ENOENT then 1 else 0, (env_inc_id st)\<lparr>es_htab := htab\<rparr>))
          (hdelete_r (ec_hooks cfg) [98] (es_htab st) (H_PROGRAMMATIC OR H_FORCE))
      else Some (1, st))"
  by (simp add: env_set_def env_do_env_set_def env_inc_id_def Let_def)

section \<open>Saving and loading\<close>

text \<open>The variables can be written as text: their names and values are such, and no value has a backslash.\<close>

definition storable :: "(cstr \<Rightarrow> cstr option) \<Rightarrow> bool" where
  "storable m \<longleftrightarrow> (\<forall>k v. m k = Some v \<longrightarrow> exportable_key 0 k \<and> exportable_value v \<and> 92 \<notin> set v)"

text \<open>What an image holds after a successful export.\<close>

lemma env_export_image:
  assumes "env_export cfg buf out st = (0, img, st1)"
  obtains exported where
    "hexport_r (ec_hooks cfg) (ec_malloc cfg) (es_htab st) 0 0 True (ec_size cfg) [] = Inr (fst exported, snd exported)"
    "ei_data img = take (ec_size cfg) (snd exported @ replicate (ec_size cfg - length (snd exported)) 0)"
    "image_crc_ok cfg buf img" "ec_redundant cfg \<longrightarrow> ei_flags img = es_serial st + 1 \<and> es_serial st1 = es_serial st + 1"
proof -
  obtain len exported where x: "hexport_r (ec_hooks cfg) (ec_malloc cfg) (es_htab st) 0 0 True (ec_size cfg) [] = Inr (len, exported)"
    using assms by (auto simp: env_export_def split: sum.splits)
  show thesis
    by (rule that [of "(len, exported)"]) (use assms x in \<open>auto simp: env_export_def image_crc_ok_def Let_def split: if_splits\<close>)
qed

lemma exported_fits:
  assumes "wf_htab htab" "storable (ht_map htab)" "bsize \<noteq> 0" "hexport_r hooks calloc htab 0 0 has_resp bsize [] = Inr (sz, exported)"
  shows "sz = bsize" "length exported \<le> bsize"
proof -
  have "0 \<notin> set (the (ee_data e)) \<and> 92 \<notin> set (the (ee_data e))" if e: "e \<in> set (export_list hooks htab 0 [])" for e
  proof -
    have "entry_pair e \<in> set (map entry_pair (export_list hooks htab 0 []))" using e by simp
    then have "ht_map htab (fst (entry_pair e)) = Some (snd (entry_pair e))"
      unfolding export_list_all(1) [OF assms(1)] by (simp add: case_prod_unfold)
    then show ?thesis using assms(2) by (auto simp: storable_def entry_pair_def exportable_value_def)
  qed
  then show "sz = bsize" "length exported \<le> bsize"
    using assms(3,4) export_text_length [of "export_list hooks htab 0 []" 0]
    by (auto simp: hexport_r_def Let_def split: if_splits)
qed

text \<open>
  When the variables of \<open>st\<close> can be loaded into the table of \<open>st2\<close>: names and values are ones the text
  can express, not more than the table is made for, the flags and callbacks of the loading side allow
  them, and the allocator does not fail.
\<close>

definition loadable :: "env_config \<Rightarrow> int \<Rightarrow> env_state \<Rightarrow> env_state \<Rightarrow> bool" where
  "loadable cfg flags st st2 \<longleftrightarrow> wf_htab (es_htab st) \<and> storable (env_map st) \<and> ec_size cfg \<noteq> 0 \<and>
     card (dom (env_map st)) \<le> min 512 (64 + ec_size cfg div 8) \<and>
     (\<forall>n. ec_malloc cfg n) \<and> (\<forall>s. hk_strdup_ok (ec_hooks cfg) s) \<and> \<not> ec_append cfg \<and> flags AND H_NOCLEAR = 0 \<and>
     (\<forall>k v. env_map st k = Some v \<longrightarrow> creatable (ec_hooks cfg) (ht_change_ok (es_htab st2)) flags k v) \<and>
     ec_fdt_addr cfg = None"

lemma crc32_any_address: "crc32 dynamic crc p bs = crc32 dynamic crc q bs"
  by (simp add: crc32_reference)

lemma image_crc_ok_anywhere: "image_crc_ok cfg buf img = image_crc_ok cfg buf' img"
  unfolding image_crc_ok_def by (subst crc32_any_address) (rule refl)

lemma env_export_crc_ok: "env_export cfg buf out st = (0, img, st1) \<Longrightarrow> image_crc_ok cfg buf' img"
  by (erule env_export_image) (simp add: image_crc_ok_anywhere [of cfg buf img buf'])

lemma env_import_exported:
  assumes "env_export cfg buf out st = (0, img, st1)" "loadable cfg flags st st2"
  shows "\<exists>st'. env_import cfg buf' img check flags st2 = Some (0, st') \<and> es_ready st' \<and> wf_htab (es_htab st') \<and>
    env_map st' = env_map st \<and> es_serial st' = es_serial st2"
proof -
  note l = assms(2) [unfolded loadable_def]
  obtain exported where x: "hexport_r (ec_hooks cfg) (ec_malloc cfg) (es_htab st) 0 0 True (ec_size cfg) [] = Inr (fst exported, snd exported)"
      "ei_data img = take (ec_size cfg) (snd exported @ replicate (ec_size cfg - length (snd exported)) 0)"
    by (rule env_export_image [OF assms(1)])
  have f: "fst exported = ec_size cfg" "length (snd exported) \<le> ec_size cfg"
    using exported_fits [OF _ _ _ x(1)] l by simp_all
  then have d: "ei_data img = snd exported @ replicate (ec_size cfg - length (snd exported)) 0" using x(2) by simp
  have "\<exists>htab'. himport_r (ec_hooks cfg) (ec_malloc cfg) False (es_htab st2) (ei_data img) 0 flags False [] = Some (1, 0, htab') \<and>
      wf_htab htab' \<and> ht_map htab' = env_map st"
    unfolding d
    by (rule import_of_export [where hooks = "ec_hooks cfg" and calloc = "ec_malloc cfg" and has_resp = True
          and bsize = "ec_size cfg" and sz = "ec_size cfg" and htab = "es_htab st"])
      (use x(1) f l in \<open>simp_all add: storable_def\<close>)
  then obtain htab' where "himport_r (ec_hooks cfg) (ec_malloc cfg) False (es_htab st2) (ei_data img) 0 flags False [] = Some (1, 0, htab')"
      "wf_htab htab'" "ht_map htab' = env_map st" by (elim exE conjE) (rule that)
  then show ?thesis
    using env_export_crc_ok [OF assms(1)] l by (simp add: env_import_def env_update_fdt_addr_from_bloblist_def Let_def)
qed

text \<open>
  C3. Saving the environment and loading it again restores it: \<open>env_import\<close> accepts the image that
  \<open>env_export\<close> made, at whatever address it is read back and whatever state it starts from, with or
  without the check of the checksum, returns 0, and the table then has the same variables. The names and
  values must be ones the text can express, a value without backslashes; the variables must be allowed by
  the flags and callbacks of the loading side; and the allocator must not fail.
\<close>

theorem env_save_load:
  assumes "env_export cfg buf out st = (0, img, st1)" "loadable cfg flags st st2"
  shows "\<exists>st'. env_import cfg buf' img check flags st2 = Some (0, st') \<and> es_ready st' \<and> wf_htab (es_htab st') \<and>
    env_map st' = env_map st"
  using env_import_exported [OF assms, of buf' check] by blast

text \<open>States with the one variable \<open>b\<close>, and images of them.\<close>

abbreviation blank_image :: env_image where
  "blank_image \<equiv> \<lparr>ei_crc = 0, ei_flags = 0, ei_data = []\<rparr>"

lemma demo_saved:
  assumes "map_option (\<lambda>(ret, rv, err, htab). hexport_r calm_hooks (\<lambda>n. True) htab 0 0 True 16 [])
      (hsearch_r calm_hooks [98] (Some [c]) ENV_ENTER table5 0) = Some (Inr (16, [98, 61, c, 0, 0]))"
    and "c \<noteq> 0" "c \<noteq> 92"
  obtains st img st1 where "env_map st = [[98] \<mapsto> [c]]" "es_serial st = s" "env_export demo_config 0 blank_image st = (0, img, st1)"
    "ei_data img = [98, 61, c] @ [0] @ replicate 12 0" "loadable demo_config 0 st demo_state"
    "loadable demo_config H_EXTERNAL st demo_state"
proof -
  obtain htab ret rv err where h: "hsearch_r calm_hooks [98] (Some [c]) ENV_ENTER table5 0 = Some (ret, rv, err, htab)"
      "wf_htab htab" "ht_map htab = (ht_map table5)([98] \<mapsto> [c])"
    using accepting_enter [of table5 calm_hooks "[98]" "[c]" 0] table5_ok calm_accepting [of table5]
    by (auto simp: table5_def ht_n_def)
  define st where "st = demo_state\<lparr>es_htab := htab, es_serial := s\<rparr>"
  have x: "hexport_r (ec_hooks demo_config) (ec_malloc demo_config) (es_htab st) 0 0 True (ec_size demo_config) [] = Inr (16, [98, 61, c, 0, 0])"
    using assms(1) h(1) by (simp add: demo_config_def st_def)
  have "accepting calm_hooks table5" by (rule calm_accepting) (simp add: table5_def)
  note cr = accepting_creatable [OF this]
  show thesis
  proof (rule that [of st])
    show m: "env_map st = [[98] \<mapsto> [c]]" "es_serial st = s" using h(2,3) table5_ok by (simp_all add: st_def)
    show "env_export demo_config 0 blank_image st =
        (0, fst (snd (env_export demo_config 0 blank_image st)), snd (snd (env_export demo_config 0 blank_image st)))"
      "ei_data (fst (snd (env_export demo_config 0 blank_image st))) = [98, 61, c] @ [0] @ replicate 12 0"
      by (simp_all add: env_export_def x Let_def) (simp_all add: demo_config_def numeral_eq_Suc)
    have "wf_htab (es_htab st)" using h(2) by (simp add: st_def)
    moreover have "storable (env_map st)" using assms(2,3) unfolding m
      by (simp add: storable_def exportable_key_def exportable_value_def isblank_def)
    ultimately show "loadable demo_config 0 st demo_state" "loadable demo_config H_EXTERNAL st demo_state"
      using cr by (simp_all add: loadable_def demo_config_def demo_state_def m H_EXTERNAL_def H_NOCLEAR_def) (simp_all add: calm_hooks_def)
  qed
qed

lemma demo_export_1: "map_option (\<lambda>(ret, rv, err, htab). hexport_r calm_hooks (\<lambda>n. True) htab 0 0 True 16 [])
    (hsearch_r calm_hooks [98] (Some [49]) ENV_ENTER table5 0) = Some (Inr (16, [98, 61, 49, 0, 0]))"
  by code_simp

lemma demo_export_2: "map_option (\<lambda>(ret, rv, err, htab). hexport_r calm_hooks (\<lambda>n. True) htab 0 0 True 16 [])
    (hsearch_r calm_hooks [98] (Some [50]) ENV_ENTER table5 0) = Some (Inr (16, [98, 61, 50, 0, 0]))"
  by code_simp

theorem env_save_load_witness:
  "\<exists>st img st1 st'. env_map st = [[98] \<mapsto> [49]] \<and> env_export demo_config 0 blank_image st = (0, img, st1) \<and>
     env_import demo_config 8 img True 0 demo_state = Some (0, st') \<and> env_map st' = [[98] \<mapsto> [49]]"
proof -
  obtain st img st1 where e: "env_map st = [[98] \<mapsto> [49]]" "env_export demo_config 0 blank_image st = (0, img, st1)"
      "loadable demo_config 0 st demo_state"
    by (rule demo_saved [OF demo_export_1]) simp_all
  from env_save_load [OF e(2,3), of 8 True] e(1,2) show ?thesis by metis
qed

section \<open>Damaged and redundant images\<close>

lemma damaged_image:
  assumes "env_export cfg buf out st = (0, img, st1)" "ei_data img = front @ xs @ back"
    and "xs \<noteq> ys" "length ys = length xs" "length xs \<le> 4"
  shows "\<not> image_crc_ok cfg buf' (img\<lparr>ei_data := front @ ys @ back\<rparr>)"
proof -
  have "crc32 (ec_dynamic cfg) 0 (image_data_addr cfg buf') (front @ xs @ back) = ei_crc img"
    using env_export_crc_ok [OF assms(1), of buf'] assms(2) by (simp add: image_crc_ok_def)
  with crc32_burst [OF assms(3-5)] show ?thesis by (simp add: image_crc_ok_def) metis
qed

text \<open>
  C5. Damage is noticed: if up to four consecutive bytes of the data of a saved image have changed,
  \<open>env_import\<close> with the check does not load it. It returns \<open>-ENOMSG\<close>, and the state is that of
  \<open>env_set_default\<close>, the default environment.
\<close>

theorem env_import_detects_damage:
  assumes "env_export cfg buf out st = (0, img, st1)" "ei_data img = front @ xs @ back"
    and "xs \<noteq> ys" "length ys = length xs" "length xs \<le> 4"
  shows "env_import cfg buf' (img\<lparr>ei_data := front @ ys @ back\<rparr>) True flags st2 =
    map_option (\<lambda>st'. (- ENOMSG, st')) (env_set_default cfg 0 st2)"
  using damaged_image [OF assms, of buf'] by (simp add: env_import_def)

theorem env_import_detects_damage_witness:
  "\<exists>st img st1. env_export demo_config 0 blank_image st = (0, img, st1) \<and> ei_data img = [98, 61, 49] @ [0] @ replicate 12 0 \<and>
     env_import demo_config 0 (img\<lparr>ei_data := [] @ [98, 61, 50] @ [0] @ replicate 12 0\<rparr>) True 0 demo_state =
       map_option (\<lambda>st'. (- ENOMSG, st')) (env_set_default demo_config 0 demo_state)"
proof -
  obtain st img st1 where e: "env_export demo_config 0 blank_image st = (0, img, st1)" "ei_data img = [98, 61, 49] @ [0] @ replicate 12 0"
    by (rule demo_saved [OF demo_export_1]) simp_all
  have "env_import demo_config 0 (img\<lparr>ei_data := [] @ [98, 61, 50] @ [0] @ replicate 12 0\<rparr>) True 0 demo_state =
      map_option (\<lambda>st'. (- ENOMSG, st')) (env_set_default demo_config 0 demo_state)"
    by (rule env_import_detects_damage [OF e(1), where xs = "[98, 61, 49]"]) (simp_all add: e(2))
  with e show ?thesis by blast
qed

text \<open>The choice between two images, the serial number of the second being the successor of that of the first.\<close>

lemma serial_successor: "f < f + 1 \<and> f \<noteq> 255 \<or> f = 255" for f :: u8
proof -
  have "unat f < 256" using unsigned_less [of f] by simp
  then show ?thesis by (cases "unat f = 255") (auto simp: word_less_nat_alt word_unat_eq_iff unat_word_ariths)
qed

lemma env_check_redund_successor:
  assumes "image_crc_ok cfg a imgA" "image_crc_ok cfg b imgB" "ei_flags imgB = ei_flags imgA + 1"
  shows "env_check_redund cfg a (Some imgA) b (Some imgB) st = (0, st\<lparr>es_valid := ENV_REDUND\<rparr>)"
    "env_check_redund cfg b (Some imgB) a (Some imgA) st = (0, st\<lparr>es_valid := ENV_VALID\<rparr>)"
  using assms serial_successor [of "ei_flags imgA"] by (auto simp: env_check_redund_def Let_def dest: less_trans)

lemma redund_flags:
  assumes "ec_redundant cfg" "env_export cfg buf outA stA = (0, imgA, stA1)" "es_serial stB = es_serial stA1"
    and "env_export cfg buf' outB stB = (0, imgB, stB1)"
  shows "ei_flags imgB = ei_flags imgA + 1" "ei_flags imgB = es_serial stB1"
proof -
  have "ei_flags imgA = es_serial stA + 1" "es_serial stA1 = es_serial stA + 1"
    using assms(1) by (rule_tac env_export_image [OF assms(2)], simp)+
  moreover have "ei_flags imgB = es_serial stB + 1" "es_serial stB1 = es_serial stB + 1"
    using assms(1) by (rule_tac env_export_image [OF assms(4)], simp)+
  ultimately show "ei_flags imgB = ei_flags imgA + 1" "ei_flags imgB = es_serial stB1" using assms(3) by simp_all
qed

lemma loadable_same_table: "es_htab st3 = es_htab st2 \<Longrightarrow> loadable cfg flags st st2 \<Longrightarrow> loadable cfg flags st st3"
  by (simp add: loadable_def)

lemma env_import_redund_chosen:
  assumes "env_check_redund cfg a imgA b imgB st2 = (0, st2\<lparr>es_valid := (if first then ENV_VALID else ENV_REDUND)\<rparr>)"
    and "env_export cfg buf out st = (0, the (if first then imgA else imgB), st1)" "loadable cfg flags st st2"
  shows "\<exists>st'. env_import_redund cfg a imgA b imgB flags st2 = Some (0, st') \<and> env_map st' = env_map st \<and>
    es_serial st' = ei_flags (the (if first then imgA else imgB))"
proof -
  let ?img = "the (if first then imgA else imgB)"
  let ?st = "st2\<lparr>es_valid := (if first then ENV_VALID else ENV_REDUND), es_serial := ei_flags ?img\<rparr>"
  have "loadable cfg flags st ?st" by (rule loadable_same_table [OF _ assms(3)]) simp
  from env_import_exported [OF assms(2) this, of "if first then a else b" False] show ?thesis
    using assms(1) by (cases first) (auto simp: env_import_redund_def)
qed

text \<open>
  C2. Two copies survive an interrupted save. Let A and B be the images of two consecutive saves, the
  serial number of B being that of A plus one, modulo 256. Whichever place either has,
  \<open>env_import_redund\<close> loads the variables of B, the newer, and takes over its serial number. If up to
  four consecutive bytes of B have changed, it loads those of A. Only \<open>-ENOMSG\<close> and the default
  environment are left when both are damaged.
\<close>

theorem redundant_save_survives:
  assumes "ec_redundant cfg" "env_export cfg bufA outA stA = (0, imgA, stA1)" "es_serial stB = es_serial stA1"
    and "env_export cfg bufB outB stB = (0, imgB, stB1)" "loadable cfg flags stA st2" "loadable cfg flags stB st2"
    and "ei_data imgB = front @ xs @ back" "xs \<noteq> ys" "length ys = length xs" "length xs \<le> 4"
    and "badB = imgB\<lparr>ei_data := front @ ys @ back\<rparr>" "\<not> image_crc_ok cfg a badA"
  shows "(\<exists>st'. env_import_redund cfg a (Some imgA) b (Some imgB) flags st2 = Some (0, st') \<and> env_map st' = env_map stB \<and>
      es_serial st' = es_serial stB1) \<and>
    (\<exists>st'. env_import_redund cfg b (Some imgB) a (Some imgA) flags st2 = Some (0, st') \<and> env_map st' = env_map stB \<and>
      es_serial st' = es_serial stB1) \<and>
    (\<exists>st'. env_import_redund cfg a (Some imgA) b (Some badB) flags st2 = Some (0, st') \<and> env_map st' = env_map stA) \<and>
    (\<exists>st'. env_import_redund cfg b (Some badB) a (Some imgA) flags st2 = Some (0, st') \<and> env_map st' = env_map stA) \<and>
    env_import_redund cfg a (Some badA) b (Some badB) flags st2 =
      map_option (\<lambda>st'. (- ENOMSG, st')) (env_set_default cfg 0 (st2\<lparr>es_valid := ENV_INVALID\<rparr>))"
proof (intro conjI)
  note okA = env_export_crc_ok [OF assms(2), of a] and okB = env_export_crc_ok [OF assms(4), of b]
  note fl = redund_flags [OF assms(1-4)]
  have bad: "\<not> image_crc_ok cfg b badB" unfolding assms(11) by (rule damaged_image [OF assms(4,7-10)])
  show "\<exists>st'. env_import_redund cfg a (Some imgA) b (Some imgB) flags st2 = Some (0, st') \<and> env_map st' = env_map stB \<and>
      es_serial st' = es_serial stB1"
    using env_import_redund_chosen [where first = False, of cfg a "Some imgA" b "Some imgB" st2 bufB outB stB stB1 flags]
      env_check_redund_successor(1) [OF okA okB fl(1)] assms(4,6) fl(2) by simp
  show "\<exists>st'. env_import_redund cfg b (Some imgB) a (Some imgA) flags st2 = Some (0, st') \<and> env_map st' = env_map stB \<and>
      es_serial st' = es_serial stB1"
    using env_import_redund_chosen [where first = True, of cfg b "Some imgB" a "Some imgA" st2 bufB outB stB stB1 flags]
      env_check_redund_successor(2) [OF okA okB fl(1)] assms(4,6) fl(2) by simp
  show "\<exists>st'. env_import_redund cfg a (Some imgA) b (Some badB) flags st2 = Some (0, st') \<and> env_map st' = env_map stA"
    using env_import_redund_chosen [where first = True, of cfg a "Some imgA" b "Some badB" st2 bufA outA stA stA1 flags]
      okA bad assms(2,5) by (auto simp: env_check_redund_def)
  show "\<exists>st'. env_import_redund cfg b (Some badB) a (Some imgA) flags st2 = Some (0, st') \<and> env_map st' = env_map stA"
    using env_import_redund_chosen [where first = False, of cfg b "Some badB" a "Some imgA" st2 bufA outA stA stA1 flags]
      okA bad assms(2,5) by (auto simp: env_check_redund_def)
  show "env_import_redund cfg a (Some badA) b (Some badB) flags st2 =
      map_option (\<lambda>st'. (- ENOMSG, st')) (env_set_default cfg 0 (st2\<lparr>es_valid := ENV_INVALID\<rparr>))"
    using bad assms(12) by (simp add: env_import_redund_def env_check_redund_def)
qed

theorem redundant_save_survives_witness:
  "\<exists>imgA imgB badB st'. ei_flags imgA = 255 \<and> ei_flags imgB = 0 \<and> badB \<noteq> imgB \<and>
     env_import_redund demo_config 0 (Some imgA) 64 (Some imgB) 0 demo_state = Some (0, st') \<and> env_map st' = [[98] \<mapsto> [50]] \<and>
     (\<exists>st''. env_import_redund demo_config 0 (Some imgA) 64 (Some badB) 0 demo_state = Some (0, st'') \<and>
        env_map st'' = [[98] \<mapsto> [49]])"
proof -
  obtain stA imgA stA1 where A: "env_map stA = [[98] \<mapsto> [49]]" "es_serial stA = 254"
      "env_export demo_config 0 blank_image stA = (0, imgA, stA1)" "loadable demo_config 0 stA demo_state"
    by (rule demo_saved [OF demo_export_1]) simp_all
  obtain stB imgB stB1 where B: "env_map stB = [[98] \<mapsto> [50]]" "es_serial stB = 255"
      "env_export demo_config 0 blank_image stB = (0, imgB, stB1)" "loadable demo_config 0 stB demo_state"
      "ei_data imgB = [98, 61, 50] @ [0] @ replicate 12 0"
    by (rule demo_saved [OF demo_export_2]) simp_all
  have r: "ec_redundant demo_config" by (simp add: demo_config_def)
  have sA: "es_serial stB = es_serial stA1" "ei_flags imgA = 255"
    by (rule env_export_image [OF A(3)], use r A(2) B(2) in simp)+
  have sB: "ei_flags imgB = 0" by (rule env_export_image [OF B(3)], use r B(2) in simp)
  have bad: "\<not> image_crc_ok demo_config 0 (blank_image\<lparr>ei_crc := 1\<rparr>)"
    by (simp add: image_crc_ok_def crc32_reference crc_reference_def)
  let ?badB = "imgB\<lparr>ei_data := [] @ [98, 61, 51] @ [0] @ replicate 12 0\<rparr>"
  have d: "ei_data imgB = [] @ [98, 61, 50] @ [0] @ replicate 12 0" using B(5) by simp
  have "?badB \<noteq> imgB" using d by (auto dest: arg_cong [where f = ei_data])
  with redundant_save_survives [OF r A(3) sA(1) B(3) A(4) B(4) d _ _ _ refl bad, of "[98, 61, 51]" 64] sA(2) sB A(1) B(1)
  show ?thesis by - (rule exI [of _ imgA], rule exI [of _ imgB], rule exI [of _ ?badB], auto)
qed

section \<open>Reading before the table exists\<close>

definition mem_holds :: "memory \<Rightarrow> nat \<Rightarrow> u8 list \<Rightarrow> bool" where
  "mem_holds env p t \<longleftrightarrow> (\<forall>i < length t. env (p + i) = t ! i)"

lemma mem_holds_Nil [simp]: "mem_holds env p []"
  by (simp add: mem_holds_def)

lemma mem_holds_Cons [simp]: "mem_holds env p (c # t) \<longleftrightarrow> env p = c \<and> mem_holds env (p + 1) t"
  by (auto simp: mem_holds_def nth_Cons split: nat.splits)

lemma mem_holds_append [simp]: "mem_holds env p (s @ t) \<longleftrightarrow> mem_holds env p s \<and> mem_holds env (p + length s) t"
  by (induction s arbitrary: p) simp_all

lemma mem_holds_list: "mem_holds env p t \<Longrightarrow> n \<le> length t \<Longrightarrow> map (\<lambda>i. env (p + i)) [0..<n] = take n t"
  by (rule nth_equalityI) (simp_all add: mem_holds_def)

lemma linear_end_found:
  "mem_holds env p (s @ [0]) \<Longrightarrow> 0 \<notin> set s \<Longrightarrow> p + length s \<le> sz \<Longrightarrow> linear_end sz env p = Some (p + length s)"
proof (induction s arbitrary: p)
  case (Cons c s)
  then have "linear_end sz env (p + 1) = Some (p + 1 + length s)" by (intro Cons.IH) simp_all
  then show ?case using Cons.prems by (subst linear_end.simps) simp
qed (simp add: linear_end.simps)

lemma linear_match:
  assumes "mem_holds env p (k @ [61])" "61 \<notin> set k" "61 \<notin> set name"
  shows "map (\<lambda>i. env (p + i)) [0..<length name] = name \<and> env (p + length name) = 61 \<longleftrightarrow> name = k"
  using assms
proof (induction name k arbitrary: p rule: list_induct2')
  case (4 n name c k)
  have "map (\<lambda>i. env (p + i)) [0..<Suc (length name)] = env p # map (\<lambda>i. env (p + 1 + i)) [0..<length name]"
    by (simp only: map_upt_Suc) simp
  then show ?case using "4.IH" [of "p + 1"] "4.prems" by (auto simp del: upt_Suc)
qed (auto simp: map_upt_Suc simp del: upt_Suc)

lemma linear_scan:
  assumes "mem_holds env p (concat (map (\<lambda>(k, v). k @ [61] @ v @ [0]) kvs) @ [0])"
    and "p + length (concat (map (\<lambda>(k, v). k @ [61] @ v @ [0]) kvs)) \<le> sz"
    and "\<forall>(k, v) \<in> set kvs. k \<noteq> [] \<and> 0 \<notin> set k \<and> 61 \<notin> set k \<and> 0 \<notin> set v" "61 \<notin> set name"
  shows "linear_loop sz env name len p =
    (case map_of kvs name of
       None \<Rightarrow> (- 1, [])
     | Some v \<Rightarrow> (int (length v), if len \<le> length v then (take len v)[len - 1 := 0] else v @ [0]))"
  using assms(1-3)
proof (induction kvs arbitrary: p)
  case Nil
  then show ?case by (simp add: linear_loop.simps)
next
  case (Cons kv kvs)
  obtain k v where kv: "kv = (k, v)" by (cases kv)
  have nz: "k \<noteq> []" "0 \<notin> set k" "61 \<notin> set k" "0 \<notin> set v" using Cons.prems(3) kv by auto
  have m: "mem_holds env p ((k @ [61] @ v) @ [0])" "mem_holds env p (k @ [61])" "mem_holds env (p + length k + 1) (v @ [0])"
    using Cons.prems(1) kv by simp_all
  have "env p \<noteq> 0" using nz(1,2) m(2) by (cases k) auto
  moreover have "linear_end sz env p = Some (p + length (k @ [61] @ v))"
    by (rule linear_end_found [OF m(1)]) (use nz Cons.prems(2) kv in auto)
  moreover have "linear_loop sz env name len (p + length (k @ [61] @ v) + 1) =
      (case map_of kvs name of None \<Rightarrow> (- 1, [])
       | Some v \<Rightarrow> (int (length v), if len \<le> length v then (take len v)[len - 1 := 0] else v @ [0]))"
    by (rule Cons.IH) (use Cons.prems kv in \<open>simp_all add: ac_simps\<close>)
  moreover have "map (\<lambda>i. env (p + length k + 1 + i)) [0..<min len (length v + 1)] = take (min len (length v + 1)) (v @ [0])"
    by (rule mem_holds_list [OF m(3)]) simp
  ultimately show ?case
    using linear_match [OF m(2) nz(3) assms(4)] kv
    by (subst linear_loop.simps) (auto simp: Let_def ac_simps min_def)
qed

lemma map_of_rev_distinct: "distinct (map fst kvs) \<Longrightarrow> map_of (rev kvs) = map_of kvs"
proof
  fix k assume d: "distinct (map fst kvs)"
  then have "map_of (rev kvs) k = Some v \<longleftrightarrow> map_of kvs k = Some v" for v
    by (simp add: map_of_eq_Some_iff rev_map [symmetric])
  then show "map_of (rev kvs) k = map_of kvs k" by (metis not_None_eq)
qed

text \<open>The text of an export, as the list of the variables.\<close>

lemma exported_pairs:
  assumes "wf_htab htab" "storable (ht_map htab)" "hexport_r hooks calloc htab 0 0 has_resp bsize [] = Inr (sz, exported)"
  obtains kvs where "exported = concat (map (\<lambda>(k, v). k @ [61] @ v @ [0]) kvs) @ [0]" "map_of kvs = ht_map htab"
    "\<forall>(k, v) \<in> set kvs. k \<noteq> [] \<and> 0 \<notin> set k \<and> 61 \<notin> set k \<and> 0 \<notin> set v"
proof -
  define es where "es = qsort cmpkey (export_list hooks htab 0 [])"
  have ms: "mset es = mset (export_list hooks htab 0 [])" by (simp add: es_def qsort_mset)
  have "mset (map fst (map entry_pair es)) = mset (map fst (map entry_pair (export_list hooks htab 0 [])))"
    using ms by simp
  then have d: "distinct (map fst (map entry_pair es))"
    using export_list_all(2) [OF assms(1), of hooks] by (metis mset_eq_imp_distinct_iff)
  have se: "set (map entry_pair es) = {(k, v). ht_map htab k = Some v}"
    using export_list_all(1) [OF assms(1), of hooks] mset_eq_setD [OF ms] by simp
  have pair: "ht_map htab (fst (entry_pair e)) = Some (snd (entry_pair e))" if "e \<in> set es" for e
  proof -
    have "entry_pair e \<in> set (map entry_pair es)" using that by simp
    then show ?thesis unfolding se by (simp add: case_prod_unfold)
  qed
  have st: "exportable_key 0 (fst (entry_pair e)) \<and> exportable_value (snd (entry_pair e)) \<and> 92 \<notin> set (snd (entry_pair e))"
    if "e \<in> set es" for e
    using pair [OF that] assms(2) by (simp add: storable_def)
  have "map (export_entry 0) es = map (\<lambda>(k, v). k @ [61] @ v @ [0]) (map entry_pair es)"
    using st by (auto simp: export_entry_def entry_pair_def exportable_value_def export_value_plain)
  moreover have "exported = export_text 0 es" using assms(3) by (auto simp: hexport_r_def Let_def es_def split: if_splits)
  ultimately have "exported = concat (map (\<lambda>(k, v). k @ [61] @ v @ [0]) (map entry_pair es)) @ [0]"
    by (simp only: export_text_def)
  moreover have "map_of (map entry_pair es) = ht_map htab"
    using sorted_entries_map(1) [OF assms(1) ms] map_of_rev_distinct [OF d] by simp
  moreover have "\<forall>(k, v) \<in> set (map entry_pair es). k \<noteq> [] \<and> 0 \<notin> set k \<and> 61 \<notin> set k \<and> 0 \<notin> set v"
    using st by (simp add: exportable_key_def exportable_value_def case_prod_unfold) blast
  ultimately show thesis by (rule that)
qed

lemma cstr_of_value: "0 \<notin> set v \<Longrightarrow> 0 < len \<Longrightarrow>
    cstr_of (if len \<le> length v then (take len v)[len - 1 := 0] else v @ [0]) = take (len - 1) v"
proof -
  assume nz: "0 \<notin> set v" and len: "0 < len"
  have "(take len v)[len - 1 := 0] = take (len - 1) v @ [0]" if "len \<le> length v"
    using that len by (cases len) (simp_all add: take_Suc_conv_app_nth list_update_append)
  moreover have "takeWhile (\<lambda>c. c \<noteq> 0) (t @ [0]) = t" if "0 \<notin> set t" for t :: "u8 list"
    using that by (subst takeWhile_append2) auto
  moreover have "0 \<notin> set (take (len - 1) v)" using nz in_set_takeD by metis
  ultimately show ?thesis using nz len by (auto simp: cstr_of_def)
qed

lemma env_get_saved:
  assumes "env_export cfg buf out st = (0, img, st1)" "wf_htab (es_htab st)" "storable (env_map st)" "ec_size cfg \<noteq> 0"
    and "mem_holds (es_addr st2) 0 (ei_data img)" "\<not> es_ready st2" "es_valid st2 \<noteq> ENV_INVALID" "name \<noteq> []" "61 \<notin> set name"
  shows "env_get cfg st2 name = Some (map_option (take 31) (env_map st name))"
proof -
  obtain exported where x: "hexport_r (ec_hooks cfg) (ec_malloc cfg) (es_htab st) 0 0 True (ec_size cfg) [] = Inr (fst exported, snd exported)"
      "ei_data img = take (ec_size cfg) (snd exported @ replicate (ec_size cfg - length (snd exported)) 0)"
    by (rule env_export_image [OF assms(1)])
  note f = exported_fits(2) [OF assms(2-4) x(1)]
  obtain kvs where k: "snd exported = concat (map (\<lambda>(k, v). k @ [61] @ v @ [0]) kvs) @ [0]" "map_of kvs = env_map st"
      "\<forall>(k, v) \<in> set kvs. k \<noteq> [] \<and> 0 \<notin> set k \<and> 61 \<notin> set k \<and> 0 \<notin> set v"
    by (rule exported_pairs [OF assms(2,3) x(1)])
  have "mem_holds (es_addr st2) 0 (snd exported)" using assms(5) x(2) f by simp
  then have "linear_loop (env_config_size cfg) (es_addr st2) name ENV_BUF_SIZE 0 =
      (case map_of kvs name of None \<Rightarrow> (- 1, [])
       | Some v \<Rightarrow> (int (length v), if ENV_BUF_SIZE \<le> length v then (take ENV_BUF_SIZE v)[ENV_BUF_SIZE - 1 := 0] else v @ [0]))"
    using f k(1,3) assms(9) by (intro linear_scan) (simp_all add: env_config_size_def)
  moreover have "0 \<notin> set v" if "map_of kvs name = Some v" for v using map_of_SomeD [OF that] k(3) by auto
  ultimately show ?thesis
    using assms(6-8) k(2) cstr_of_value [of _ ENV_BUF_SIZE]
    by (auto simp: env_get_def env_get_f_def env_get_from_linear_def ENV_BUF_SIZE_def split: option.splits)
qed

text \<open>
  C27. Before the table exists, \<open>env_get\<close> reads the saved text directly, and finds the same: with the
  data of an image made by \<open>env_export\<close> in memory, it gives for each name the first 31 characters of
  the value the variable had, the size of the buffer, and none for a name that was not set.
\<close>

theorem env_get_early:
  assumes "env_export cfg buf out st = (0, img, st1)" "wf_htab (es_htab st)" "storable (env_map st)" "ec_size cfg \<noteq> 0"
    and "mem_holds (es_addr st2) 0 (ei_data img)" "\<not> es_ready st2" "es_valid st2 \<noteq> ENV_INVALID" "name \<noteq> []" "61 \<notin> set name"
  shows "env_get cfg st2 name = Some (map_option (take 31) (env_map st name))"
  using assms by (rule env_get_saved)

theorem env_get_early_witness:
  "\<exists>st img st1 st2. env_export demo_config 0 blank_image st = (0, img, st1) \<and> \<not> es_ready st2 \<and>
     mem_holds (es_addr st2) 0 (ei_data img) \<and> env_get demo_config st2 [98] = Some (Some [49]) \<and> env_get demo_config st2 [99] = Some None"
proof -
  obtain st img st1 where e: "env_map st = [[98] \<mapsto> [49]]" "env_export demo_config 0 blank_image st = (0, img, st1)"
      "loadable demo_config 0 st demo_state"
    by (rule demo_saved [OF demo_export_1]) simp_all
  note l = e(3) [unfolded loadable_def]
  let ?st2 = "demo_state\<lparr>es_addr := list_memory (ei_data img), es_ready := False\<rparr>"
  have m: "mem_holds (es_addr ?st2) 0 (ei_data img)" by (simp add: mem_holds_def list_memory_def)
  have "env_get demo_config ?st2 [98] = Some (Some [49])" "env_get demo_config ?st2 [99] = Some None"
    using env_get_early [OF e(2) _ _ _ m, of "[98]"] env_get_early [OF e(2) _ _ _ m, of "[99]"] l e(1)
    by (simp_all add: demo_state_def)
  with e(2) m show ?thesis by - (rule exI [of _ st], rule exI [of _ img], rule exI [of _ st1], rule exI [of _ ?st2], simp)
qed

end
