(* ===== verification/Env_Drivers.thy ===== *)
theory Env_Drivers
  imports Env_Common_Props
begin

text \<open>
  Where the environment is stored: the choice between storage locations of \<open>env/env.c\<close>, the drivers
  of \<open>env/nvram.c\<close> and \<open>env/nowhere.c\<close>, and the parts of start-up that use them.
\<close>

section \<open>Locations and drivers\<close>

abbreviation (input) ENODEV :: int where "ENODEV \<equiv> 19"

datatype env_location =
    ENVL_UNKNOWN | ENVL_EEPROM | ENVL_EXT4 | ENVL_FAT | ENVL_FLASH | ENVL_MMC | ENVL_NAND | ENVL_NVRAM
  | ENVL_ONENAND | ENVL_REMOTE | ENVL_SPI_FLASH | ENVL_MTD | ENVL_UBI | ENVL_NOWHERE

primrec location_code :: "env_location \<Rightarrow> nat" where
  "location_code ENVL_UNKNOWN = 0"
| "location_code ENVL_EEPROM = 1"
| "location_code ENVL_EXT4 = 2"
| "location_code ENVL_FAT = 3"
| "location_code ENVL_FLASH = 4"
| "location_code ENVL_MMC = 5"
| "location_code ENVL_NAND = 6"
| "location_code ENVL_NVRAM = 7"
| "location_code ENVL_ONENAND = 8"
| "location_code ENVL_REMOTE = 9"
| "location_code ENVL_SPI_FLASH = 10"
| "location_code ENVL_MTD = 11"
| "location_code ENVL_UBI = 12"
| "location_code ENVL_NOWHERE = 13"

datatype env_operation = ENVOP_GET_CHAR | ENVOP_INIT | ENVOP_LOAD | ENVOP_SAVE | ENVOP_ERASE

text \<open>
  The fields \<open>env_has_init\<close> and \<open>env_load_prio\<close> of the global data, beside the state of the environment
  and what the drivers store.
\<close>

record 'd machine =
  mc_env :: env_state
  mc_has_init :: u16
  mc_load_prio :: u8
  mc_storage :: 'd

record 'd env_driver =
  dr_name :: cstr
  dr_location :: env_location
  dr_load :: "'d machine \<Rightarrow> (int \<times> 'd machine) option"
  dr_save :: "('d machine \<Rightarrow> (int \<times> 'd machine) option) option"
  dr_erase :: "('d machine \<Rightarrow> (int \<times> 'd machine) option) option"
  dr_init :: "('d machine \<Rightarrow> (int \<times> 'd machine) option) option"

definition driver_at :: "'d env_driver list \<Rightarrow> env_location \<Rightarrow> 'd env_driver option" where
  "driver_at drvs loc = find (\<lambda>d. loc = dr_location d) drvs"

definition env_has_inited :: "env_location \<Rightarrow> 'd machine \<Rightarrow> bool" where
  "env_has_inited loc m \<longleftrightarrow> bit (mc_has_init m) (location_code loc)"

definition env_set_inited :: "env_location \<Rightarrow> 'd machine \<Rightarrow> 'd machine" where
  "env_set_inited loc m = m\<lparr>mc_has_init := mc_has_init m OR push_bit (location_code loc) 1\<rparr>"

text \<open>
  The list of locations is that of the configuration. The functions a board or an architecture may
  override are the default ones.
\<close>

definition arch_env_get_location :: "env_location list \<Rightarrow> env_operation \<Rightarrow> nat \<Rightarrow> env_location" where
  "arch_env_get_location locs op_code prio = (if prio \<ge> length locs then ENVL_UNKNOWN else locs ! prio)"

definition env_get_location :: "env_location list \<Rightarrow> env_operation \<Rightarrow> nat \<Rightarrow> env_location" where
  "env_get_location locs op_code prio = arch_env_get_location locs op_code prio"

definition env_driver_lookup ::
  "'d env_driver list \<Rightarrow> env_location list \<Rightarrow> env_operation \<Rightarrow> nat \<Rightarrow> 'd env_driver option" where
  "env_driver_lookup drvs locs op_code prio =
     (let loc = env_get_location locs op_code prio
      in if loc = ENVL_UNKNOWN then None else driver_at drvs loc)"

lemma env_driver_lookup_bound: "env_driver_lookup drvs locs op_code prio = Some d \<Longrightarrow> prio < length locs"
  by (auto simp: env_driver_lookup_def env_get_location_def arch_env_get_location_def Let_def split: if_splits)

section \<open>Loading and saving\<close>

function env_load_loop ::
  "'d env_driver list \<Rightarrow> env_location list \<Rightarrow> nat \<Rightarrow> nat option \<Rightarrow> 'd machine \<Rightarrow> (int \<times> 'd machine) option" where
  "env_load_loop drvs locs prio best_prio m =
     (case env_driver_lookup drvs locs ENVOP_LOAD prio of
        None \<Rightarrow> Some (- ENODEV, m\<lparr>mc_load_prio := word_of_nat (case best_prio of Some p \<Rightarrow> p | None \<Rightarrow> 0)\<rparr>)
      | Some drv \<Rightarrow>
          if \<not> env_has_inited (dr_location drv) m then env_load_loop drvs locs (prio + 1) best_prio m
          else
            case dr_load drv m of
              None \<Rightarrow> None
            | Some (ret, m1) \<Rightarrow>
                if ret = 0 then Some (0, m1\<lparr>mc_load_prio := word_of_nat prio\<rparr>)
                else env_load_loop drvs locs (prio + 1)
                  (if ret = - ENOMSG \<and> best_prio = None then Some prio else best_prio) m1)"
  by pat_completeness auto
termination
  by (relation "measure (\<lambda>(drvs, locs, prio, best_prio, m). length locs - prio)")
    (auto dest: env_driver_lookup_bound)

declare env_load_loop.simps [simp del]

text \<open>With \<open>CONFIG_ENV_WRITEABLE_LIST\<close> the default environment is loaded first.\<close>

definition env_load ::
  "env_config \<Rightarrow> bool \<Rightarrow> 'd env_driver list \<Rightarrow> env_location list \<Rightarrow> 'd machine \<Rightarrow> (int \<times> 'd machine) option" where
  "env_load cfg writeable_list drvs locs m =
     Option.bind (if writeable_list then map_option (\<lambda>st. m\<lparr>mc_env := st\<rparr>) (env_set_default cfg 0 (mc_env m)) else Some m)
       (env_load_loop drvs locs 0 None)"

text \<open>What \<open>env_reload\<close>, \<open>env_save\<close> and \<open>env_erase\<close> do with the driver at the priority in the global data.\<close>

definition env_reload :: "'d env_driver list \<Rightarrow> env_location list \<Rightarrow> 'd machine \<Rightarrow> (int \<times> 'd machine) option" where
  "env_reload drvs locs m =
     (case env_driver_lookup drvs locs ENVOP_LOAD (unat (mc_load_prio m)) of
        None \<Rightarrow> Some (- ENODEV, m)
      | Some drv \<Rightarrow>
          if \<not> env_has_inited (dr_location drv) m then Some (- ENODEV, m)
          else map_option (\<lambda>(ret, m1). (if ret = 0 then 0 else - ENODEV, m1)) (dr_load drv m))"

definition env_save :: "'d env_driver list \<Rightarrow> env_location list \<Rightarrow> 'd machine \<Rightarrow> (int \<times> 'd machine) option" where
  "env_save drvs locs m =
     (case env_driver_lookup drvs locs ENVOP_SAVE (unat (mc_load_prio m)) of
        None \<Rightarrow> Some (- ENODEV, m)
      | Some drv \<Rightarrow>
          case dr_save drv of
            None \<Rightarrow> Some (- ENODEV, m)
          | Some save \<Rightarrow>
              if \<not> env_has_inited (dr_location drv) m then Some (- ENODEV, m)
              else map_option (\<lambda>(ret, m1). (if ret = 0 then 0 else - ENODEV, m1)) (save m))"

definition env_erase :: "'d env_driver list \<Rightarrow> env_location list \<Rightarrow> 'd machine \<Rightarrow> (int \<times> 'd machine) option" where
  "env_erase drvs locs m =
     (case env_driver_lookup drvs locs ENVOP_ERASE (unat (mc_load_prio m)) of
        None \<Rightarrow> Some (- ENODEV, m)
      | Some drv \<Rightarrow>
          case dr_erase drv of
            None \<Rightarrow> Some (- ENODEV, m)
          | Some erase \<Rightarrow>
              if \<not> env_has_inited (dr_location drv) m then Some (- ENODEV, m)
              else map_option (\<lambda>(ret, m1). (if ret = 0 then 0 else - ENODEV, m1)) (erase m))"

text \<open>
  The loop of \<open>env_init\<close>; its variable \<open>ret\<close> keeps its value when a driver has no function for it.
\<close>

function env_init_loop ::
  "'d env_driver list \<Rightarrow> env_location list \<Rightarrow> nat \<Rightarrow> int \<Rightarrow> 'd machine \<Rightarrow> (nat \<times> int \<times> 'd machine) option" where
  "env_init_loop drvs locs prio ret m =
     (case env_driver_lookup drvs locs ENVOP_INIT prio of
        None \<Rightarrow> Some (prio, ret, m)
      | Some drv \<Rightarrow>
          case (case dr_init drv of None \<Rightarrow> Some (ret, m) | Some init \<Rightarrow> init m) of
            None \<Rightarrow> None
          | Some (ret1, m1) \<Rightarrow>
              let m2 = (if Option.is_none (dr_init drv) \<or> ret1 = 0 then env_set_inited (dr_location drv) m1 else m1);
                  m3 = (if ret1 = - ENOENT then env_set_inited (dr_location drv) m2 else m2)
              in env_init_loop drvs locs (prio + 1) (if es_valid (mc_env m3) = ENV_INVALID then - ENOENT else ret1) m3)"
  by pat_completeness auto
termination
  by (relation "measure (\<lambda>(drvs, locs, prio, ret, m). length locs - prio)")
    (auto dest: env_driver_lookup_bound)

declare env_init_loop.simps [simp del]

definition env_init :: "env_config \<Rightarrow> 'd env_driver list \<Rightarrow> env_location list \<Rightarrow> 'd machine \<Rightarrow> (int \<times> 'd machine) option" where
  "env_init cfg drvs locs m =
     map_option (\<lambda>(prio, ret, m1).
         if prio = 0 then (- ENODEV, m1)
         else if ret = - ENOENT then
           (0, m1\<lparr>mc_env := (mc_env m1)\<lparr>es_addr := list_memory (ec_default_environment cfg), es_valid := ENV_VALID\<rparr>\<rparr>)
         else (ret, m1))
       (env_init_loop drvs locs 0 (- ENOENT) m)"

function env_select_loop :: "'d env_driver list \<Rightarrow> env_location list \<Rightarrow> env_location \<Rightarrow> nat \<Rightarrow> 'd machine \<Rightarrow> int \<times> 'd machine" where
  "env_select_loop drvs locs loc prio m =
     (case env_driver_lookup drvs locs ENVOP_INIT prio of
        None \<Rightarrow> (- ENODEV, m)
      | Some drv \<Rightarrow>
          if loc = env_get_location locs ENVOP_LOAD prio then
            (0, if unat (mc_load_prio m) \<noteq> prio
                then m\<lparr>mc_load_prio := word_of_nat prio, mc_env := (mc_env m)\<lparr>es_valid := ENV_INVALID, es_default := False\<rparr>\<rparr>
                else m)
          else env_select_loop drvs locs loc (prio + 1) m)"
  by pat_completeness auto
termination
  by (relation "measure (\<lambda>(drvs, locs, loc, prio, m). length locs - prio)")
    (auto dest: env_driver_lookup_bound)

declare env_select_loop.simps [simp del]

definition env_select :: "'d env_driver list \<Rightarrow> env_location list \<Rightarrow> cstr \<Rightarrow> 'd machine \<Rightarrow> int \<times> 'd machine" where
  "env_select drvs locs nm m =
     (case find (\<lambda>d. dr_name d = nm) drvs of
        None \<Rightarrow> (- ENODEV, m)
      | Some entry \<Rightarrow> env_select_loop drvs locs (dr_location entry) 0 m)"

section \<open>Two drivers\<close>

text \<open>
  In NVRAM the image stands at \<open>CONFIG_ENV_ADDR\<close>; \<open>local_buf\<close> is the address of the local copy, and
  \<open>after\<close> the memory behind the image.
\<close>

definition env_nvram_load :: "env_config \<Rightarrow> ptr \<Rightarrow> env_image machine \<Rightarrow> (int \<times> env_image machine) option" where
  "env_nvram_load cfg local_buf m =
     map_option (\<lambda>(ret, st). (ret, m\<lparr>mc_env := st\<rparr>)) (env_import cfg local_buf (mc_storage m) True H_EXTERNAL (mc_env m))"

definition env_nvram_save :: "env_config \<Rightarrow> ptr \<Rightarrow> env_image \<Rightarrow> env_image machine \<Rightarrow> (int \<times> env_image machine) option" where
  "env_nvram_save cfg local_buf env_new m =
     (case env_export cfg local_buf env_new (mc_env m) of
        (rcode, img, st) \<Rightarrow>
          Some (if rcode \<noteq> 0 then (rcode, m\<lparr>mc_env := st\<rparr>) else (0, m\<lparr>mc_env := st, mc_storage := img\<rparr>)))"

definition env_nvram_init :: "env_config \<Rightarrow> ptr \<Rightarrow> memory \<Rightarrow> env_image machine \<Rightarrow> (int \<times> env_image machine) option" where
  "env_nvram_init cfg env_ptr after m =
     (let img = mc_storage m
      in Some (0,
           if image_crc_ok cfg env_ptr img then
             m\<lparr>mc_env := (mc_env m)\<lparr>es_addr := (\<lambda>i. if i < length (ei_data img) then ei_data img ! i else after i),
                 es_valid := ENV_VALID\<rparr>\<rparr>
           else m\<lparr>mc_env := (mc_env m)\<lparr>es_valid := ENV_INVALID\<rparr>\<rparr>))"

definition nvram_driver :: "env_config \<Rightarrow> ptr \<Rightarrow> ptr \<Rightarrow> env_image \<Rightarrow> memory \<Rightarrow> env_image env_driver" where
  "nvram_driver cfg env_ptr local_buf env_new after =
     \<lparr>dr_name = [78, 86, 82, 65, 77], dr_location = ENVL_NVRAM, dr_load = env_nvram_load cfg local_buf,
      dr_save = Some (env_nvram_save cfg local_buf env_new), dr_erase = None, dr_init = Some (env_nvram_init cfg env_ptr after)\<rparr>"

definition env_nowhere_init :: "'d machine \<Rightarrow> (int \<times> 'd machine) option" where
  "env_nowhere_init m = Some (0, m\<lparr>mc_env := (mc_env m)\<lparr>es_valid := ENV_INVALID\<rparr>\<rparr>)"

definition env_nowhere_load :: "env_config \<Rightarrow> 'd machine \<Rightarrow> (int \<times> 'd machine) option" where
  "env_nowhere_load cfg m =
     map_option (\<lambda>st. (0, m\<lparr>mc_env := st\<lparr>es_valid := ENV_INVALID\<rparr>\<rparr>)) (env_set_default cfg 0 (mc_env m))"

definition nowhere_driver :: "env_config \<Rightarrow> 'd env_driver" where
  "nowhere_driver cfg =
     \<lparr>dr_name = [110, 111, 119, 104, 101, 114, 101], dr_location = ENVL_NOWHERE, dr_load = env_nowhere_load cfg,
      dr_save = None, dr_erase = None, dr_init = Some env_nowhere_init\<rparr>"

section \<open>Start-up\<close>

definition env_relocate ::
  "env_config \<Rightarrow> bool \<Rightarrow> 'd env_driver list \<Rightarrow> env_location list \<Rightarrow> 'd machine \<Rightarrow> 'd machine option" where
  "env_relocate cfg writeable_list drvs locs m =
     (if es_valid (mc_env m) = ENV_INVALID then map_option (\<lambda>st. m\<lparr>mc_env := st\<rparr>) (env_set_default cfg 0 (mc_env m))
      else map_option snd (env_load cfg writeable_list drvs locs m))"

text \<open>
  The step of start-up that sets up the environment, with the value of \<open>image_load_addr\<close> it leaves. The
  device tree is there if there is an address of it, and \<open>node_properties\<close> reads a node of it.
\<close>

definition initr_env ::
  "env_config \<Rightarrow> bool \<Rightarrow> 'd env_driver list \<Rightarrow> env_location list \<Rightarrow> bool \<Rightarrow> (cstr \<Rightarrow> (cstr \<times> cstr) list option) \<Rightarrow>
   u32 option \<Rightarrow> u32 \<Rightarrow> 'd machine \<Rightarrow> (u32 \<times> 'd machine) option" where
  "initr_env cfg writeable_list drvs locs should_load_env node_properties fdt_blob image_load_addr m =
     Option.bind
       (if should_load_env then env_relocate cfg writeable_list drvs locs m
        else map_option (\<lambda>st. m\<lparr>mc_env := st\<rparr>) (env_set_default cfg 0 (mc_env m))) (\<lambda>m1.
     Option.bind (env_import_fdt cfg node_properties (mc_env m1)) (\<lambda>st2.
     Option.bind
       (case fdt_blob of
          None \<Rightarrow> Some st2
        | Some a \<Rightarrow>
            map_option snd (env_set_hex cfg [102, 100, 116, 99, 111, 110, 116, 114, 111, 108, 97, 100, 100, 114] a st2)) (\<lambda>st3.
     map_option (\<lambda>addr. (addr, m1\<lparr>mc_env := st3\<rparr>))
       (env_get_ulong cfg st3 [108, 111, 97, 100, 97, 100, 100, 114] 16 image_load_addr))))"

end
