(* ===== verification/Env_Drivers_Props.thy ===== *)
theory Env_Drivers_Props
  imports Env_Drivers
begin

text \<open>
  What start-up and the drivers do together: a saved environment is there again after the next start,
  and loading takes the first location that works.
\<close>

section \<open>Storage that keeps what is saved\<close>

text \<open>
  The contract of a driver: what was saved is held, what is held is announced by \<open>init\<close> and loaded by
  \<open>load\<close>. \<open>change_ok\<close> is the check of the table that the loading side has.
\<close>

locale persistent_storage =
  fixes load save init :: "'d machine \<Rightarrow> (int \<times> 'd machine) option"
    and holds :: "'d \<Rightarrow> (cstr \<Rightarrow> cstr option) \<Rightarrow> bool" and saveable can_load :: "env_state \<Rightarrow> bool"
  assumes save_holds: "saveable (mc_env m) \<Longrightarrow> save m = Some (0, m1) \<Longrightarrow> holds (mc_storage m1) (env_map (mc_env m))"
    and init_held: "holds (mc_storage m) vars \<Longrightarrow> can_load (mc_env m) \<Longrightarrow>
      \<exists>m1. init m = Some (0, m1) \<and> es_valid (mc_env m1) \<noteq> ENV_INVALID \<and> can_load (mc_env m1) \<and> mc_storage m1 = mc_storage m"
    and load_held: "holds (mc_storage m) vars \<Longrightarrow> can_load (mc_env m) \<Longrightarrow>
      \<exists>m1. load m = Some (0, m1) \<and> es_ready (mc_env m1) \<and> env_map (mc_env m1) = vars \<and> mc_storage m1 = mc_storage m"

lemma single_lookup:
  "loc \<noteq> ENVL_UNKNOWN \<Longrightarrow> env_driver_lookup drvs [loc] op_code prio = (if prio = 0 then driver_at drvs loc else None)"
  by (simp add: env_driver_lookup_def env_get_location_def arch_env_get_location_def)

lemma env_set_inited_sets: "env_has_inited loc (env_set_inited loc m)"
  by (cases loc) (simp_all add: env_has_inited_def env_set_inited_def bit_or_iff bit_push_bit_iff)

lemma env_set_inited_fields [simp]:
  "mc_env (env_set_inited loc m) = mc_env m" "mc_storage (env_set_inited loc m) = mc_storage m"
  by (simp_all add: env_set_inited_def)

context persistent_storage
begin

lemma save_start:
  assumes "loc \<noteq> ENVL_UNKNOWN" "driver_at drvs loc = Some d" "dr_location d = loc"
    and "dr_load d = load" "dr_save d = Some save" "dr_init d = Some init"
    and "env_save drvs [loc] m = Some (0, m1)" "saveable (mc_env m)" "mc_storage m2 = mc_storage m1" "can_load (mc_env m2)"
  shows "\<exists>mi m3 m4. init m2 = Some (0, mi) \<and> mc_env m3 = mc_env mi \<and> env_init cfg drvs [loc] m2 = Some (0, m3) \<and>
    env_relocate cfg False drvs [loc] m3 = Some m4 \<and> es_ready (mc_env m4) \<and> env_map (mc_env m4) = env_map (mc_env m)"
proof -
  have "save m = Some (0, m1)"
    using assms(1,2,5,7) by (auto simp: env_save_def single_lookup split: if_splits)
  then have h: "holds (mc_storage m2) (env_map (mc_env m))" using save_holds assms(8,9) by simp
  from init_held [OF h assms(10)] obtain mi where i: "init m2 = Some (0, mi)" "es_valid (mc_env mi) \<noteq> ENV_INVALID"
      "can_load (mc_env mi)" "mc_storage mi = mc_storage m2" by (elim exE conjE) (rule that)
  let ?m3 = "env_set_inited loc mi"
  have "env_init_loop drvs [loc] 0 (- ENOENT) m2 = Some (1, 0, ?m3)"
    using assms(1-3,6) i
    by (simp add: env_init_loop.simps [of drvs "[loc]" 0] env_init_loop.simps [of drvs "[loc]" "Suc 0"] single_lookup Let_def)
  then have init: "env_init cfg drvs [loc] m2 = Some (0, ?m3)" by (simp add: env_init_def)
  from load_held [of ?m3] h i(3,4) obtain m4 where l: "load ?m3 = Some (0, m4)" "es_ready (mc_env m4)" "env_map (mc_env m4) = env_map (mc_env m)"
    by auto
  have "env_relocate cfg False drvs [loc] ?m3 = Some (m4\<lparr>mc_load_prio := 0\<rparr>)"
    using assms(1-4) i(2) l(1) env_set_inited_sets [of loc mi]
    by (simp add: env_relocate_def env_load_def env_load_loop.simps single_lookup)
  with i(1) init l(2,3) show ?thesis by - (rule exI [of _ mi], rule exI [of _ ?m3], rule exI [of _ "m4\<lparr>mc_load_prio := 0\<rparr>"], simp)
qed

end

section \<open>NVRAM\<close>

definition nvram_holds :: "env_config \<Rightarrow> _ \<Rightarrow> env_image \<Rightarrow> (cstr \<Rightarrow> cstr option) \<Rightarrow> bool" where
  "nvram_holds cfg change img vars \<longleftrightarrow> (\<exists>buf out st st1. env_export cfg buf out st = (0, img, st1) \<and> env_map st = vars \<and>
     (\<forall>st2. ht_change_ok (es_htab st2) = change \<longrightarrow> loadable cfg H_EXTERNAL st st2))"

interpretation nvram: persistent_storage "env_nvram_load cfg local_buf" "env_nvram_save cfg local_buf env_new"
    "env_nvram_init cfg env_ptr after" "nvram_holds cfg change"
    "\<lambda>st. \<forall>st2. ht_change_ok (es_htab st2) = change \<longrightarrow> loadable cfg H_EXTERNAL st st2" "\<lambda>st. ht_change_ok (es_htab st) = change"
  for cfg local_buf env_new env_ptr after change
proof (unfold_locales, goal_cases)
  case (1 m m1)
  then show ?case
    by (auto simp: env_nvram_save_def nvram_holds_def split: prod.splits if_splits) blast
next
  case (2 m vars)
  then obtain buf out st st1 where "env_export cfg buf out st = (0, mc_storage m, st1)" by (auto simp: nvram_holds_def)
  then show ?case using env_export_crc_ok 2(2) by (auto simp: env_nvram_init_def Let_def)
next
  case (3 m vars)
  then obtain buf out st st1 where "env_export cfg buf out st = (0, mc_storage m, st1)" "env_map st = vars" "loadable cfg H_EXTERNAL st (mc_env m)"
    by (auto simp: nvram_holds_def)
  from env_import_exported [OF this(1,3), of local_buf True] this(2) show ?case
    by (auto simp: env_nvram_load_def)
qed

text \<open>
  C1. The environment survives a restart. Let a machine with NVRAM as its only storage save its
  environment (\<open>env_save\<close> returns 0), and let a machine with the same contents of the NVRAM start, its
  memory being otherwise arbitrary. Then \<open>env_init\<close> returns 0; if there is no table yet, \<open>env_get\<close> finds
  the first 31 characters of every variable; and \<open>env_relocate\<close> makes a table with exactly the
  variables that were saved.
\<close>

theorem nvram_power_cycle:
  assumes "driver_at drvs ENVL_NVRAM = Some (nvram_driver cfg env_ptr local_buf env_new after)"
    and "env_save drvs [ENVL_NVRAM] m = Some (0, m1)" "mc_storage m2 = mc_storage m1" "\<not> es_ready (mc_env m2)"
    and "loadable cfg H_EXTERNAL (mc_env m) (mc_env m2)"
  shows "\<exists>m3 m4. env_init cfg drvs [ENVL_NVRAM] m2 = Some (0, m3) \<and>
    (\<forall>n. n \<noteq> [] \<longrightarrow> 61 \<notin> set n \<longrightarrow> env_get cfg (mc_env m3) n = Some (map_option (take 31) (env_map (mc_env m) n))) \<and>
    env_relocate cfg False drvs [ENVL_NVRAM] m3 = Some m4 \<and> es_ready (mc_env m4) \<and> env_map (mc_env m4) = env_map (mc_env m)"
proof -
  let ?nv = "nvram_driver cfg env_ptr local_buf env_new after"
  have l: "\<forall>st2. ht_change_ok (es_htab st2) = ht_change_ok (es_htab (mc_env m2)) \<longrightarrow> loadable cfg H_EXTERNAL (mc_env m) st2"
    using assms(5) by (simp add: loadable_def)
  have d: "dr_location ?nv = ENVL_NVRAM" "dr_load ?nv = env_nvram_load cfg local_buf"
      "dr_save ?nv = Some (env_nvram_save cfg local_buf env_new)" "dr_init ?nv = Some (env_nvram_init cfg env_ptr after)"
    by (simp_all add: nvram_driver_def)
  from nvram.save_start [OF _ assms(1) d assms(2) l assms(3) refl, of cfg]
  obtain mi m3 m4 where s: "env_nvram_init cfg env_ptr after m2 = Some (0, mi)" "mc_env m3 = mc_env mi"
      "env_init cfg drvs [ENVL_NVRAM] m2 = Some (0, m3)" "env_relocate cfg False drvs [ENVL_NVRAM] m3 = Some m4"
      "es_ready (mc_env m4)" "env_map (mc_env m4) = env_map (mc_env m)" by auto
  obtain st1 where x: "env_export cfg local_buf env_new (mc_env m) = (0, mc_storage m2, st1)"
    using assms(1-3) d(3)
    by (auto simp: env_save_def single_lookup env_nvram_save_def split: if_splits prod.splits)
  have "env_get cfg (mc_env m3) n = Some (map_option (take 31) (env_map (mc_env m) n))" if "n \<noteq> []" "61 \<notin> set n" for n
    using s(1,2) env_export_crc_ok [OF x, of env_ptr] assms(4,5) that
    by (intro env_get_saved [OF x]) (auto simp: env_nvram_init_def Let_def mem_holds_def loadable_def)
  with s(3-6) show ?thesis by blast
qed

definition demo_machine :: "env_state \<Rightarrow> env_image \<Rightarrow> env_image machine" where
  "demo_machine st img = \<lparr>mc_env = st, mc_has_init = 128, mc_load_prio = 0, mc_storage = img\<rparr>"

theorem nvram_power_cycle_witness:
  "\<exists>drvs m m1 m3 m4. env_map (mc_env m) = [[98] \<mapsto> [49]] \<and> env_save drvs [ENVL_NVRAM] m = Some (0, m1) \<and>
     env_init demo_config drvs [ENVL_NVRAM] (demo_machine (demo_state\<lparr>es_ready := False\<rparr>) (mc_storage m1)) = Some (0, m3) \<and>
     env_get demo_config (mc_env m3) [98] = Some (Some [49]) \<and>
     env_relocate demo_config False drvs [ENVL_NVRAM] m3 = Some m4 \<and> env_map (mc_env m4) = [[98] \<mapsto> [49]]"
proof -
  obtain st img st1 where e: "env_map st = [[98] \<mapsto> [49]]" "env_export demo_config 0 blank_image st = (0, img, st1)"
      "loadable demo_config H_EXTERNAL st demo_state"
    by (rule demo_saved [OF demo_export_1]) simp_all
  let ?drvs = "[nvram_driver demo_config 16 0 blank_image (\<lambda>a. 0)]"
  let ?m = "demo_machine st blank_image"
  let ?m2 = "demo_machine (demo_state\<lparr>es_ready := False\<rparr>) img"
  have d: "driver_at ?drvs ENVL_NVRAM = Some (nvram_driver demo_config 16 0 blank_image (\<lambda>a. 0))"
    by (simp add: driver_at_def nvram_driver_def)
  have b: "bit (128 :: u16) 7" by code_simp
  have s: "env_save ?drvs [ENVL_NVRAM] ?m = Some (0, ?m\<lparr>mc_env := st1, mc_storage := img\<rparr>)"
    using e(2) b d
    by (simp add: env_save_def single_lookup, simp add: nvram_driver_def env_nvram_save_def env_has_inited_def demo_machine_def)
  have l: "loadable demo_config H_EXTERNAL (mc_env ?m) (mc_env ?m2)"
    using e(3) by (simp add: demo_machine_def loadable_def)
  from nvram_power_cycle [OF d s _ _ l] obtain m3 m4 where p: "env_init demo_config ?drvs [ENVL_NVRAM] ?m2 = Some (0, m3)"
      "\<forall>n. n \<noteq> [] \<longrightarrow> 61 \<notin> set n \<longrightarrow> env_get demo_config (mc_env m3) n = Some (map_option (take 31) (env_map (mc_env ?m) n))"
      "env_relocate demo_config False ?drvs [ENVL_NVRAM] m3 = Some m4" "env_map (mc_env m4) = env_map (mc_env ?m)"
    by (auto simp: demo_machine_def)
  have "env_get demo_config (mc_env m3) [98] = Some (Some [49])" using p(2) [rule_format, of "[98]"] e(1) by (simp add: demo_machine_def)
  with p(1,3,4) s e(1) show ?thesis
    by - (rule exI [of _ ?drvs], rule exI [of _ ?m], rule exI [of _ "?m\<lparr>mc_env := st1, mc_storage := img\<rparr>"],
        rule exI [of _ m3], rule exI [of _ m4], simp add: demo_machine_def)
qed

section \<open>The first location that works\<close>

text \<open>
  The attempts that loading makes from a priority on: each with its priority and what the driver
  returned. Locations that were not initialised are skipped; the first success ends it.
\<close>

inductive load_attempts ::
  "'d env_driver list \<Rightarrow> env_location list \<Rightarrow> nat \<Rightarrow> 'd machine \<Rightarrow> (nat \<times> int) list \<Rightarrow> 'd machine \<Rightarrow> bool"
  for drvs locs where
  nothing_left: "load_attempts drvs locs prio m [] m"
    if "env_driver_lookup drvs locs ENVOP_LOAD prio = None"
| not_inited: "load_attempts drvs locs prio m tr m1"
    if "env_driver_lookup drvs locs ENVOP_LOAD prio = Some d" "\<not> env_has_inited (dr_location d) m"
      "load_attempts drvs locs (prio + 1) m tr m1"
| loaded: "load_attempts drvs locs prio m [(prio, 0)] m1"
    if "env_driver_lookup drvs locs ENVOP_LOAD prio = Some d" "env_has_inited (dr_location d) m" "dr_load d m = Some (0, m1)"
| failed: "load_attempts drvs locs prio m ((prio, ret) # tr) m2"
    if "env_driver_lookup drvs locs ENVOP_LOAD prio = Some d" "env_has_inited (dr_location d) m" "dr_load d m = Some (ret, m1)"
      "ret \<noteq> 0" "load_attempts drvs locs (prio + 1) m1 tr m2"

text \<open>What the attempts make of it: the return value and the priority that is kept for saving.\<close>

definition load_outcome :: "nat option \<Rightarrow> (nat \<times> int) list \<Rightarrow> int \<times> nat" where
  "load_outcome best tr =
     (if tr \<noteq> [] \<and> snd (last tr) = 0 then (0, fst (last tr))
      else (- ENODEV, case best of Some p \<Rightarrow> p | None \<Rightarrow> (case find (\<lambda>(p, r). r = - ENOMSG) tr of Some (p, r) \<Rightarrow> p | None \<Rightarrow> 0)))"

lemma load_outcome_failed:
  "ret \<noteq> 0 \<Longrightarrow> load_outcome best ((prio, ret) # tr) =
     load_outcome (if ret = - ENOMSG \<and> best = None then Some prio else best) tr"
  by (auto simp: load_outcome_def split: option.splits)

lemma load_attempts_loop:
  "load_attempts drvs locs prio m tr m1 \<Longrightarrow>
     env_load_loop drvs locs prio best m = Some (fst (load_outcome best tr), m1\<lparr>mc_load_prio := word_of_nat (snd (load_outcome best tr))\<rparr>)"
proof (induction arbitrary: best rule: load_attempts.induct)
  case (nothing_left prio m)
  then show ?case by (simp add: env_load_loop.simps load_outcome_def split: option.split)
next
  case (not_inited prio d m tr m1)
  then show ?case by (subst env_load_loop.simps) simp
next
  case (loaded prio d m m1)
  then show ?case by (simp add: env_load_loop.simps load_outcome_def)
next
  case (failed prio d m ret m1 tr m2)
  then show ?case by (subst env_load_loop.simps) (simp add: load_outcome_failed)
qed

lemma load_loop_attempts:
  "env_load_loop drvs locs prio best m = Some r \<Longrightarrow> \<exists>tr m1. load_attempts drvs locs prio m tr m1"
proof (induction drvs locs prio best m rule: env_load_loop.induct)
  case (1 drvs locs prio best m)
  note run = "1.prems" [unfolded env_load_loop.simps [of drvs locs prio best m]]
  show ?case
  proof (cases "env_driver_lookup drvs locs ENVOP_LOAD prio")
    case None
    then show ?thesis using load_attempts.nothing_left by blast
  next
    case (Some d)
    note dr = this
    show ?thesis
    proof (cases "env_has_inited (dr_location d) m")
      case False
      then have "env_load_loop drvs locs (prio + 1) best m = Some r" using run dr by simp
      then show ?thesis using "1.IH"(1) [OF dr False] load_attempts.not_inited [OF dr False] by blast
    next
      case True
      then obtain ret m1 where l: "dr_load d m = Some (ret, m1)" using run dr by (auto split: option.splits)
      show ?thesis
      proof (cases "ret = 0")
        case False
        let ?best = "if ret = - ENOMSG \<and> best = None then Some prio else best"
        have "env_load_loop drvs locs (prio + 1) ?best m1 = Some r" using run dr True l False by simp
        then have "\<exists>tr m2. load_attempts drvs locs (prio + 1) m1 tr m2" using "1.IH"(2) [OF dr] True l False by simp
        then show ?thesis using load_attempts.failed [OF dr True l False] by blast
      qed (use load_attempts.loaded [OF dr True] l in blast)
    qed
  qed
qed

text \<open>
  C23. \<open>env_load\<close> tries the initialised locations in the order of their priority up to the first
  success. It returns 0 exactly if the last attempt was a success, and remembers its priority as the
  place for the next save; otherwise it returns \<open>-ENODEV\<close> and remembers the first location whose checksum
  was wrong, or else the highest priority.
\<close>

theorem env_load_first_success:
  "env_load cfg False drvs locs m = Some (ret, m') \<longleftrightarrow>
     (\<exists>tr m1. load_attempts drvs locs 0 m tr m1 \<and> ret = fst (load_outcome None tr) \<and>
        m' = m1\<lparr>mc_load_prio := word_of_nat (snd (load_outcome None tr))\<rparr>)"
proof
  assume "env_load cfg False drvs locs m = Some (ret, m')"
  then have l: "env_load_loop drvs locs 0 None m = Some (ret, m')" by (simp add: env_load_def)
  then obtain tr m1 where "load_attempts drvs locs 0 m tr m1" using load_loop_attempts by blast
  with load_attempts_loop [OF this, of None] l
  show "\<exists>tr m1. load_attempts drvs locs 0 m tr m1 \<and> ret = fst (load_outcome None tr) \<and>
      m' = m1\<lparr>mc_load_prio := word_of_nat (snd (load_outcome None tr))\<rparr>" by auto
next
  assume "\<exists>tr m1. load_attempts drvs locs 0 m tr m1 \<and> ret = fst (load_outcome None tr) \<and>
      m' = m1\<lparr>mc_load_prio := word_of_nat (snd (load_outcome None tr))\<rparr>"
  then show "env_load cfg False drvs locs m = Some (ret, m')"
    using load_attempts_loop [where best = None] by (auto simp: env_load_def)
qed

end
