(* ===== verification/Div64.thy ===== *)
theory Div64
  imports Vsprintf
begin

text \<open>
  Division of 64-bit numbers on a 32-bit processor: \<open>lib/div64.c\<close> with the functions of
  \<open>include/linux/math64.h\<close> and \<open>include/div64.h\<close> it stands on. A division by zero is None.
\<close>

section \<open>Shift and subtract\<close>

lemma sint_positive_iff: "0 < sint w \<longleftrightarrow> 0 < unat w \<and> unat w < 2 ^ 63" for w :: u64
proof -
  have u: "0 \<le> uint w" "uint w < 2 ^ 64" using uint_lt2p [of w] by simp_all
  have s: "sint w = (uint w + 2 ^ 63) mod 2 ^ 64 - 2 ^ 63"
    by (simp add: sint_uint signed_take_bit_eq_take_bit_shift take_bit_eq_mod)
  have pos: "0 < unat w \<and> unat w < 2 ^ 63 \<longleftrightarrow> 0 < uint w \<and> uint w < 2 ^ 63"
    using of_nat_less_iff [of "unat w" "2 ^ 63", where 'a = int] of_nat_less_iff [of 0 "unat w", where 'a = int] by simp
  show ?thesis
  proof (cases "uint w < 2 ^ 63")
    case True
    then have "(uint w + 2 ^ 63) mod 2 ^ 64 = uint w + 2 ^ 63" using u by (intro mod_pos_pos_trivial) simp_all
    then show ?thesis using s True pos by simp
  next
    case False
    then have "(uint w + 2 ^ 63 - 2 ^ 64) mod 2 ^ 64 = uint w + 2 ^ 63 - 2 ^ 64" using u by (intro mod_pos_pos_trivial) simp_all
    then have "(uint w + 2 ^ 63) mod 2 ^ 64 = uint w + 2 ^ 63 - 2 ^ 64" by (simp only: minus_mod_self2)
    then have "sint w < 0" using s u by simp
    then show ?thesis using False pos by simp
  qed
qed

lemma double_below: "unat w < 2 ^ 63 \<Longrightarrow> unat (2 * w) = 2 * unat w" for w :: u64
  by (simp add: unat_word_ariths)

text \<open>Doubling the divisor until it reaches the rest or the sign bit.\<close>

function div64_scale :: "u64 \<Rightarrow> u64 \<Rightarrow> u64 \<Rightarrow> u64 \<times> u64" where
  "div64_scale rem b d = (if 0 < sint b \<and> b < rem then div64_scale rem (b + b) (d + d) else (b, d))"
  by pat_completeness auto
termination
  by (relation "measure (\<lambda>(rem, b, d). 2 ^ 64 - unat b)") (auto simp: sint_positive_iff double_below)

declare div64_scale.simps [simp del]

text \<open>The second loop, which runs at least once.\<close>

function div64_subtract :: "u64 \<Rightarrow> u64 \<Rightarrow> u64 \<Rightarrow> u64 \<Rightarrow> u64 \<times> u64" where
  "div64_subtract rem b d res =
     (let (rem1, res1) = (if rem \<ge> b then (rem - b, res + d) else (rem, res));
          b1 = drop_bit 1 b; d1 = drop_bit 1 d
      in if d1 \<noteq> 0 then div64_subtract rem1 b1 d1 res1 else (rem1, res1))"
  by pat_completeness auto
termination
  by (relation "measure (\<lambda>(rem, b, d, res). unat d)") (auto intro: unat_drop_bit_less)

declare div64_subtract.simps [simp del]

definition div64_32 :: "u64 \<Rightarrow> u32 \<Rightarrow> (u64 \<times> u32) option" where
  "div64_32 n base =
     (if base = 0 then None
      else
        let rem = n; b = ucast base; high = ucast (drop_bit 32 rem) :: u32;
            (res, rem1) =
              (if high \<ge> base then
                 let high1 = high div base in (push_bit 32 (ucast high1), rem - push_bit 32 (ucast (high1 * base)))
               else (0, rem));
            (b1, d1) = div64_scale rem1 b 1;
            (rem2, res2) = div64_subtract rem1 b1 d1 res
        in Some (res2, ucast rem2))"

text \<open>
  \<open>do_div\<close> for a divisor that is not a constant: the quotient and the remainder.
\<close>

definition do_div :: "u64 \<Rightarrow> u32 \<Rightarrow> (u64 \<times> u32) option" where
  "do_div n base =
     (if drop_bit 32 n = 0 then
        if base = 0 then None else Some (ucast (ucast n div base :: u32), ucast n mod base)
      else div64_32 n base)"

definition lldiv :: "u64 \<Rightarrow> u32 \<Rightarrow> u64 option" where
  "lldiv dividend divisor = map_option fst (do_div dividend divisor)"

definition div_u64_rem :: "u64 \<Rightarrow> u32 \<Rightarrow> (u64 \<times> u32) option" where
  "div_u64_rem dividend divisor = do_div dividend divisor"

definition div_u64 :: "u64 \<Rightarrow> u32 \<Rightarrow> u64 option" where
  "div_u64 dividend divisor = map_option fst (div_u64_rem dividend divisor)"



definition generic_fls :: "u32 \<Rightarrow> nat" where
  "generic_fls x =
     (if x = 0 then 0
      else
        let (x1, r1) = (if x AND 0xffff0000 = 0 then (push_bit 16 x, 16) else (x, 32));
            (x2, r2) = (if x1 AND 0xff000000 = 0 then (push_bit 8 x1, r1 - 8) else (x1, r1));
            (x3, r3) = (if x2 AND 0xf0000000 = 0 then (push_bit 4 x2, r2 - 4) else (x2, r2));
            (x4, r4) = (if x3 AND 0xc0000000 = 0 then (push_bit 2 x3, r3 - 2) else (x3, r3))
        in if x4 AND 0x80000000 = 0 then r4 - 1 else r4)"

definition div64_u64_rem :: "u64 \<Rightarrow> u64 \<Rightarrow> (u64 \<times> u64) option" where
  "div64_u64_rem dividend divisor =
     (let high = ucast (drop_bit 32 divisor) :: u32
      in if high = 0 then map_option (\<lambda>(quot, rem32). (quot, ucast rem32)) (div_u64_rem dividend (ucast divisor))
         else
           let n = 1 + generic_fls high
           in map_option (\<lambda>quot.
                let quot1 = (if quot \<noteq> 0 then quot - 1 else quot);
                    remainder = dividend - quot1 * divisor
                in if remainder \<ge> divisor then (quot1 + 1, remainder - divisor) else (quot1, remainder))
              (div_u64 (drop_bit n dividend) (ucast (drop_bit n divisor))))"

definition div64_u64 :: "u64 \<Rightarrow> u64 \<Rightarrow> u64 option" where
  "div64_u64 dividend divisor =
     (let high = ucast (drop_bit 32 divisor) :: u32
      in if high = 0 then div_u64 dividend (ucast divisor)
         else
           let n = 1 + generic_fls high
           in map_option (\<lambda>quot.
                let quot1 = (if quot \<noteq> 0 then quot - 1 else quot)
                in if dividend - quot1 * divisor \<ge> divisor then quot1 + 1 else quot1)
              (div_u64 (drop_bit n dividend) (ucast (drop_bit n divisor))))"


text \<open>With a divisor of 0 this one does not end.\<close>

partial_function (option) iter_div_u64_rem :: "u64 \<Rightarrow> u32 \<Rightarrow> u32 \<Rightarrow> (u32 \<times> u64) option" where
  "iter_div_u64_rem dividend divisor ret =
     (if dividend \<ge> ucast divisor then iter_div_u64_rem (dividend - ucast divisor) divisor (ret + 1)
      else Some (ret, dividend))"

section \<open>The loops divide\<close>

lemma div64_scale_result:
  assumes "unat b = base * unat d" "d \<noteq> 0" "base \<noteq> 0" "unat d = 2 ^ k"
  shows "\<exists>j. div64_scale rem b d = (fst (div64_scale rem b d), snd (div64_scale rem b d)) \<and>
    unat (fst (div64_scale rem b d)) = base * 2 ^ j \<and> unat (snd (div64_scale rem b d)) = 2 ^ j \<and>
    unat rem < 2 * (base * 2 ^ j)"
  using assms
proof (induction rem b d arbitrary: k rule: div64_scale.induct)
  case (1 rem b d)
  have pos: "0 < unat b" using "1.prems" by simp
  show ?case
  proof (cases "0 < sint b \<and> b < rem")
    case True
    then have b: "unat b < 2 ^ 63" by (simp add: sint_positive_iff)
    moreover have "unat d \<le> unat b" using "1.prems"(1,3) by simp
    ultimately have d: "unat (2 * b) = 2 * unat b" "unat (2 * d) = 2 * unat d" by (auto intro: double_below)
    have "unat (b + b) = base * unat (d + d)" "d + d \<noteq> 0" "unat (d + d) = 2 ^ Suc k"
      using d "1.prems" by (auto simp: mult_2 [symmetric] word_unat_eq_iff)
    from "1.IH" [OF True this(1,2) "1.prems"(3) this(3)] True show ?thesis by (simp add: div64_scale.simps [of rem b d])
  next
    case False
    moreover have "unat rem < 2 ^ 64" using unsigned_less [of rem] by simp
    ultimately have "unat rem < 2 * unat b"
      using pos sint_positive_iff [of b] by (auto simp: word_le_nat_alt not_less)
    then show ?thesis using False "1.prems" by (auto simp: div64_scale.simps [of rem b d] intro: exI [of _ k])
  qed
qed

lemma div64_step:
  fixes b d rem res rem1 res1 :: u64
  assumes "unat b = base * unat d" "unat rem < 2 * unat b" "base \<noteq> 0" "unat res * base + unat rem < 2 ^ 64"
    and "(rem1, res1) = (if rem \<ge> b then (rem - b, res + d) else (rem, res))"
  shows "unat rem1 < unat b" "unat res1 * base + unat rem1 = unat res * base + unat rem"
proof -
  have "unat rem1 < unat b \<and> unat res1 * base + unat rem1 = unat res * base + unat rem"
  proof (cases "b \<le> rem")
    case True
    then have r: "unat (rem - b) = unat rem - unat b" "unat b \<le> unat rem" by (simp_all add: unat_sub word_le_nat_alt)
    have "unat res + unat d \<le> (unat res + unat d) * base" using assms(3) by simp
    also have "\<dots> \<le> unat res * base + unat rem" using r(2) assms(1) by (simp add: mult.commute distrib_left)
    finally have d: "unat (res + d) = unat res + unat d" using assms(4) by (simp add: unat_word_ariths)
    have e: "rem1 = rem - b" "res1 = res + d" using True assms(5) by simp_all
    have "(unat res + unat d) * base + (unat rem - unat b) = unat res * base + unat rem"
      using r(2) assms(1) by (simp add: mult.commute distrib_left)
    moreover have "unat rem - unat b < unat b" using r(2) assms(2) by linarith
    ultimately show ?thesis unfolding e r(1) d by simp
  qed (use assms in \<open>auto simp: word_le_nat_alt not_le\<close>)
  then show "unat rem1 < unat b" "unat res1 * base + unat rem1 = unat res * base + unat rem" by simp_all
qed

lemma div64_subtract_result:
  assumes "unat d = 2 ^ k" "unat b = base * 2 ^ k" "unat rem < 2 * unat b" "base \<noteq> 0"
    and "unat res * base + unat rem < 2 ^ 64"
  shows "unat (fst (div64_subtract rem b d res)) < base \<and>
    unat (snd (div64_subtract rem b d res)) * base + unat (fst (div64_subtract rem b d res)) = unat res * base + unat rem"
  using assms
proof (induction k arbitrary: rem b d res)
  case 0
  obtain rem1 res1 where s: "(rem1, res1) = (if rem \<ge> b then (rem - b, res + d) else (rem, res))" by (metis surj_pair)
  have b: "unat b = base * unat d" using 0 by simp
  have "d = 1" using 0 by (simp add: word_unat_eq_iff)
  then have "div64_subtract rem b d res = (rem1, res1)"
    unfolding div64_subtract.simps [of rem b d] s [symmetric] by simp
  then show ?case using div64_step [OF b "0.prems"(3-5) s] 0 by simp
next
  case (Suc k)
  obtain rem1 res1 where s: "(rem1, res1) = (if rem \<ge> b then (rem - b, res + d) else (rem, res))" by (metis surj_pair)
  have b: "unat b = base * unat d" using Suc.prems by simp
  have h: "unat (drop_bit 1 d) = 2 ^ k" "unat (drop_bit 1 b) = base * 2 ^ k"
    using Suc.prems(1,2) by (simp_all add: unat_drop_bit_eq drop_bit_eq_div [where 'a = nat])
  then have "drop_bit 1 d \<noteq> 0" by (metis power_not_zero unat_0 zero_neq_numeral)
  then have e: "div64_subtract rem b d res = div64_subtract rem1 (drop_bit 1 b) (drop_bit 1 d) res1"
    unfolding div64_subtract.simps [of rem b d] s [symmetric] by (simp add: Let_def)
  note st = div64_step [OF b Suc.prems(3-5) s]
  have "unat rem1 < 2 * unat (drop_bit 1 b)" using st(1) h(2) Suc.prems(2) by simp
  from Suc.IH [OF h this Suc.prems(4)] st(2) Suc.prems(5) show ?case unfolding e by simp
qed

lemma unat_high: "unat (ucast (drop_bit 32 n) :: u32) = unat n div 2 ^ 32" for n :: u64
proof -
  have "unat (drop_bit 32 n) = unat n div 2 ^ 32" by (simp add: unat_drop_bit_eq drop_bit_eq_div [where 'a = nat])
  moreover have "unat n div 2 ^ 32 < 2 ^ 32" using unat_u64_less [of n] by (simp add: div_less_iff_less_mult)
  ultimately show ?thesis by (simp add: unat_ucast_mod)
qed

lemma unat_push32: "unat (push_bit 32 (ucast h :: u64)) = unat h * 2 ^ 32" for h :: u32
proof -
  have "unat (ucast h :: u64) = unat h" using unat_u32_less [of h] by (simp add: unat_ucast_mod)
  moreover have "unat h * 2 ^ 32 < 2 ^ 64" using unat_u32_less [of h] by simp
  ultimately show ?thesis by (simp add: push_bit_eq_mult unat_word_ariths)
qed

lemma div64_reduce:
  fixes n rem res :: u64 and base high :: u32
  assumes "base \<noteq> 0" "high = ucast (drop_bit 32 n)"
    and "(res, rem) = (if high \<ge> base then
      let high1 = high div base in (push_bit 32 (ucast high1), n - push_bit 32 (ucast (high1 * base))) else (0, n))"
  shows "unat res * unat base + unat rem = unat n"
proof (cases "high \<ge> base")
  case True
  let ?h = "unat high div unat base"
  have high: "unat high = unat n div 2 ^ 32" using unat_high [of n] assms(2) by simp
  have le: "?h * unat base \<le> unat high" by simp
  have "?h * unat base < 2 ^ 32" by (rule le_less_trans [OF le]) (use unat_u32_less [of high] in simp)
  then have w: "unat (high div base) = ?h" "unat ((high div base) * base) = ?h * unat base"
    by (simp_all add: unat_div unat_word_ariths)
  have "?h * unat base * 2 ^ 32 \<le> unat high * 2 ^ 32" using le by simp
  also have "\<dots> \<le> unat n" unfolding high by (rule div_times_less_eq_dividend)
  finally have b: "?h * unat base * 2 ^ 32 \<le> unat n" .
  have e: "res = push_bit 32 (ucast (high div base))" "rem = n - push_bit 32 (ucast ((high div base) * base))"
    using True assms(3) by (simp_all add: Let_def)
  have "unat rem = unat n - ?h * unat base * 2 ^ 32"
    unfolding e(2) using b by (subst unat_sub) (simp_all only: word_le_nat_alt unat_push32 w)
  then show ?thesis unfolding e(1) unat_push32 w(1) using b by (simp add: mult.commute mult.left_commute)
qed (use assms in simp)

lemma div64_32_result:
  assumes "base \<noteq> 0"
  shows "div64_32 n base = Some (n div ucast base, ucast (n mod ucast base))"
proof -
  let ?high = "ucast (drop_bit 32 n) :: u32"
  obtain res rem :: u64 where r: "(res, rem) = (if ?high \<ge> base then
      let high1 = ?high div base in (push_bit 32 (ucast high1), n - push_bit 32 (ucast (high1 * base))) else (0, n))"
    by (metis surj_pair)
  note n = div64_reduce [OF assms refl r]
  have b0: "unat (ucast base :: u64) = unat base" using unat_u32_less [of base] by (simp add: unat_ucast_mod)
  have pos: "unat base \<noteq> 0" using assms by (simp add: unat_eq_0)
  obtain b d where sc: "div64_scale rem (ucast base) 1 = (b, d)" by (cases "div64_scale rem (ucast base) 1")
  have "\<exists>j. unat b = unat base * 2 ^ j \<and> unat d = 2 ^ j \<and> unat rem < 2 * (unat base * 2 ^ j)"
    using div64_scale_result [of "ucast base" "unat base" 1 0 rem] b0 pos unfolding sc by simp
  then obtain j where j: "unat b = unat base * 2 ^ j" "unat d = 2 ^ j" "unat rem < 2 * (unat base * 2 ^ j)" by blast
  obtain rem2 res2 where su: "div64_subtract rem b d res = (rem2, res2)" by (cases "div64_subtract rem b d res")
  have "unat rem2 < unat base \<and> unat res2 * unat base + unat rem2 = unat n"
    using div64_subtract_result [OF j(2,1) _ pos, of rem res] j(1,3) n unat_u64_less [of n] unfolding su by simp
  then have "unat n div unat base = unat res2 \<and> unat n mod unat base = unat rem2"
    by (metis div_mult_self3 add.commute div_less add.left_neutral mod_less mod_mult_self3 pos)
  then have "res2 = n div ucast base" "rem2 = n mod ucast base"
    by (simp_all add: word_unat_eq_iff unat_div unat_mod b0)
  moreover have "div64_32 n base = Some (res2, ucast rem2)"
    using assms unfolding div64_32_def Let_def r [symmetric, unfolded Let_def] by (simp add: sc su)
  ultimately show ?thesis by simp
qed

lemma do_div_result:
  assumes "base \<noteq> 0"
  shows "do_div n base = Some (n div ucast base, ucast (n mod ucast base))"
proof (cases "drop_bit 32 n = 0")
  case True
  then have "unat n div 2 ^ 32 = 0"
    by (metis drop_bit_eq_div unat_0 unat_drop_bit_eq)
  then have n: "unat n < 2 ^ 32" by (simp add: div_eq_0_iff)
  have b: "unat (ucast base :: u64) = unat base" using unat_u32_less [of base] by (simp add: unat_ucast_mod)
  have c: "unat (ucast n :: u32) = unat n" using n by (simp add: unat_ucast_mod)
  have "unat n div unat base < 2 ^ 32" using n by (rule le_less_trans [OF div_le_dividend])
  then have "unat (ucast (ucast n div base :: u32) :: u64) = unat n div unat base"
    by (subst unat_ucast_small) (simp_all add: unat_div c)
  then have "ucast (ucast n div base :: u32) = n div ucast base" by (simp only: word_unat_eq_iff unat_div b)
  moreover have "unat (ucast (n mod ucast base) :: u32) = unat n mod unat base"
    using le_less_trans [OF mod_less_eq_dividend [of "unat n" "unat base"] n] by (subst unat_ucast_small) (simp_all add: unat_mod b)
  then have "ucast n mod base = (ucast (n mod ucast base) :: u32)" by (simp only: word_unat_eq_iff unat_mod c)
  ultimately show ?thesis using True assms by (simp add: do_div_def)
qed (simp add: do_div_def div64_32_result [OF assms])

lemma div_u64_result: "base \<noteq> 0 \<Longrightarrow> div_u64 n base = Some (n div ucast base)"
  by (simp add: div_u64_def div_u64_rem_def do_div_result)

section \<open>The highest bit\<close>

lemma high_bits_clear: "n < 32 \<Longrightarrow> w AND NOT (mask n) = 0 \<longleftrightarrow> unat w < 2 ^ n" for w :: u32
proof -
  assume n: "n < 32"
  have "w AND NOT (mask n) = 0 \<longleftrightarrow> drop_bit n w = 0"
  proof
    assume z: "w AND NOT (mask n) = 0"
    have "bit (w AND NOT (mask n)) (n + i) \<longleftrightarrow> bit w (n + i)" for i
      by (auto simp: bit_simps dest: bit_imp_le_length)
    then show "drop_bit n w = 0" unfolding z by (intro bit_eqI) (simp add: bit_drop_bit_eq)
  next
    assume "drop_bit n w = 0"
    moreover have "bit (drop_bit n w) i \<longleftrightarrow> bit w (n + i)" for i by (simp add: bit_drop_bit_eq)
    ultimately have z: "\<not> bit w (n + i)" for i by simp
    have "\<not> bit (w AND NOT (mask n)) i" for i
      using z [of "i - n"] by (cases "i < n") (auto simp: bit_simps)
    then show "w AND NOT (mask n) = 0" by (intro bit_eqI) simp
  qed
  also have "\<dots> \<longleftrightarrow> unat w div 2 ^ n = 0"
    by (metis drop_bit_eq_div unat_drop_bit_eq unat_eq_0)
  also have "\<dots> \<longleftrightarrow> unat w < 2 ^ n" by (simp add: div_eq_0_iff)
  finally show ?thesis .
qed

lemma fls_step:
  fixes x :: u32
  assumes "unat x = v * 2 ^ (32 - r)" "2 ^ (32 - 2 * k) \<le> unat x" "k \<le> r" "r \<le> 32" "0 < k" "2 * k \<le> 32"
    and "(x1, r1) = (if x AND NOT (mask (32 - k)) = 0 then (push_bit k x, r - k) else (x, r))"
  shows "unat x1 = v * 2 ^ (32 - r1) \<and> 2 ^ (32 - k) \<le> unat x1 \<and> r - k \<le> r1 \<and> r1 \<le> 32"
proof (cases "unat x < 2 ^ (32 - k)")
  case True
  then have e: "x1 = push_bit k x" "r1 = r - k" using assms(5,7) high_bits_clear [of "32 - k" x] by simp_all
  have "2 ^ (32 - k) * 2 ^ k = (2 ^ 32 :: nat)" using assms(6) by (simp flip: power_add)
  then have "unat x * 2 ^ k < 2 ^ 32" using True by (metis mult_less_cancel2 zero_less_numeral zero_less_power)
  then have x1: "unat x1 = unat x * 2 ^ k" unfolding e(1) unsigned_push_bit_eq push_bit_eq_mult [where 'a = nat]
    by (simp add: take_bit_nat_eq_self)
  have "2 ^ (32 - r) * 2 ^ k = (2 ^ (32 - r1) :: nat)" using e(2) assms(3,4) by (simp flip: power_add)
  then have "unat x1 = v * 2 ^ (32 - r1)" using x1 assms(1) by (simp add: mult.assoc)
  moreover have "2 ^ (32 - 2 * k) * 2 ^ k = (2 ^ (32 - k) :: nat)" using assms(6) by (simp flip: power_add)
  then have "2 ^ (32 - k) \<le> unat x1" unfolding x1 using assms(2) by (metis mult_le_mono1)
  ultimately show ?thesis using e(2) assms(4) by simp
next
  case False
  then show ?thesis using assms(1,4,5,7) high_bits_clear [of "32 - k" x] by simp
qed

lemma fls_masks:
  "(0xffff0000 :: u32) = NOT (mask (32 - 16))" "(0xff000000 :: u32) = NOT (mask (32 - 8))"
  "(0xf0000000 :: u32) = NOT (mask (32 - 4))" "(0xc0000000 :: u32) = NOT (mask (32 - 2))"
  "(0x80000000 :: u32) = NOT (mask (32 - 1))"
  by (simp_all add: mask_eq_exp_minus_1)

lemma fls_bounds:
  fixes x :: u32
  assumes "x \<noteq> 0"
  shows "1 \<le> generic_fls x \<and> generic_fls x \<le> 32 \<and> 2 ^ (generic_fls x - 1) \<le> unat x \<and> unat x < 2 ^ generic_fls x"
proof -
  obtain x1 :: u32 and r1 :: nat where s1: "(x1, r1) = (if x AND NOT (mask (32 - 16)) = 0 then (push_bit 16 x, 32 - 16) else (x, 32))" by (metis surj_pair)
  obtain x2 :: u32 and r2 :: nat where s2: "(x2, r2) = (if x1 AND NOT (mask (32 - 8)) = 0 then (push_bit 8 x1, r1 - 8) else (x1, r1))" by (metis surj_pair)
  obtain x3 :: u32 and r3 :: nat where s3: "(x3, r3) = (if x2 AND NOT (mask (32 - 4)) = 0 then (push_bit 4 x2, r2 - 4) else (x2, r2))" by (metis surj_pair)
  obtain x4 :: u32 and r4 :: nat where s4: "(x4, r4) = (if x3 AND NOT (mask (32 - 2)) = 0 then (push_bit 2 x3, r3 - 2) else (x3, r3))" by (metis surj_pair)
  obtain x5 :: u32 and r5 :: nat where s5: "(x5, r5) = (if x4 AND NOT (mask (32 - 1)) = 0 then (push_bit 1 x4, r4 - 1) else (x4, r4))" by (metis surj_pair)
  have "1 \<le> unat x" using assms by (simp add: Suc_le_eq unat_pos_iff)
  then have f1: "unat x1 = unat x * 2 ^ (32 - r1) \<and> 2 ^ (32 - 16) \<le> unat x1 \<and> 32 - 16 \<le> r1 \<and> r1 \<le> 32"
    by (intro fls_step [OF _ _ _ _ _ _ s1]) simp_all
  then have b1: "16 \<le> r1" by simp
  have f2: "unat x2 = unat x * 2 ^ (32 - r2) \<and> 2 ^ (32 - 8) \<le> unat x2 \<and> r1 - 8 \<le> r2 \<and> r2 \<le> 32"
    using f1 b1 by (intro fls_step [OF _ _ _ _ _ _ s2]) simp_all
  then have "r1 - 8 \<le> r2" by blast
  with b1 have b2: "8 \<le> r2" by linarith
  have f3: "unat x3 = unat x * 2 ^ (32 - r3) \<and> 2 ^ (32 - 4) \<le> unat x3 \<and> r2 - 4 \<le> r3 \<and> r3 \<le> 32"
    using f2 b2 by (intro fls_step [OF _ _ _ _ _ _ s3]) simp_all
  then have "r2 - 4 \<le> r3" by blast
  with b2 have b3: "4 \<le> r3" by linarith
  have f4: "unat x4 = unat x * 2 ^ (32 - r4) \<and> 2 ^ (32 - 2) \<le> unat x4 \<and> r3 - 2 \<le> r4 \<and> r4 \<le> 32"
    using f3 b3 by (intro fls_step [OF _ _ _ _ _ _ s4]) simp_all
  then have "r3 - 2 \<le> r4" by blast
  with b3 have b4: "2 \<le> r4" by linarith
  have f5: "unat x5 = unat x * 2 ^ (32 - r5) \<and> 2 ^ (32 - 1) \<le> unat x5 \<and> r4 - 1 \<le> r5 \<and> r5 \<le> 32"
    using f4 b4 by (intro fls_step [OF _ _ _ _ _ _ s5]) simp_all
  then have "r4 - 1 \<le> r5" by blast
  with b4 have r5: "1 \<le> r5" by linarith
  have "(if x AND NOT (mask (32 - 16)) = 0 then (push_bit 16 x, 16) else (x, 32)) = (x1, r1)" using s1 by simp
  moreover have "(if x4 AND NOT (mask (32 - 1)) = 0 then r4 - 1 else r4) = r5" using s5 by (auto split: if_splits)
  ultimately have "generic_fls x = r5"
    using assms unfolding generic_fls_def Let_def fls_masks
    by (simp only: prod.case s2 [symmetric] s3 [symmetric] s4 [symmetric] if_False)
  moreover have "unat x < 2 ^ r5"
  proof -
    have "unat x * 2 ^ (32 - r5) < 2 ^ r5 * 2 ^ (32 - r5)"
      using f5 unat_u32_less [of x5] by (simp flip: power_add)
    then show ?thesis by simp
  qed
  moreover have "2 ^ (r5 - 1) \<le> unat x"
  proof -
    have "(2::nat) ^ (r5 - 1) * 2 ^ (32 - r5) = 2 ^ (32 - 1)" using r5 f5 by (simp flip: power_add)
    then have "2 ^ (r5 - 1) * 2 ^ (32 - r5) \<le> unat x * 2 ^ (32 - r5)" using f5 by simp
    then show ?thesis by simp
  qed
  ultimately show ?thesis using r5 f5 by simp
qed

section \<open>Long division from a short one\<close>

text \<open>The estimate of the quotient by the leading digits is at most one too large.\<close>

lemma quotient_estimate:
  fixes u v :: nat
  assumes "2 ^ (30 + n) \<le> v" "u < 2 ^ (60 + n)"
  defines "q \<equiv> u div 2 ^ n div (v div 2 ^ n)"
  shows "u div v \<le> q" "q \<le> u div v + 1"
proof -
  let ?v = "v div 2 ^ n" and ?u = "u div 2 ^ n"
  have p: "(0::nat) < 2 ^ n" by simp
  have v: "2 ^ 30 \<le> ?v" using assms(1) p by (metis div_le_mono nonzero_mult_div_cancel_right power_add power_not_zero zero_neq_numeral)
  have "?v * 2 ^ n \<le> v" by (rule div_times_less_eq_dividend)
  moreover have "0 < ?v * 2 ^ n" using v p by (metis less_le_trans mult_pos_pos zero_less_numeral zero_less_power)
  ultimately have "u div v \<le> u div (?v * 2 ^ n)" by (intro div_le_mono2)
  also have "\<dots> = q" unfolding q_def by (simp add: div_mult2_eq mult.commute)
  finally show "u div v \<le> q" .
  have "?u < 2 ^ 60" using assms(2) by (simp add: div_less_iff_less_mult power_add)
  also have "\<dots> = 2 ^ 30 * (2 ^ 30 :: nat)" by simp
  also have "\<dots> \<le> ?v * ?v" using v by (intro mult_le_mono)
  finally have "q < ?v" unfolding q_def using v by (simp add: div_less_iff_less_mult)
  show "q \<le> u div v + 1"
  proof (cases q)
    case (Suc k)
    have "v \<le> (?v + 1) * 2 ^ n" using dividend_less_times_div [OF p, of v] by (simp add: mult.commute)
    then have "k * v \<le> k * ((?v + 1) * 2 ^ n)" by (rule mult_le_mono2)
    also have "\<dots> = (k * ?v + k) * 2 ^ n" by (simp add: distrib_right distrib_left mult.assoc)
    also have "\<dots> \<le> (q * ?v) * 2 ^ n" using \<open>q < ?v\<close> Suc by (intro mult_le_mono1) simp
    also have "\<dots> \<le> ?u * 2 ^ n" unfolding q_def by (intro mult_le_mono1 div_times_less_eq_dividend)
    also have "\<dots> \<le> u" by (rule div_times_less_eq_dividend)
    finally have "k * v div v \<le> u div v" by (rule div_le_mono)
    then show ?thesis using Suc v p assms(1) by (cases "v = 0") simp_all
  qed simp
qed

text \<open>The correction of the estimate.\<close>

lemma quotient_correct:
  fixes dividend divisor quot quot1 :: u64
  assumes "divisor \<noteq> 0" "unat dividend div unat divisor \<le> unat quot" "unat quot \<le> unat dividend div unat divisor + 1"
    and "quot1 = (if quot \<noteq> 0 then quot - 1 else quot)"
  shows "(if dividend - quot1 * divisor \<ge> divisor then quot1 + 1 else quot1) = dividend div divisor"
    "(if dividend - quot1 * divisor \<ge> divisor then dividend - quot1 * divisor - divisor else dividend - quot1 * divisor) = dividend mod divisor"
proof -
  let ?u = "unat dividend" and ?v = "unat divisor" and ?q = "unat dividend div unat divisor"
  have v: "0 < ?v" using assms(1) by (simp add: unat_pos_iff)
  have q1: "unat quot1 = unat quot - 1" unfolding assms(4) by (simp add: unat_minus_one)
  have "unat quot1 * ?v \<le> ?q * ?v" using q1 assms(3) by (intro mult_le_mono1) simp
  also have "\<dots> \<le> ?u" by (rule div_times_less_eq_dividend)
  finally have le: "unat quot1 * ?v \<le> ?u" .
  then have m: "unat (quot1 * divisor) = unat quot1 * ?v" using unat_u64_less [of dividend] by (simp add: unat_word_ariths)
  then have r: "unat (dividend - quot1 * divisor) = ?u - unat quot1 * ?v" using le by (simp add: unat_sub word_le_nat_alt)
  consider "unat quot1 = ?q" | "unat quot1 + 1 = ?q" using q1 assms(2,3) by linarith
  then have "(if dividend - quot1 * divisor \<ge> divisor then quot1 + 1 else quot1) = dividend div divisor \<and>
    (if dividend - quot1 * divisor \<ge> divisor then dividend - quot1 * divisor - divisor else dividend - quot1 * divisor) = dividend mod divisor"
  proof cases
    case 1
    then have e: "quot1 = dividend div divisor" by (simp add: word_unat_eq_iff unat_div)
    have "?u - ?q * ?v = ?u mod ?v" by (simp add: minus_div_mult_eq_mod)
    then have x: "unat (dividend - quot1 * divisor) = ?u mod ?v" using r 1 by simp
    then have "\<not> dividend - quot1 * divisor \<ge> divisor" "dividend - quot1 * divisor = dividend mod divisor"
      using v by (simp_all add: word_le_nat_alt not_le word_unat_eq_iff unat_mod)
    then show ?thesis using e by simp
  next
    case 2
    have "?q < 2 ^ 64" by (rule le_less_trans [OF div_le_dividend]) (use unat_u64_less [of dividend] in simp)
    then have "unat (quot1 + 1) = ?q" using 2 by (simp add: unat_word_ariths)
    then have e: "quot1 + 1 = dividend div divisor" by (simp add: word_unat_eq_iff unat_div)
    have "?u = (unat quot1 + 1) * ?v + ?u mod ?v" unfolding 2 by simp
    then have x: "unat (dividend - quot1 * divisor) = ?v + ?u mod ?v" using r by (simp add: distrib_right)
    then have ge: "dividend - quot1 * divisor \<ge> divisor" by (simp add: word_le_nat_alt)
    then have "unat (dividend - quot1 * divisor - divisor) = ?u mod ?v" using x by (subst unat_sub) simp_all
    then have "dividend - quot1 * divisor - divisor = dividend mod divisor" by (simp add: word_unat_eq_iff unat_mod)
    then show ?thesis using e ge by simp
  qed
  then show "(if dividend - quot1 * divisor \<ge> divisor then quot1 + 1 else quot1) = dividend div divisor"
    "(if dividend - quot1 * divisor \<ge> divisor then dividend - quot1 * divisor - divisor else dividend - quot1 * divisor) = dividend mod divisor"
    by blast+
qed

lemma div64_estimate:
  fixes dividend divisor :: u64 and high :: u32
  assumes "high = ucast (drop_bit 32 divisor)" "high \<noteq> 0" "unat dividend < 2 ^ 62" "n = 1 + generic_fls high"
  obtains quot where "div_u64 (drop_bit n dividend) (ucast (drop_bit n divisor)) = Some quot"
    "unat dividend div unat divisor \<le> unat quot" "unat quot \<le> unat dividend div unat divisor + 1"
proof -
  let ?v = "unat divisor"
  have high: "unat high = ?v div 2 ^ 32" using unat_high [of divisor] assms(1) by simp
  note f = fls_bounds [OF assms(2)]
  have "2 ^ (n - 2) * 2 ^ 32 \<le> unat high * 2 ^ 32" using f assms(4) by (intro mult_le_mono1) (simp add: numeral_2_eq_2)
  also have "\<dots> \<le> ?v" unfolding high by (rule div_times_less_eq_dividend)
  finally have "2 ^ (n - 2 + 32) \<le> ?v" by (simp add: power_add)
  moreover have "n - 2 + 32 = 30 + n" using f assms(4) by simp
  ultimately have lo: "2 ^ (30 + n) \<le> ?v" by simp
  have "?v < 2 ^ (31 + n)"
  proof -
    have "?v < (unat high + 1) * 2 ^ 32" unfolding high using dividend_less_times_div [of "2 ^ 32" ?v] by (simp add: mult.commute)
    also have "\<dots> \<le> 2 ^ generic_fls high * 2 ^ 32" using f by (intro mult_le_mono1) simp
    finally show ?thesis using assms(4) by (simp add: power_add)
  qed
  then have small: "?v div 2 ^ n < 2 ^ 31" by (simp add: div_less_iff_less_mult power_add)
  have "0 < ?v div 2 ^ n" using lo by (simp add: div_greater_zero_iff power_add)
  moreover have dr: "unat (drop_bit n x) = unat x div 2 ^ n" for x :: u64
    by (simp add: unat_drop_bit_eq drop_bit_eq_div [where 'a = nat])
  moreover have b: "unat (ucast (drop_bit n divisor) :: u32) = ?v div 2 ^ n" using small by (simp add: unat_ucast_mod dr)
  ultimately have nz: "(ucast (drop_bit n divisor) :: u32) \<noteq> 0" by (metis less_numeral_extra(3) unat_0)
  have "unat (ucast (ucast (drop_bit n divisor) :: u32) :: u64) = ?v div 2 ^ n"
    using b small by (subst unat_ucast_small) simp_all
  then have q: "unat (drop_bit n dividend div ucast (ucast (drop_bit n divisor) :: u32)) = unat dividend div 2 ^ n div (?v div 2 ^ n)"
    by (simp add: unat_div dr)
  have "unat dividend < 2 ^ (60 + n)"
    by (rule less_le_trans [OF assms(3)]) (use f assms(4) in \<open>intro power_increasing, simp_all\<close>)
  from quotient_estimate [OF lo this] show thesis
    by (intro that [OF div_u64_result [OF nz]]) (simp_all only: q)
qed

text \<open>
  C8. Division of a 64-bit number by a 32-bit one, by shifting and subtracting (\<open>__div64_32\<close>) and as
  \<open>do_div\<close> selects it, always returns, and gives the quotient and the remainder, for every dividend and
  every divisor other than 0.
\<close>

theorem div64_32_correct:
  assumes "base \<noteq> 0"
  shows "div64_32 n base = Some (n div ucast base, ucast (n mod ucast base)) \<and>
    do_div n base = Some (n div ucast base, ucast (n mod ucast base)) \<and>
    div_u64_rem n base = Some (n div ucast base, ucast (n mod ucast base))"
  by (simp add: div64_32_result [OF assms] do_div_result [OF assms] div_u64_rem_def)

theorem div64_32_correct_witness:
  "div64_32 0xffffffffffffffff 1000000007 = Some (0xffffffffffffffff div 1000000007, ucast (0xffffffffffffffff mod (1000000007 :: u64)))"
  using div64_32_correct [of 1000000007 "0xffffffffffffffff"] by simp

text \<open>
  C29. Division of a 64-bit number by a 64-bit one (\<open>div64_u64\<close>, \<open>div64_u64_rem\<close>) is exact if the divisor
  is below 2^32 or the dividend below 2^62.
\<close>

theorem div64_u64_exact:
  assumes "divisor \<noteq> 0" "unat divisor < 2 ^ 32 \<or> unat dividend < 2 ^ 62"
  shows "div64_u64 dividend divisor = Some (dividend div divisor) \<and>
    div64_u64_rem dividend divisor = Some (dividend div divisor, dividend mod divisor)"
proof (cases "(ucast (drop_bit 32 divisor) :: u32) = 0")
  case True
  then have "unat divisor div 2 ^ 32 = 0" using unat_high [of divisor] by simp
  then have d: "unat divisor < 2 ^ 32" by (simp add: div_eq_0_iff)
  then have c: "unat (ucast divisor :: u32) = unat divisor" by (simp add: unat_ucast_mod)
  then have e: "ucast (ucast divisor :: u32) = divisor" using d by (simp add: word_unat_eq_iff unat_ucast_mod)
  have nz: "(ucast divisor :: u32) \<noteq> 0" using c assms(1) by (metis unat_0 unat_eq_0)
  have "unat (dividend mod divisor) < 2 ^ 32"
    unfolding unat_mod by (rule less_trans [OF mod_less_divisor d]) (simp add: unat_pos_iff assms(1))
  then have "ucast (ucast (dividend mod divisor) :: u32) = dividend mod divisor"
    by (simp add: word_unat_eq_iff unat_ucast_mod)
  then show ?thesis using True nz e
    by (simp add: div64_u64_def div64_u64_rem_def div_u64_result div_u64_rem_def do_div_result)
next
  case False
  then have "unat divisor div 2 ^ 32 \<noteq> 0" using unat_high [of divisor] by (metis unat_eq_0)
  then have u: "unat dividend < 2 ^ 62" using assms(2) by auto
  let ?n = "1 + generic_fls (ucast (drop_bit 32 divisor))"
  obtain quot where q: "div_u64 (drop_bit ?n dividend) (ucast (drop_bit ?n divisor)) = Some quot"
      "unat dividend div unat divisor \<le> unat quot" "unat quot \<le> unat dividend div unat divisor + 1"
    by (rule div64_estimate [OF refl False u refl])
  define quot1 where "quot1 = (if quot \<noteq> 0 then quot - 1 else quot)"
  note c = quotient_correct [OF assms(1) q(2,3) quot1_def]
  have "div64_u64 dividend divisor = Some (if dividend - quot1 * divisor \<ge> divisor then quot1 + 1 else quot1)"
    by (simp only: div64_u64_def Let_def False if_False q(1) option.map quot1_def)
  moreover have "div64_u64_rem dividend divisor = Some (if dividend - quot1 * divisor \<ge> divisor
      then (quot1 + 1, dividend - quot1 * divisor - divisor) else (quot1, dividend - quot1 * divisor))"
    by (simp only: div64_u64_rem_def Let_def False if_False q(1) option.map quot1_def)
  ultimately show ?thesis using c by (auto split: if_splits)
qed

theorem div64_u64_exact_witness:
  "div64_u64 0x3fffffffffffffff 0x100000003 = Some (0x3fffffffffffffff div 0x100000003)"
  using div64_u64_exact [of "0x100000003" "0x3fffffffffffffff"] by simp


end
