(* ===== verification/Rtc.thy ===== *)
theory Rtc
  imports Div64 "HOL-Library.Signed_Division"
begin

text \<open>
  Calendar dates: \<open>lib/rtc-lib.c\<close> and \<open>lib/date.c\<close>. Numbers are integers, with the wrap-around of the
  32-bit types written out; the division of signed numbers is the truncating one.
\<close>

definition to_u32 :: "int \<Rightarrow> int" where "to_u32 x = x mod 2 ^ 32"

definition to_s32 :: "int \<Rightarrow> int" where "to_s32 x = (x + 2 ^ 31) mod 2 ^ 32 - 2 ^ 31"

record rtc_time =
  tm_sec :: int
  tm_min :: int
  tm_hour :: int
  tm_mday :: int
  tm_mon :: int
  tm_year :: int
  tm_wday :: int
  tm_yday :: int
  tm_isdst :: int

section \<open>From seconds to a date\<close>

definition is_leap_year :: "int \<Rightarrow> bool" where
  "is_leap_year year \<longleftrightarrow> year mod 4 = 0 \<and> year mod 100 \<noteq> 0 \<or> year mod 400 = 0"

definition rtc_days_in_month :: "int list" where
  "rtc_days_in_month = [31, 28, 31, 30, 31, 30, 31, 31, 30, 31, 30, 31]"

definition LEAPS_THRU_END_OF :: "int \<Rightarrow> int" where
  "LEAPS_THRU_END_OF y = y div 4 - y div 100 + y div 400"

definition rtc_month_days :: "nat \<Rightarrow> int \<Rightarrow> int" where
  "rtc_month_days month year = rtc_days_in_month ! month + (if is_leap_year year \<and> month = 1 then 1 else 0)"

function rtc_year_loop :: "int \<Rightarrow> int \<Rightarrow> int \<times> int" where
  "rtc_year_loop year days =
     (if days < 0 then
        let year1 = to_u32 (year - 1)
        in rtc_year_loop year1 (days + 365 + (if is_leap_year year1 then 1 else 0))
      else (year, days))"
  by pat_completeness auto
termination
  by (relation "measure (\<lambda>(year, days). nat (- days))") auto

declare rtc_year_loop.simps [simp del]

function rtc_month_loop :: "int \<Rightarrow> nat \<Rightarrow> int \<Rightarrow> nat \<times> int" where
  "rtc_month_loop year month days =
     (if month < 11 then
        let newdays = days - rtc_month_days month year
        in if newdays < 0 then (month, days) else rtc_month_loop year (month + 1) newdays
      else (month, days))"
  by pat_completeness auto
termination
  by (relation "measure (\<lambda>(year, month, days). 11 - month)") auto

declare rtc_month_loop.simps [simp del]

definition rtc_to_tm :: "u64 \<Rightarrow> rtc_time option" where
  "rtc_to_tm time =
     map_option (\<lambda>(q, secs0).
       let secs = uint secs0;
           days0 = to_s32 (uint q);
           year0 = to_u32 (1970 + days0 sdiv 365);
           days1 = to_s32 (days0 - (to_u32 (year0 - 1970) * 365 + LEAPS_THRU_END_OF (to_u32 (year0 - 1)) - LEAPS_THRU_END_OF 1969));
           (year, days2) = rtc_year_loop year0 days1;
           (month, days3) = rtc_month_loop year 0 days2;
           hour = secs div 3600;
           secs1 = secs - hour * 3600;
           minute = secs1 div 60
       in \<lparr>tm_sec = secs1 - minute * 60, tm_min = minute, tm_hour = hour, tm_mday = to_s32 (days3 + 1),
           tm_mon = int month + 1, tm_year = to_s32 year, tm_wday = to_s32 (days0 + 4) smod 7, tm_yday = to_s32 (days2 + 1),
           tm_isdst = 0\<rparr>)
     (div_u64_rem time 86400)"

section \<open>From a date\<close>

definition month_offset :: "int list" where
  "month_offset = [0, 31, 59, 90, 120, 151, 181, 212, 243, 273, 304, 334]"

definition rtc_calc_weekday :: "rtc_time \<Rightarrow> int \<times> rtc_time" where
  "rtc_calc_weekday tm =
     (if tm_year tm < 1753 then (- 1, tm)
      else
        let last_year = tm_year tm - 1;
            leaps_to_date = last_year sdiv 4 - last_year sdiv 100 + last_year sdiv 400;
            leap_day = (if tm_year tm smod 4 = 0 \<and> (tm_year tm smod 100 \<noteq> 0 \<or> tm_year tm smod 400 = 0) \<and> tm_mon tm > 2 then 1 else 0);
            day = leap_day + (last_year * 365 + leaps_to_date + month_offset ! nat (tm_mon tm - 1) + tm_mday tm)
        in (0, tm\<lparr>tm_wday := day smod 7\<rparr>))"

definition rtc_mktime :: "rtc_time \<Rightarrow> int" where
  "rtc_mktime tm =
     (let mon0 = tm_mon tm - 2;
          (mon, year) = (if 0 \<ge> mon0 then (mon0 + 12, tm_year tm - 1) else (mon0, tm_year tm));
          days = to_u32 (to_u32 (year sdiv 4 - year sdiv 100 + year sdiv 400 + (367 * mon) sdiv 12 + tm_mday tm) +
            year * 365 - 719499);
          hours = to_u32 (days * 24 + tm_hour tm)
      in (hours * 60 + tm_min tm) * 60 + tm_sec tm)"

definition mktime64 :: "int \<Rightarrow> int \<Rightarrow> int \<Rightarrow> int \<Rightarrow> int \<Rightarrow> int \<Rightarrow> int" where
  "mktime64 year mon day hour minute sec =
     rtc_mktime \<lparr>tm_sec = sec, tm_min = minute, tm_hour = hour, tm_mday = day, tm_mon = mon, tm_year = year,
       tm_wday = 0, tm_yday = 0, tm_isdst = 0\<rparr>"

section \<open>The calendar\<close>

lemma div_pred: "0 < m \<Longrightarrow> y div m = (y - 1) div m + (if m dvd y then 1 else 0)" for y m :: int
proof (cases "m dvd y")
  case True
  assume m: "0 < m"
  from True obtain k where k: "y = m * k" by blast
  have "(m * k - 1) div m = k - 1" using m by (intro int_div_pos_eq [where r = "m - 1"]) (simp_all add: algebra_simps)
  then show ?thesis using True k m by simp
next
  case False
  assume m: "0 < m"
  have "y mod m \<noteq> 0" using False by (simp add: dvd_eq_mod_eq_0)
  then have "0 < y mod m" using m pos_mod_sign [of m y] by linarith
  moreover have "y mod m < m" using m by (rule pos_mod_bound)
  ultimately have "(y - 1) div m = y div m"
    by (intro int_div_pos_eq [where r = "y mod m - 1"]) (simp, linarith, linarith)
  then show ?thesis using False by simp
qed

lemma leap_count:
  fixes a b c d e f :: int
  assumes "a = d + (if P then 1 else 0)" "b = e + (if Q then 1 else 0)" "c = f + (if R then 1 else 0)" "Q \<Longrightarrow> P" "R \<Longrightarrow> Q"
  shows "a - b + c = d - e + f + (if P \<and> \<not> Q \<or> R then 1 else 0)"
  using assms by (cases P; cases Q; cases R) simp_all

lemma leaps_pred: "LEAPS_THRU_END_OF y = LEAPS_THRU_END_OF (y - 1) + (if is_leap_year y then 1 else 0)"
proof -
  have l: "is_leap_year y \<longleftrightarrow> 4 dvd y \<and> \<not> 100 dvd y \<or> 400 dvd y"
    by (simp only: is_leap_year_def dvd_eq_mod_eq_0)
  have a: "4 dvd y" if "100 dvd y" by (rule dvd_trans [OF _ that]) simp
  have b: "100 dvd y" if "400 dvd y" by (rule dvd_trans [OF _ that]) simp
  show ?thesis unfolding LEAPS_THRU_END_OF_def l by (rule leap_count [OF div_pred div_pred div_pred a b]) simp_all
qed

lemma leaps_mono: "y \<le> z \<Longrightarrow> LEAPS_THRU_END_OF y \<le> LEAPS_THRU_END_OF z"
proof (induction z rule: int_ge_induct)
  case (step z)
  then show ?case using leaps_pred [of "z + 1"] by (auto split: if_splits)
qed simp

text \<open>The days before a year, and before a month of it.\<close>

definition year_start :: "int \<Rightarrow> int" where
  "year_start y = 365 * (y - 1970) + LEAPS_THRU_END_OF (y - 1) - LEAPS_THRU_END_OF 1969"

definition year_length :: "int \<Rightarrow> int" where
  "year_length y = 365 + (if is_leap_year y then 1 else 0)"

lemma year_start_Suc: "year_start (y + 1) = year_start y + year_length y"
  using leaps_pred [of y] by (simp add: year_start_def year_length_def algebra_simps)

lemma year_start_1970: "year_start 1970 = 0"
  by (simp add: year_start_def)

lemma year_start_mono: "y \<le> z \<Longrightarrow> year_start y \<le> year_start z"
proof (induction z rule: int_ge_induct)
  case (step z)
  then show ?case using year_start_Suc [of z] by (auto simp: year_length_def)
qed simp

lemma year_unique:
  assumes "year_start y + d = year_start z + e" "0 \<le> d" "d < year_length y" "0 \<le> e" "e < year_length z"
  shows "y = z" "d = e"
proof -
  have "\<not> y < z" using year_start_mono [of "y + 1" z] year_start_Suc [of y] assms by auto
  moreover have "\<not> z < y" using year_start_mono [of "z + 1" y] year_start_Suc [of z] assms by auto
  ultimately show "y = z" by simp
  then show "d = e" using assms(1) by simp
qed

lemma rtc_year_loop_result:
  assumes "year_start year + days = D" "0 \<le> D" "days < year_length year" "1970 \<le> year" "year < 2 ^ 31"
  shows "\<exists>y d. rtc_year_loop year days = (y, d) \<and> year_start y + d = D \<and> 0 \<le> d \<and> d < year_length y \<and> 1970 \<le> y \<and> y \<le> year"
  using assms
proof (induction year days rule: rtc_year_loop.induct)
  case (1 year days)
  show ?case
  proof (cases "days < 0")
    case True
    have "year \<noteq> 1970" using True "1.prems"(1,2) year_start_1970 by auto
    then have u: "to_u32 (year - 1) = year - 1" "1970 \<le> year - 1" using "1.prems"(4,5) by (simp_all add: to_u32_def)
    let ?d = "days + 365 + (if is_leap_year (year - 1) then 1 else 0)"
    have "year_start (year - 1) + ?d = D" using year_start_Suc [of "year - 1"] "1.prems"(1) by (simp add: year_length_def)
    moreover have "?d < year_length (year - 1)" using True by (simp add: year_length_def)
    ultimately have "\<exists>y d. rtc_year_loop (year - 1) ?d = (y, d) \<and> year_start y + d = D \<and> 0 \<le> d \<and> d < year_length y \<and> 1970 \<le> y \<and> y \<le> year - 1"
      using "1.IH" [OF True u(1) [symmetric]] "1.prems"(2,5) u(2) by simp
    then show ?thesis using True u(1) by (subst rtc_year_loop.simps) auto
  next
    case False
    then show ?thesis using "1.prems" by (subst rtc_year_loop.simps) auto
  qed
qed

lemma rtc_month_days_cases:
  "rtc_month_days 0 y = 31" "rtc_month_days (Suc 0) y = 28 + (if is_leap_year y then 1 else 0)" "rtc_month_days 2 y = 31"
  "rtc_month_days 3 y = 30" "rtc_month_days 4 y = 31" "rtc_month_days 5 y = 30" "rtc_month_days 6 y = 31"
  "rtc_month_days 7 y = 31" "rtc_month_days 8 y = 30" "rtc_month_days 9 y = 31" "rtc_month_days 10 y = 30" "rtc_month_days 11 y = 31"
  by (simp_all add: rtc_month_days_def rtc_days_in_month_def)

definition month_start :: "nat \<Rightarrow> int \<Rightarrow> int" where
  "month_start m y = (\<Sum>i<m. rtc_month_days i y)"

lemma month_start_Suc: "month_start (Suc m) y = month_start m y + rtc_month_days m y"
  by (simp add: month_start_def)

lemma month_start_12: "month_start 12 y = year_length y"
  by (simp add: month_start_def numeral_eq_Suc year_length_def) (simp add: rtc_month_days_def rtc_days_in_month_def numeral_eq_Suc)

lemma rtc_month_loop_result:
  assumes "0 \<le> days" "month_start month year + days < year_length year" "month \<le> 11"
  shows "\<exists>m d. rtc_month_loop year month days = (m, d) \<and> month_start m year + d = month_start month year + days \<and>
    0 \<le> d \<and> d < rtc_month_days m year \<and> m \<le> 11"
  using assms
proof (induction year month days rule: rtc_month_loop.induct)
  case (1 year month days)
  consider "month = 11" | "month < 11" "days < rtc_month_days month year" | "month < 11" "rtc_month_days month year \<le> days"
    using "1.prems"(3) by linarith
  then show ?case
  proof cases
    case 1
    then have "month_start 12 year = month_start month year + rtc_month_days month year"
      using month_start_Suc [of 11 year] by (simp add: numeral_eq_Suc)
    then show ?thesis using 1 "1.prems" month_start_12 [of year] by (subst rtc_month_loop.simps) auto
  next
    case 2
    then show ?thesis using "1.prems" by (subst rtc_month_loop.simps) (auto simp: Let_def)
  next
    case 3
    then have "\<not> days - rtc_month_days month year < 0" by simp
    note ih = "1.IH" [OF 3(1) refl this]
    show ?thesis using ih 3 "1.prems" by (subst rtc_month_loop.simps) (auto simp: Let_def month_start_Suc)
  qed
qed

section \<open>The conversions\<close>

text \<open>A date and time of the calendar from 1970 on; the bound on the year keeps the numbers of days in 32 bits.\<close>

definition valid_date :: "rtc_time \<Rightarrow> bool" where
  "valid_date tm \<longleftrightarrow> 1970 \<le> tm_year tm \<and> tm_year tm \<le> 400000 \<and> 1 \<le> tm_mon tm \<and> tm_mon tm \<le> 12 \<and>
     1 \<le> tm_mday tm \<and> tm_mday tm \<le> rtc_month_days (nat (tm_mon tm - 1)) (tm_year tm) \<and>
     0 \<le> tm_hour tm \<and> tm_hour tm < 24 \<and> 0 \<le> tm_min tm \<and> tm_min tm < 60 \<and> 0 \<le> tm_sec tm \<and> tm_sec tm < 60"

definition day_number :: "rtc_time \<Rightarrow> int" where
  "day_number tm = year_start (tm_year tm) + month_start (nat (tm_mon tm - 1)) (tm_year tm) + tm_mday tm - 1"

lemma sdiv_nonneg: "0 \<le> x \<Longrightarrow> x sdiv 4 = x div 4" "0 \<le> x \<Longrightarrow> x sdiv 100 = x div 100" "0 \<le> x \<Longrightarrow> x sdiv 400 = x div 400"
  "0 \<le> x \<Longrightarrow> x sdiv 12 = x div 12" "0 \<le> x \<Longrightarrow> x sdiv 365 = x div 365" "0 \<le> x \<Longrightarrow> x smod 7 = x mod 7"
  "0 \<le> x \<Longrightarrow> x smod 4 = x mod 4" "0 \<le> x \<Longrightarrow> x smod 100 = x mod 100" "0 \<le> x \<Longrightarrow> x smod 400 = x mod 400"
  for x :: int
  by (simp_all add: signed_divide_int_def signed_modulo_int_def sgn_if)

lemma month_cases:
  fixes m :: int
  assumes "1 \<le> m" "m \<le> 12"
  obtains "m = 1" | "m = 2" | "m = 3" | "m = 4" | "m = 5" | "m = 6" | "m = 7" | "m = 8" | "m = 9" | "m = 10" | "m = 11" | "m = 12"
proof -
  have "m = 1 \<or> m = 2 \<or> m = 3 \<or> m = 4 \<or> m = 5 \<or> m = 6 \<or> m = 7 \<or> m = 8 \<or> m = 9 \<or> m = 10 \<or> m = 11 \<or> m = 12"
    using assms by presburger
  then show thesis using that by blast
qed

lemma month_start_offset:
  assumes "1 \<le> m" "m \<le> 12"
  shows "month_start (nat (m - 1)) y = month_offset ! nat (m - 1) + (if is_leap_year y \<and> m > 2 then 1 else 0)"
  using assms
  by (cases rule: month_cases)
    (simp_all add: month_start_def month_offset_def rtc_month_days_def rtc_days_in_month_def numeral_eq_Suc)

text \<open>The formula for the days before a month of a year that starts in March.\<close>

lemma gauss_months:
  assumes "1 \<le> m" "m \<le> 12"
  shows "(if m \<le> 2 then 367 * (m + 10) div 12 - 365 else 367 * (m - 2) div 12) = month_offset ! nat (m - 1) - 29"
  using assms by (cases rule: month_cases) (simp_all add: month_offset_def numeral_eq_Suc)

lemma month_days_pos: "i < 12 \<Longrightarrow> 0 < rtc_month_days i y"
  unfolding rtc_month_days_def rtc_days_in_month_def by (auto simp: less_Suc_eq numeral_eq_Suc)

lemma month_start_bounds: "m \<le> 11 \<Longrightarrow> 0 \<le> month_start m y \<and> month_start m y + rtc_month_days m y \<le> year_length y"
proof -
  assume "m \<le> 11"
  note p = month_days_pos [of _ y]
  have "0 \<le> month_start m y" unfolding month_start_def using p \<open>m \<le> 11\<close> by (intro sum_nonneg) (simp add: less_imp_le)
  moreover have "month_start (Suc m) y \<le> month_start 12 y"
    unfolding month_start_def using p \<open>m \<le> 11\<close> by (intro sum_mono2) (auto simp: less_imp_le)
  ultimately show ?thesis by (simp add: month_start_Suc month_start_12)
qed

lemma day_number_bounds:
  assumes "valid_date tm"
  shows "0 \<le> day_number tm" "day_number tm < 150000000"
proof -
  let ?m = "nat (tm_mon tm - 1)"
  have m: "?m \<le> 11" using assms by (simp add: valid_date_def nat_le_iff)
  have "year_start 1970 \<le> year_start (tm_year tm)" "year_start (tm_year tm) \<le> year_start 400000"
    using assms by (simp_all add: valid_date_def year_start_mono)
  moreover have "year_start 400000 < 149000000" by (simp add: year_start_def LEAPS_THRU_END_OF_def)
  moreover have "year_length (tm_year tm) \<le> 366" by (simp add: year_length_def)
  ultimately show "0 \<le> day_number tm" "day_number tm < 150000000"
    using month_start_bounds [OF m, of "tm_year tm"] assms year_start_1970 unfolding day_number_def valid_date_def by linarith+
qed

lemma to_u32_self: "0 \<le> x \<Longrightarrow> x < 4294967296 \<Longrightarrow> to_u32 x = x"
  by (simp add: to_u32_def)

lemma to_u32_add: "to_u32 (to_u32 x + y) = to_u32 (x + y)"
  by (simp add: to_u32_def mod_add_left_eq)

lemma to_s32_self: "- 2147483648 \<le> x \<Longrightarrow> x < 2147483648 \<Longrightarrow> to_s32 x = x"
  by (simp add: to_s32_def)

lemma rtc_mktime_days:
  assumes "valid_date tm"
  shows "rtc_mktime tm = day_number tm * 86400 + tm_hour tm * 3600 + tm_min tm * 60 + tm_sec tm"
proof -
  note v = assms [unfolded valid_date_def]
  obtain mon year where my: "(mon, year) = (if 0 \<ge> tm_mon tm - 2 then (tm_mon tm - 2 + 12, tm_year tm - 1) else (tm_mon tm - 2, tm_year tm))"
    by (metis surj_pair)
  have nn: "0 \<le> year" "0 \<le> 367 * mon" using my v by (auto split: if_splits)
  let ?lead = "year sdiv 4 - year sdiv 100 + year sdiv 400 + (367 * mon) sdiv 12 + tm_mday tm"
  have lead: "?lead = LEAPS_THRU_END_OF year + 367 * mon div 12 + tm_mday tm"
    unfolding sdiv_nonneg(1-3) [OF nn(1)] sdiv_nonneg(4) [OF nn(2)] LEAPS_THRU_END_OF_def by (rule refl)
  have l: "LEAPS_THRU_END_OF 1969 = 477" by (simp add: LEAPS_THRU_END_OF_def)
  have m: "1 \<le> tm_mon tm" "tm_mon tm \<le> 12" using v by simp_all
  have "LEAPS_THRU_END_OF year + 367 * mon div 12 + tm_mday tm + (year * 365 - 719499) = day_number tm"
  proof (cases "tm_mon tm \<le> 2")
    case True
    then have e: "mon = tm_mon tm + 10" "year = tm_year tm - 1" using my by simp_all
    show ?thesis unfolding e day_number_def year_start_def l
      using True gauss_months [OF m] month_start_offset [OF m, of "tm_year tm"] by simp
  next
    case False
    then have e: "mon = tm_mon tm - 2" "year = tm_year tm" using my by simp_all
    show ?thesis unfolding e day_number_def year_start_def l
      using False gauss_months [OF m] month_start_offset [OF m, of "tm_year tm"] leaps_pred [of "tm_year tm"] by simp
  qed
  then have "to_u32 (to_u32 ?lead + year * 365 - 719499) = to_u32 (day_number tm)"
    unfolding lead by (metis add_diff_eq to_u32_add)
  then have "to_u32 (to_u32 ?lead + year * 365 - 719499) = day_number tm"
    using day_number_bounds [OF assms] by (simp add: to_u32_self)
  moreover have "to_u32 (day_number tm * 24 + tm_hour tm) = day_number tm * 24 + tm_hour tm"
    using day_number_bounds [OF assms] v by (intro to_u32_self) simp_all
  ultimately show ?thesis
    unfolding rtc_mktime_def Let_def my [symmetric] by simp
qed

definition day_of_year :: "rtc_time \<Rightarrow> int" where
  "day_of_year tm = month_start (nat (tm_mon tm - 1)) (tm_year tm) + tm_mday tm"

lemma date_of_day:
  assumes "0 \<le> D" "D < 110000000"
  defines "year0 \<equiv> to_u32 (1970 + D sdiv 365)"
  shows "\<exists>y e m d. rtc_year_loop year0
      (to_s32 (D - (to_u32 (year0 - 1970) * 365 + LEAPS_THRU_END_OF (to_u32 (year0 - 1)) - LEAPS_THRU_END_OF 1969))) = (y, e) \<and>
    rtc_month_loop y 0 e = (m, d) \<and> year_start y + e = D \<and> month_start m y + d = e \<and> 1970 \<le> y \<and> y \<le> 400000 \<and>
    m \<le> 11 \<and> 0 \<le> d \<and> d < rtc_month_days m y \<and> e < year_length y"
proof -
  let ?q = "D div 365"
  have "?q \<le> 110000000 div 365" using assms(2) by (intro zdiv_mono1) simp_all
  then have q: "0 \<le> ?q" "?q < 310000" using assms(1) by (simp_all add: pos_imp_zdiv_nonneg_iff)
  have y0: "year0 = 1970 + ?q" unfolding year0_def sdiv_nonneg(5) [OF assms(1)] using q by (intro to_u32_self) simp_all
  have w: "to_u32 (year0 - 1970) = ?q" "to_u32 (year0 - 1) = 1969 + ?q" unfolding y0 using q by (simp_all add: to_u32_self)
  have l69: "LEAPS_THRU_END_OF 1969 = 477" "LEAPS_THRU_END_OF 400000 = 97000" by (simp_all add: LEAPS_THRU_END_OF_def)
  have l: "477 \<le> LEAPS_THRU_END_OF (1969 + ?q)" "LEAPS_THRU_END_OF (1969 + ?q) \<le> 100000"
    using leaps_mono [of 1969 "1969 + ?q"] leaps_mono [of "1969 + ?q" 400000] q unfolding l69 by linarith+
  have "D - 364 \<le> 365 * ?q" "365 * ?q \<le> D" by linarith+
  let ?e = "D - (?q * 365 + LEAPS_THRU_END_OF (1969 + ?q) - LEAPS_THRU_END_OF 1969)"
  have s: "year_start year0 + ?e = D" unfolding y0 year_start_def by simp
  have e: "to_s32 ?e = ?e" using l \<open>365 * ?q \<le> D\<close> \<open>D - 364 \<le> 365 * ?q\<close> unfolding l69 by (intro to_s32_self) (linarith+)
  have "?e < year_length year0" using l \<open>D - 364 \<le> 365 * ?q\<close> unfolding l69 year_length_def by (simp split: if_splits)
  from rtc_year_loop_result [OF s assms(1) this] q obtain y e where y: "rtc_year_loop year0 ?e = (y, e)" "year_start y + e = D" "0 \<le> e"
      "e < year_length y" "1970 \<le> y" "y \<le> year0"
    unfolding y0 by auto
  from rtc_month_loop_result [of e 0 y] y(3,4) obtain m d where "rtc_month_loop y 0 e = (m, d)" "month_start m y + d = e" "0 \<le> d"
      "d < rtc_month_days m y" "m \<le> 11"
    by (auto simp: month_start_def)
  then show ?thesis using y e q unfolding w by (simp add: y0)
qed

lemma clock_of_seconds:
  fixes secs :: int
  assumes "0 \<le> secs" "secs < 86400" "hour = secs div 3600" "secs1 = secs - hour * 3600" "minute = secs1 div 60" "sec = secs1 - minute * 60"
  shows "0 \<le> hour" "hour < 24" "0 \<le> minute" "minute < 60" "0 \<le> sec" "sec < 60" "hour * 3600 + minute * 60 + sec = secs"
proof -
  have "secs1 = secs mod 3600" using assms(3,4) by (simp add: minus_div_mult_eq_mod)
  then have s1: "0 \<le> secs1" "secs1 < 3600" by simp_all
  have "sec = secs1 mod 60" using assms(5,6) by (simp add: minus_div_mult_eq_mod)
  then show "0 \<le> sec" "sec < 60" by simp_all
  show "0 \<le> hour" "hour < 24" using assms(1-3) by linarith+
  show "0 \<le> minute" "minute < 60" using s1 assms(5) by linarith+
  show "hour * 3600 + minute * 60 + sec = secs" using assms(4,6) by simp
qed

lemma rtc_to_tm_result:
  assumes "unat time < 2 ^ 43"
  shows "\<exists>tm. rtc_to_tm time = Some tm \<and> valid_date tm \<and> day_number tm = uint time div 86400 \<and>
    tm_hour tm * 3600 + tm_min tm * 60 + tm_sec tm = uint time mod 86400 \<and>
    tm_yday tm = day_of_year tm \<and> tm_wday tm = (uint time div 86400 + 4) mod 7 \<and> tm_isdst tm = 0"
proof -
  let ?D = "uint time div 86400" and ?S = "uint time mod 86400"
  have "int (unat time) < int (2 ^ 43)" using assms by (simp only: of_nat_less_iff)
  then have "uint time \<le> 2 ^ 43" by simp
  then have "?D \<le> 2 ^ 43 div 86400" by (intro zdiv_mono1) simp_all
  then have D: "0 \<le> ?D" "?D < 110000000" by (simp_all add: pos_imp_zdiv_nonneg_iff)
  have S: "0 \<le> ?S" "?S < 86400" by simp_all
  have dv: "div_u64_rem time 86400 = Some (time div 86400, ucast (time mod 86400))"
    by (simp add: div_u64_rem_def do_div_result)
  have "uint (time mod 86400) < 2 ^ 32" using S by (simp add: uint_mod)
  then have us: "uint (ucast (time mod 86400) :: u32) = ?S" by (simp add: unsigned_ucast_eq take_bit_int_eq_self uint_mod)
  have uq: "to_s32 (uint (time div 86400)) = ?D" using D by (simp add: uint_div to_s32_self)
  obtain y e m d where c: "rtc_year_loop (to_u32 (1970 + ?D sdiv 365))
      (to_s32 (?D - (to_u32 (to_u32 (1970 + ?D sdiv 365) - 1970) * 365 +
        LEAPS_THRU_END_OF (to_u32 (to_u32 (1970 + ?D sdiv 365) - 1)) - LEAPS_THRU_END_OF 1969))) = (y, e)"
    "rtc_month_loop y 0 e = (m, d)" "year_start y + e = ?D" "month_start m y + d = e" "1970 \<le> y" "y \<le> 400000"
    "m \<le> 11" "0 \<le> d" "d < rtc_month_days m y" "e < year_length y"
    using date_of_day [OF D] by (elim exE conjE) (rule that)
  have e: "0 \<le> e" using c(4,8) month_start_bounds [OF c(7), of y] by linarith
  have small: "e < 367" using c(10) by (simp add: year_length_def split: if_splits)
  then have d: "d < 367" using c(4) month_start_bounds [OF c(7), of y] by linarith
  define h where "h = ?S div 3600"
  define s1 where "s1 = ?S - h * 3600"
  define mi where "mi = s1 div 60"
  define se where "se = s1 - mi * 60"
  note k = clock_of_seconds [OF S h_def s1_def mi_def se_def]
  let ?tm = "\<lparr>tm_sec = se, tm_min = mi, tm_hour = h, tm_mday = d + 1,
    tm_mon = int m + 1, tm_year = y, tm_wday = (?D + 4) mod 7, tm_yday = e + 1, tm_isdst = 0\<rparr>"
  have w: "to_s32 (?D + 4) smod 7 = (?D + 4) mod 7" "to_s32 (d + 1) = d + 1" "to_s32 (e + 1) = e + 1" "to_s32 y = y"
    using D e small d c(5,6,8) by (simp_all add: to_s32_self sdiv_nonneg)
  have "rtc_to_tm time = Some ?tm"
    unfolding rtc_to_tm_def dv option.map prod.case us uq Let_def c(1,2) w h_def [symmetric] s1_def [symmetric] mi_def [symmetric] se_def [symmetric]
    by (rule refl)
  moreover have "valid_date ?tm" using c(5-9) k by (simp add: valid_date_def)
  moreover have "day_number ?tm = ?D" using c(3,4) by (simp add: day_number_def)
  moreover have "tm_yday ?tm = day_of_year ?tm" using c(4) by (simp add: day_of_year_def)
  ultimately show ?thesis using k(7) by (intro exI [of _ ?tm]) simp
qed

lemma rtc_calc_weekday_result:
  assumes "valid_date tm"
  shows "rtc_calc_weekday tm = (0, tm\<lparr>tm_wday := (day_number tm + 4) mod 7\<rparr>)"
proof -
  note v = assms [unfolded valid_date_def]
  have m: "1 \<le> tm_mon tm" "tm_mon tm \<le> 12" using v by simp_all
  let ?last = "tm_year tm - 1"
  have nn: "0 \<le> ?last" "0 \<le> tm_year tm" using v by simp_all
  have leap: "tm_year tm smod 4 = 0 \<and> (tm_year tm smod 100 \<noteq> 0 \<or> tm_year tm smod 400 = 0) \<and> tm_mon tm > 2 \<longleftrightarrow>
      is_leap_year (tm_year tm) \<and> tm_mon tm > 2"
    unfolding sdiv_nonneg [OF nn(2)] is_leap_year_def using mod_mod_cancel [of 4 400 "tm_year tm"] by auto
  define day where "day = (if is_leap_year (tm_year tm) \<and> tm_mon tm > 2 then 1 else 0) +
    (?last * 365 + LEAPS_THRU_END_OF ?last + month_offset ! nat (tm_mon tm - 1) + tm_mday tm)"
  have l: "LEAPS_THRU_END_OF 1969 = 477" by (simp add: LEAPS_THRU_END_OF_def)
  have e: "day = day_number tm + 4 + 102737 * 7"
    unfolding day_def day_number_def year_start_def month_start_offset [OF m] l by simp
  then have "0 \<le> day" using day_number_bounds [OF assms] by simp
  then have "day smod 7 = (day_number tm + 4) mod 7" by (simp only: sdiv_nonneg(6) [OF \<open>0 \<le> day\<close>]) (simp only: e mod_mult_self1)
  moreover have "rtc_calc_weekday tm = (0, tm\<lparr>tm_wday := day smod 7\<rparr>)"
    using v unfolding rtc_calc_weekday_def Let_def leap sdiv_nonneg(1-3) [OF nn(1)] LEAPS_THRU_END_OF_def [of ?last, symmetric] day_def by simp
  ultimately show ?thesis by simp
qed

lemma month_unique:
  assumes "month_start m y + d = month_start n y + e" "m \<le> 11" "n \<le> 11" "0 \<le> d" "d < rtc_month_days m y" "0 \<le> e" "e < rtc_month_days n y"
  shows "m = n" "d = e"
proof -
  have less: "month_start m y + rtc_month_days m y \<le> month_start n y" if "m < n" "n \<le> 11" for m n
  proof -
    have "month_start (Suc m) y \<le> month_start n y"
      unfolding month_start_def using that month_days_pos [of _ y] by (intro sum_mono2) (auto simp: less_imp_le)
    then show ?thesis by (simp add: month_start_Suc)
  qed
  have "\<not> m < n" "\<not> n < m" using less [of m n] less [of n m] assms by auto
  then show "m = n" by simp
  then show "d = e" using assms(1) by simp
qed

lemma date_unique:
  assumes "valid_date tm" "valid_date tm'" "rtc_mktime tm = rtc_mktime tm'"
  shows "tm_year tm = tm_year tm'" "tm_mon tm = tm_mon tm'" "tm_mday tm = tm_mday tm'"
    "tm_hour tm = tm_hour tm'" "tm_min tm = tm_min tm'" "tm_sec tm = tm_sec tm'"
proof -
  note v = assms(1,2) [unfolded valid_date_def]
  have eq: "day_number tm * 86400 + (tm_hour tm * 3600 + tm_min tm * 60 + tm_sec tm) =
      day_number tm' * 86400 + (tm_hour tm' * 3600 + tm_min tm' * 60 + tm_sec tm')"
    using assms(3) rtc_mktime_days [OF assms(1)] rtc_mktime_days [OF assms(2)] by simp
  have b: "0 \<le> tm_hour t * 3600 + tm_min t * 60 + tm_sec t \<and> tm_hour t * 3600 + tm_min t * 60 + tm_sec t < 86400"
    if "valid_date t" for t using that by (simp add: valid_date_def)
  have d: "day_number tm = day_number tm'" using eq b [OF assms(1)] b [OF assms(2)] by linarith
  then have c: "tm_hour tm * 3600 + tm_min tm * 60 + tm_sec tm = tm_hour tm' * 3600 + tm_min tm' * 60 + tm_sec tm'" using eq by simp
  show h: "tm_hour tm = tm_hour tm'" using c v by linarith
  show mi: "tm_min tm = tm_min tm'" using c h v by linarith
  show "tm_sec tm = tm_sec tm'" using c h mi by linarith
  let ?m = "nat (tm_mon tm - 1)" and ?n = "nat (tm_mon tm' - 1)"
  have mn: "?m \<le> 11" "?n \<le> 11" using v by (simp_all add: nat_le_iff)
  note bs = month_start_bounds [OF mn(1), of "tm_year tm"] month_start_bounds [OF mn(2), of "tm_year tm'"]
  have "year_start (tm_year tm) + (month_start ?m (tm_year tm) + (tm_mday tm - 1)) =
      year_start (tm_year tm') + (month_start ?n (tm_year tm') + (tm_mday tm' - 1))"
    using d by (simp add: day_number_def)
  note y = year_unique [OF this]
  show ye: "tm_year tm = tm_year tm'" using y(1) bs v by linarith
  have "month_start ?m (tm_year tm) + (tm_mday tm - 1) = month_start ?n (tm_year tm) + (tm_mday tm' - 1)"
    using y(2) bs v ye by simp
  note mu = month_unique [OF this mn]
  have "?m = ?n" using mu(1) v ye by simp
  then show "tm_mon tm = tm_mon tm'" using v by linarith
  show "tm_mday tm = tm_mday tm'" using mu(2) v ye by simp
qed

text \<open>
  C28. The conversions between seconds and dates are inverse to each other. For every time up to 2^43
  seconds, \<open>rtc_to_tm\<close> gives exactly the one date of the calendar, with a day of the week that
  \<open>rtc_calc_weekday\<close> agrees with and the right day of the year, that \<open>rtc_mktime\<close> converts back to this time.
\<close>

theorem rtc_conversions_inverse:
  assumes "unat time < 2 ^ 43"
  shows "rtc_to_tm time = Some tm \<longleftrightarrow>
    valid_date tm \<and> rtc_mktime tm = uint time \<and> rtc_calc_weekday tm = (0, tm) \<and> tm_yday tm = day_of_year tm \<and> tm_isdst tm = 0"
proof -
  obtain t where t: "rtc_to_tm time = Some t" "valid_date t" "day_number t = uint time div 86400"
      "tm_hour t * 3600 + tm_min t * 60 + tm_sec t = uint time mod 86400"
      "tm_yday t = day_of_year t" "tm_wday t = (uint time div 86400 + 4) mod 7" "tm_isdst t = 0"
    using rtc_to_tm_result [OF assms] by (elim exE conjE) (rule that)
  have mk: "rtc_mktime t = uint time"
    unfolding rtc_mktime_days [OF t(2)] t(3) using t(4) div_mult_mod_eq [of "uint time" 86400] by linarith
  have wd: "rtc_calc_weekday t = (0, t)" using rtc_calc_weekday_result [OF t(2)] t(3,6) by simp
  show ?thesis
  proof
    assume "rtc_to_tm time = Some tm"
    then show "valid_date tm \<and> rtc_mktime tm = uint time \<and> rtc_calc_weekday tm = (0, tm) \<and> tm_yday tm = day_of_year tm \<and> tm_isdst tm = 0"
      using t mk wd by simp
  next
    assume a: "valid_date tm \<and> rtc_mktime tm = uint time \<and> rtc_calc_weekday tm = (0, tm) \<and> tm_yday tm = day_of_year tm \<and> tm_isdst tm = 0"
    then have u: "tm_year tm = tm_year t" "tm_mon tm = tm_mon t" "tm_mday tm = tm_mday t"
        "tm_hour tm = tm_hour t" "tm_min tm = tm_min t" "tm_sec tm = tm_sec t"
      using date_unique [of tm t] t(2) mk by simp_all
    have "tm_wday tm = (day_number tm + 4) mod 7"
      using rtc_calc_weekday_result [of tm] a by (metis prod.inject rtc_time.select_convs(7) rtc_time.surjective rtc_time.update_convs(7))
    moreover have "day_number tm = day_number t" using u by (simp add: day_number_def)
    ultimately have "tm_wday tm = tm_wday t" using t(3,6) by simp
    moreover have "tm_yday tm = tm_yday t" using a t(5) u by (simp add: day_of_year_def)
    ultimately have "tm = t" using u a t(7) by simp
    then show "rtc_to_tm time = Some tm" using t(1) by simp
  qed
qed

theorem rtc_conversions_inverse_witness:
  "rtc_to_tm 1709210096 = Some \<lparr>tm_sec = 56, tm_min = 34, tm_hour = 12, tm_mday = 29, tm_mon = 2, tm_year = 2024,
     tm_wday = 4, tm_yday = 60, tm_isdst = 0\<rparr>"
proof -
  let ?tm = "\<lparr>tm_sec = 56, tm_min = 34, tm_hour = 12, tm_mday = 29, tm_mon = 2, tm_year = 2024, tm_wday = 4, tm_yday = 60, tm_isdst = 0\<rparr>"
  have "valid_date ?tm \<and> rtc_mktime ?tm = uint (1709210096 :: u64) \<and> rtc_calc_weekday ?tm = (0, ?tm) \<and>
      tm_yday ?tm = day_of_year ?tm \<and> tm_isdst ?tm = 0"
    by code_simp
  then show ?thesis by (subst rtc_conversions_inverse) simp_all
qed

end
