(* ===== verification/Charset.thy ===== *)
theory Charset
  imports Prelude
begin

text \<open>
  Conversion between UTF-8, UTF-16 and code page 437: \<open>lib/charset.c\<close>. A string is the list of its
  units before the terminator, a code point is an integer, and \<open>-1\<close> stands for an illegal sequence.
\<close>

section \<open>UTF-8\<close>

definition is_continuation :: "int \<Rightarrow> bool" where
  "is_continuation ch \<longleftrightarrow> \<not> (ch < 0x80 \<or> ch > 0xbf)"

text \<open>
  The bytes of a sequence before the last two, for a first byte from \<open>0xc2\<close> to \<open>0xf4\<close>: the code so far
  and the byte to go on with, or the rest of the input at an error.
\<close>

definition get_code_lead :: "('d \<Rightarrow> u8 \<times> 'd) \<Rightarrow> int \<Rightarrow> 'd \<Rightarrow> 'd + int \<times> int \<times> 'd" where
  "get_code_lead read_u8 ch d =
     (if ch \<ge> 0xe0 then
        case (if ch \<ge> 0xf0 then
                let code = push_bit 18 (ch AND 0x07); (c2, d2) = read_u8 d; ch2 = uint c2
                in if \<not> is_continuation ch2 then Inl d2 else Inr (code, ch2 AND 0x3f, d2)
              else Inr (0, ch AND 0x0f, d)) of
          Inl d2 \<Rightarrow> Inl d2
        | Inr (code, ch2, d2) \<Rightarrow>
            let code1 = code + push_bit 12 ch2
            in if 0xD800 \<le> code1 \<and> code1 \<le> 0xDFFF \<or> code1 \<ge> 0x110000 then Inl d2
               else let (c3, d3) = read_u8 d2; ch3 = uint c3
                    in if \<not> is_continuation ch3 then Inl d3 else Inr (code1, ch3, d3)
      else Inr (0, ch, d))"

definition get_code :: "('d \<Rightarrow> u8 \<times> 'd) \<Rightarrow> 'd \<Rightarrow> int \<times> 'd" where
  "get_code read_u8 d =
     (let (c, d1) = read_u8 d; ch = uint c
      in if ch = 0 then (0, d1)
         else if ch \<ge> 0xc2 \<and> ch \<le> 0xf4 then
           case get_code_lead read_u8 ch d1 of
             Inl d2 \<Rightarrow> (- 1, d2)
           | Inr (code, ch2, d2) \<Rightarrow>
               let code1 = code + push_bit 6 (ch2 AND 0x3f); (c3, d3) = read_u8 d2; ch3 = uint c3
               in if \<not> is_continuation ch3 then (- 1, d3) else ((ch3 AND 0x3f) + code1, d3)
         else if ch \<ge> 0x80 then (- 1, d1)
         else (ch, d1))"

fun read_string :: "u8 list \<Rightarrow> u8 \<times> u8 list" where
  "read_string [] = (0, [])"
| "read_string (c # src) = (c, src)"

definition utf8_get :: "u8 list \<Rightarrow> int \<times> u8 list" where
  "utf8_get src = get_code read_string src"

text \<open>The console is a parameter: \<open>getchar\<close> gives a character or a negative number, \<open>tstc\<close> says if there is one.\<close>

definition read_console :: "('d \<Rightarrow> int \<times> 'd) \<Rightarrow> 'd \<Rightarrow> u8 \<times> 'd" where
  "read_console getchar d = (let (ch, d1) = getchar d in (word_of_int (if ch < 0 then 0 else ch), d1))"

partial_function (option) console_read_unicode ::
  "('d \<Rightarrow> bool \<times> 'd) \<Rightarrow> ('d \<Rightarrow> int \<times> 'd) \<Rightarrow> 'd \<Rightarrow> (int \<times> int option \<times> 'd) option" where
  "console_read_unicode tstc getchar d =
     (case tstc d of (avail, d1) \<Rightarrow>
        if \<not> avail then Some (1, None, d1)
        else case get_code (read_console getchar) d1 of (c, d2) \<Rightarrow>
          if c > 0 then Some (0, Some c, d2) else console_read_unicode tstc getchar d2)"

text \<open>The bytes that are written, or None where the function returns \<open>-1\<close>.\<close>

definition utf8_put :: "int \<Rightarrow> u8 list option" where
  "utf8_put code =
     (if 0xD800 \<le> code \<and> code \<le> 0xDFFF \<or> code \<ge> 0x110000 then None
      else if code \<le> 0x007F then Some [word_of_int code]
      else Some
        ((if code \<le> 0x07FF then [word_of_int (drop_bit 6 code OR 0xC0)]
          else
            (if code < 0x10000 then [word_of_int (drop_bit 12 code OR 0xE0)]
             else [word_of_int (drop_bit 18 code OR 0xF0), word_of_int ((drop_bit 12 code AND 0x3F) OR 0x80)]) @
            [word_of_int ((drop_bit 6 code AND 0x3F) OR 0x80)]) @
         [word_of_int ((code AND 0x3F) OR 0x80)]))"

section \<open>UTF-16\<close>

fun utf16_get :: "u16 list \<Rightarrow> int \<times> u16 list" where
  "utf16_get [] = (0, [])"
| "utf16_get (c # src) =
     (let code = uint c
      in if 0xDC00 \<le> code \<and> code \<le> 0xDFFF then (- 1, src)
         else if 0xD800 \<le> code \<and> code \<le> 0xDBFF then
           (case src of
              [] \<Rightarrow> (- 1, [])
            | c2 # src2 \<Rightarrow>
                let code1 = push_bit 10 (code AND 0x3ff) + 0x10000; code2 = uint c2
                in if code2 \<le> 0xDC00 \<or> code2 \<ge> 0xDFFF then (- 1, src2) else (code1 + (code2 AND 0x3ff), src2))
         else (code, src))"

definition utf16_put :: "int \<Rightarrow> u16 list option" where
  "utf16_put code =
     (if 0xD800 \<le> code \<and> code \<le> 0xDFFF \<or> code \<ge> 0x110000 then None
      else if code < 0x10000 then Some [word_of_int code]
      else
        let code1 = code - 0x10000
        in Some [word_of_int (drop_bit 10 code1 OR 0xD800), word_of_int ((code1 AND 0x3ff) OR 0xDC00)])"

fun utf8_utf16_strnlen :: "u8 list \<Rightarrow> nat \<Rightarrow> nat" where
  "utf8_utf16_strnlen src 0 = 0"
| "utf8_utf16_strnlen src (Suc count) =
     (if src = [] then 0
      else case utf8_get src of (code, src1) \<Rightarrow>
        if code = 0 then 0
        else (if code < 0 then 1 else if code < 0x10000 then 1 else 2) + utf8_utf16_strnlen src1 count)"

text \<open>The units written before the terminator; what cannot be written is left out.\<close>

fun utf8_utf16_strncpy :: "u8 list \<Rightarrow> nat \<Rightarrow> u16 list" where
  "utf8_utf16_strncpy src 0 = []"
| "utf8_utf16_strncpy src (Suc count) =
     (if src = [] then []
      else case utf8_get src of (code, src1) \<Rightarrow>
        (case utf16_put (if code < 0 then 63 else code) of None \<Rightarrow> [] | Some us \<Rightarrow> us) @ utf8_utf16_strncpy src1 count)"

fun utf16_strnlen :: "u16 list \<Rightarrow> nat \<Rightarrow> nat" where
  "utf16_strnlen src 0 = 0"
| "utf16_strnlen src (Suc count) =
     (if src = [] then 0
      else case utf16_get src of (code, src1) \<Rightarrow> if code = 0 then 0 else Suc (utf16_strnlen src1 count))"

fun utf16_utf8_strnlen :: "u16 list \<Rightarrow> nat \<Rightarrow> nat" where
  "utf16_utf8_strnlen src 0 = 0"
| "utf16_utf8_strnlen src (Suc count) =
     (if src = [] then 0
      else case utf16_get src of (code, src1) \<Rightarrow>
        if code = 0 then 0
        else (if code < 0 then 1 else if code < 0x80 then 1 else if code < 0x800 then 2 else if code < 0x10000 then 3 else 4) +
          utf16_utf8_strnlen src1 count)"

fun utf16_utf8_strncpy :: "u16 list \<Rightarrow> nat \<Rightarrow> u8 list" where
  "utf16_utf8_strncpy src 0 = []"
| "utf16_utf8_strncpy src (Suc count) =
     (if src = [] then []
      else case utf16_get src of (code, src1) \<Rightarrow>
        (case utf8_put (if code < 0 then 63 else code) of None \<Rightarrow> [] | Some bs \<Rightarrow> bs) @ utf16_utf8_strncpy src1 count)"

section \<open>Strings of 16-bit units\<close>

text \<open>The table for code page 437, pairs of a capital and a small letter.\<close>

definition capitalization_table :: "(int \<times> int) list" where
  "capitalization_table =
    [(0x00C4, 0x00E4), (0x00C5, 0x00E5), (0x00C6, 0x00E6), (0x00C7, 0x00E7), (0x00C9, 0x00E9), (0x00D1, 0x00F1), (0x00D6, 0x00F6), (0x00DC, 0x00FC), (0x03A3, 0x03C3), (0x03A6, 0x03C6)]"

definition utf_to_lower :: "int \<Rightarrow> int" where
  "utf_to_lower code =
     (if code \<le> 0x7f then if 65 \<le> code \<and> code \<le> 90 then code + 0x20 else code
      else case find (\<lambda>(u, l). u = code) capitalization_table of Some (u, l) \<Rightarrow> l | None \<Rightarrow> code)"

definition utf_to_upper :: "int \<Rightarrow> int" where
  "utf_to_upper code =
     (if code \<le> 0x7f then if 97 \<le> code \<and> code \<le> 122 then code - 0x20 else code
      else case find (\<lambda>(u, l). l = code) capitalization_table of Some (u, l) \<Rightarrow> u | None \<Rightarrow> code)"

lemma utf16_get_shorter: "utf16_get src = (code, src1) \<Longrightarrow> code \<noteq> 0 \<Longrightarrow> length src1 < length src"
  by (cases src rule: utf16_get.cases) (auto simp: Let_def split: if_splits list.splits)

function u16_strcasecmp :: "u16 list \<Rightarrow> u16 list \<Rightarrow> int" where
  "u16_strcasecmp s1 s2 =
     (let (code1, t1) = utf16_get s1; (code2, t2) = utf16_get s2;
          c1 = utf_to_upper code1; c2 = utf_to_upper code2; ret = c1 - c2
      in if ret \<noteq> 0 \<or> c1 = 0 \<or> c1 = - 1 \<or> c2 = - 1 then ret else u16_strcasecmp t1 t2)"
  by pat_completeness auto
termination
proof (relation "measure (\<lambda>(s1, s2). length s1)", goal_cases)
  case (2 s1 s2 p code1 t1 q code2 t2 c1 c2 ret)
  then have "code1 \<noteq> 0" by (auto simp: utf_to_upper_def)
  then show ?case using 2 utf16_get_shorter [of s1 code1 t1] by simp
qed simp

declare u16_strcasecmp.simps [simp del]

fun u16_strncmp :: "u16 list \<Rightarrow> u16 list \<Rightarrow> nat \<Rightarrow> int" where
  "u16_strncmp s1 s2 0 = 0"
| "u16_strncmp s1 s2 (Suc n) =
     (let c1 = (case s1 of [] \<Rightarrow> 0 | c # s \<Rightarrow> uint c); c2 = (case s2 of [] \<Rightarrow> 0 | c # s \<Rightarrow> uint c); ret = c1 - c2
      in if ret \<noteq> 0 \<or> c1 = 0 then ret else u16_strncmp (tl s1) (tl s2) n)"

fun u16_strnlen :: "u16 list \<Rightarrow> nat \<Rightarrow> nat" where
  "u16_strnlen (c # s) (Suc count) = (if c = 0 then 0 else Suc (u16_strnlen s count))"
| "u16_strnlen s count = 0"

definition u16_strlen :: "u16 list \<Rightarrow> nat" where
  "u16_strlen s = u16_strnlen s (2 ^ 32 - 1)"

definition u16_strsize :: "u16 list \<Rightarrow> nat" where
  "u16_strsize s = (u16_strlen s + 1) * 2"

primrec u16_strcpy :: "u16 list \<Rightarrow> u16 list" where
  "u16_strcpy [] = [0]"
| "u16_strcpy (c # src) = (if c = 0 then [0] else c # u16_strcpy src)"

definition u16_strdup :: "allocator \<Rightarrow> u16 list option \<Rightarrow> u16 list option" where
  "u16_strdup malloc src =
     (case src of
        None \<Rightarrow> None
      | Some s \<Rightarrow> if malloc (u16_strsize s) then Some (take (u16_strlen s) s) else None)"

text \<open>The text in the buffer of \<open>count\<close> units afterwards and the length that was wanted.\<close>

definition u16_strlcat :: "u16 list \<Rightarrow> u16 list \<Rightarrow> nat \<Rightarrow> nat \<times> u16 list" where
  "u16_strlcat dest src count =
     (let destlen = u16_strnlen dest count; srclen = u16_strlen src; ret = destlen + srclen
      in if destlen \<ge> count then (ret, dest)
         else
           let srclen1 = (if ret \<ge> count then srclen - (ret - count + 1) else srclen)
           in (ret, take destlen dest @ take srclen1 src))"

section \<open>UTF-16 to UTF-8 in one pass\<close>

text \<open>A byte of a code at a shift.\<close>

definition utf8_byte :: "nat \<Rightarrow> int \<Rightarrow> u8" where
  "utf8_byte n code = word_of_int ((drop_bit n code AND 0x3F) OR 0x80)"

fun utf16_to_utf8_loop :: "nat \<Rightarrow> int \<Rightarrow> u16 list \<Rightarrow> u8 list" where
  "utf16_to_utf8_loop 0 code_high src = []"
| "utf16_to_utf8_loop (Suc sz) code_high src =
     (let code = uint (hd src); src1 = tl src
      in if code_high \<noteq> 0 then
           if 0xDC00 \<le> code \<and> code \<le> 0xDFFF then
             let code1 = push_bit 10 (code_high - 0xD800) + (code - 0xDC00) + 0x10000
             in [word_of_int (drop_bit 18 code1 OR 0xF0), utf8_byte 12 code1, utf8_byte 6 code1, utf8_byte 0 code1] @
               utf16_to_utf8_loop sz 0 src1
           else 63 # utf16_to_utf8_loop sz 0 src
         else if code \<le> 0x007F then word_of_int code # utf16_to_utf8_loop sz 0 src1
         else if code \<le> 0x07FF then [word_of_int (drop_bit 6 code OR 0xC0), utf8_byte 0 code] @ utf16_to_utf8_loop sz 0 src1
         else if 0xD800 \<le> code \<and> code \<le> 0xDBFF then utf16_to_utf8_loop sz code src1
         else if 0xDC00 \<le> code \<and> code \<le> 0xDFFF then 63 # utf16_to_utf8_loop sz 0 src1
         else [word_of_int (drop_bit 12 code OR 0xE0), utf8_byte 6 code, utf8_byte 0 code] @ utf16_to_utf8_loop sz 0 src1)"

definition utf16_to_utf8 :: "u16 list \<Rightarrow> u8 list" where
  "utf16_to_utf8 src = utf16_to_utf8_loop (length src) 0 src"

section \<open>Code page 437 and streams of bytes\<close>

definition codepage_437 :: "int list" where
  "codepage_437 =
    [0x0000, 0x263a, 0x263b, 0x2665, 0x2666, 0x2663, 0x2660, 0x2022, 0x25d8, 0x25cb, 0x25d9, 0x2642, 0x2640, 0x266a, 0x266b, 0x263c,
     0x25ba, 0x25c4, 0x2195, 0x203c, 0x00b6, 0x00a7, 0x25ac, 0x21a8, 0x2191, 0x2193, 0x2192, 0x2190, 0x221f, 0x2194, 0x25b2, 0x25bc,
     0x00c7, 0x00fc, 0x00e9, 0x00e2, 0x00e4, 0x00e0, 0x00e5, 0x00e7, 0x00ea, 0x00eb, 0x00e8, 0x00ef, 0x00ee, 0x00ec, 0x00c4, 0x00c5,
     0x00c9, 0x00e6, 0x00c6, 0x00f4, 0x00f6, 0x00f2, 0x00fb, 0x00f9, 0x00ff, 0x00d6, 0x00dc, 0x00a2, 0x00a3, 0x00a5, 0x20a7, 0x0192,
     0x00e1, 0x00ed, 0x00f3, 0x00fa, 0x00f1, 0x00d1, 0x00aa, 0x00ba, 0x00bf, 0x2310, 0x00ac, 0x00bd, 0x00bc, 0x00a1, 0x00ab, 0x00bb,
     0x2591, 0x2592, 0x2593, 0x2502, 0x2524, 0x2561, 0x2562, 0x2556, 0x2555, 0x2563, 0x2551, 0x2557, 0x255d, 0x255c, 0x255b, 0x2510,
     0x2514, 0x2534, 0x252c, 0x251c, 0x2500, 0x253c, 0x255e, 0x255f, 0x255a, 0x2554, 0x2569, 0x2566, 0x2560, 0x2550, 0x256c, 0x2567,
     0x2568, 0x2564, 0x2565, 0x2559, 0x2558, 0x2552, 0x2553, 0x256b, 0x256a, 0x2518, 0x250c, 0x2588, 0x2584, 0x258c, 0x2590, 0x2580,
     0x03b1, 0x00df, 0x0393, 0x03c0, 0x03a3, 0x03c3, 0x00b5, 0x03c4, 0x03a6, 0x0398, 0x03a9, 0x03b4, 0x221e, 0x03c6, 0x03b5, 0x2229,
     0x2261, 0x00b1, 0x2265, 0x2264, 0x2320, 0x2321, 0x00f7, 0x2248, 0x00b0, 0x2219, 0x00b7, 0x221a, 0x207f, 0x00b2, 0x25a0, 0x00a0]"

fun cp_index :: "int \<Rightarrow> int list \<Rightarrow> int \<Rightarrow> int option" where
  "cp_index c [] j = None"
| "cp_index c (x # xs) j = (if c = x then Some j else cp_index c xs (j + 1))"

definition utf_to_cp :: "int \<Rightarrow> int list \<Rightarrow> int \<times> int" where
  "utf_to_cp c codepage =
     (if c \<ge> 0x80 then
        case cp_index c (take 0xA0 codepage) 0 of
          Some j \<Rightarrow> (0, if j < 0x20 then j else j + 0x60)
        | None \<Rightarrow> (- ENOENT, 63)
      else (0, c))"

text \<open>
  A byte is added to the buffer. A byte 0 does not lengthen the string in the buffer, but the end that the
  position is compared with is behind it.
\<close>

partial_function (option) utf8_to_utf32_stream :: "u8 \<Rightarrow> u8 list \<Rightarrow> (int \<times> u8 list) option" where
  "utf8_to_utf32_stream c buffer =
     (let text = (if c = 0 then buffer else buffer @ [c])
      in case utf8_get text of (s, pos) \<Rightarrow>
        if s > 0 then Some (s, [])
        else if c \<noteq> 0 \<and> pos = [] then Some (0, text)
        else utf8_to_utf32_stream c [])"

partial_function (option) utf8_to_cp437_stream :: "u8 \<Rightarrow> u8 list \<Rightarrow> (int \<times> u8 list) option" where
  "utf8_to_cp437_stream c buffer =
     (let text = (if c = 0 then buffer else buffer @ [c])
      in case utf8_get text of (s, pos) \<Rightarrow>
        if s > 0 then Some (snd (utf_to_cp s codepage_437), [])
        else if c \<noteq> 0 \<and> pos = [] then Some (0, text)
        else utf8_to_cp437_stream c [])"

end
