(* ===== verification/Charset_Props.thy ===== *)
theory Charset_Props
  imports Charset
begin

text \<open>
  What the conversions do on well-formed text, where they go wrong, and that they agree on lengths.
\<close>

section \<open>Bits as arithmetic\<close>

lemma or_disjoint: "0 \<le> a \<Longrightarrow> a < 2 ^ k \<Longrightarrow> a OR (m * 2 ^ k) = a + m * 2 ^ k" for a m :: int
proof -
  assume a: "0 \<le> a" "a < 2 ^ k"
  then have t: "take_bit k a = a" by (simp add: take_bit_int_eq_self)
  have "\<not> bit a n \<or> \<not> bit (push_bit k m) n" for n
    by (metis bit_push_bit_iff bit_take_bit_iff not_less t)
  then have "a + push_bit k m = a OR push_bit k m" by (rule disjunctive_add)
  then show ?thesis by (simp add: push_bit_eq_mult)
qed

lemma or_marks:
  "0 \<le> a \<Longrightarrow> a < 64 \<Longrightarrow> a OR 0x80 = a + 0x80" "0 \<le> a \<Longrightarrow> a < 64 \<Longrightarrow> a OR 0xC0 = a + 0xC0"
  "0 \<le> a \<Longrightarrow> a < 16 \<Longrightarrow> a OR 0xE0 = a + 0xE0" "0 \<le> a \<Longrightarrow> a < 8 \<Longrightarrow> a OR 0xF0 = a + 0xF0"
  "0 \<le> a \<Longrightarrow> a < 1024 \<Longrightarrow> a OR 0xD800 = a + 0xD800" "0 \<le> a \<Longrightarrow> a < 1024 \<Longrightarrow> a OR 0xDC00 = a + 0xDC00" for a :: int
  using or_disjoint [of a 6 2] or_disjoint [of a 6 3] or_disjoint [of a 4 14] or_disjoint [of a 3 30]
    or_disjoint [of a 10 54] or_disjoint [of a 10 55] by simp_all

lemma and_marks:
  "a AND 0x3f = a mod 64" "a AND 0x0f = a mod 16" "a AND 0x07 = a mod 8" "a AND 0x3ff = a mod 1024" for a :: int
  using take_bit_eq_mask [of 6 a] take_bit_eq_mask [of 4 a] take_bit_eq_mask [of 3 a] take_bit_eq_mask [of 10 a]
  by (simp_all add: take_bit_eq_mod mask_eq_exp_minus_1)

lemma mark_mod: "0 \<le> a \<Longrightarrow> a < c \<Longrightarrow> (a + m * c) mod c = a" for a c m :: int
  by simp

lemma mod_marks:
  "0 \<le> a \<Longrightarrow> a < 64 \<Longrightarrow> (a + 0x80) mod 64 = a" "0 \<le> a \<Longrightarrow> a < 64 \<Longrightarrow> (a + 0xC0) mod 64 = a"
  "0 \<le> a \<Longrightarrow> a < 16 \<Longrightarrow> (a + 0xE0) mod 16 = a" "0 \<le> a \<Longrightarrow> a < 8 \<Longrightarrow> (a + 0xF0) mod 8 = a"
  "0 \<le> a \<Longrightarrow> a < 1024 \<Longrightarrow> (a + 0xD800) mod 1024 = a" "0 \<le> a \<Longrightarrow> a < 1024 \<Longrightarrow> (a + 0xDC00) mod 1024 = a" for a :: int
  by (use mark_mod [of a 64 2] in simp, use mark_mod [of a 64 3] in simp, use mark_mod [of a 16 14] in simp,
      use mark_mod [of a 8 30] in simp, use mark_mod [of a 1024 54] in simp, use mark_mod [of a 1024 55] in simp)

lemmas bits = or_marks and_marks drop_bit_eq_div [where 'a = int] push_bit_eq_mult [where 'a = int]

lemma uint_byte: "0 \<le> x \<Longrightarrow> x < 256 \<Longrightarrow> uint (word_of_int x :: u8) = x"
  by (simp add: uint_word_of_int)

lemma uint_unit: "0 \<le> x \<Longrightarrow> x < 65536 \<Longrightarrow> uint (word_of_int x :: u16) = x"
  by (simp add: uint_word_of_int)

section \<open>Code points\<close>

definition scalar :: "int \<Rightarrow> bool" where
  "scalar c \<longleftrightarrow> 0 < c \<and> c < 0x110000 \<and> \<not> (0xD800 \<le> c \<and> c \<le> 0xDFFF)"

text \<open>The bytes of a code point, in arithmetic.\<close>

definition utf8_digits :: "int \<Rightarrow> int list" where
  "utf8_digits c =
    (if c \<le> 0x7F then [c]
     else if c \<le> 0x7FF then [c div 64 + 0xC0, c mod 64 + 0x80]
     else if c < 0x10000 then [c div 4096 + 0xE0, c div 64 mod 64 + 0x80, c mod 64 + 0x80]
     else [c div 262144 + 0xF0, c div 4096 mod 64 + 0x80, c div 64 mod 64 + 0x80, c mod 64 + 0x80])"

lemma utf8_put_bytes:
  assumes "scalar c"
  shows "utf8_put c = Some (map word_of_int (utf8_digits c))"
proof -
  have "0 \<le> c div 64" "0 \<le> c div 4096" "0 \<le> c div 262144" using assms by (simp_all add: scalar_def pos_imp_zdiv_nonneg_iff)
  moreover have "c \<le> 0x7FF \<Longrightarrow> c div 64 < 64" "c < 0x10000 \<Longrightarrow> c div 4096 < 16" "c div 262144 < 8"
    using assms by (auto simp: scalar_def)
  ultimately show ?thesis using assms by (auto simp: utf8_put_def utf8_digits_def scalar_def bits)
qed

lemma no_lead_surrogate: "\<not> (0xD800 \<le> n * 4096 \<and> n * 4096 \<le> 0xDFFF)" for n :: int
proof (cases "n \<le> 13")
  case False
  then have "14 \<le> n" by linarith
  then show ?thesis by linarith
qed linarith

lemma utf8_get_2:
  assumes "uint c1 = a + 0xC0" "uint c2 = b + 0x80" "2 \<le> a" "a < 32" "0 \<le> b" "b < 64"
  shows "utf8_get (c1 # c2 # rest) = (a * 64 + b, rest)"
proof -
  have "get_code_lead read_string (uint c1) (c2 # rest) = Inr (0, uint c1, c2 # rest)"
    using assms by (simp add: get_code_lead_def)
  then show ?thesis
    using assms by (simp add: utf8_get_def get_code_def is_continuation_def bits mod_marks)
qed

lemma utf8_get_3:
  assumes "uint c1 = a + 0xE0" "uint c2 = b + 0x80" "uint c3 = d + 0x80" "0 \<le> a" "a < 16" "0 \<le> b" "b < 64" "0 \<le> d" "d < 64"
  shows "utf8_get (c1 # c2 # c3 # rest) = (a * 4096 + b * 64 + d, rest)"
proof -
  have "get_code_lead read_string (uint c1) (c2 # c3 # rest) = Inr (a * 4096, uint c2, c3 # rest)"
    using assms no_lead_surrogate [of a] by (simp add: get_code_lead_def is_continuation_def Let_def bits mod_marks)
  then show ?thesis
    using assms by (simp add: utf8_get_def get_code_def is_continuation_def bits mod_marks)
qed

lemma utf8_get_4:
  assumes "uint c1 = a + 0xF0" "uint c2 = b + 0x80" "uint c3 = d + 0x80" "uint c4 = e + 0x80"
    and "0 \<le> a" "a \<le> 4" "0 \<le> b" "b < 64" "0 \<le> d" "d < 64" "0 \<le> e" "e < 64" "a * 64 + b < 0x110"
  shows "utf8_get (c1 # c2 # c3 # c4 # rest) = (a * 262144 + b * 4096 + d * 64 + e, rest)"
proof -
  have "\<not> (0xD800 \<le> a * 262144 + b * 4096 \<and> a * 262144 + b * 4096 \<le> 0xDFFF)"
    using no_lead_surrogate [of "a * 64 + b"] by (simp add: algebra_simps)
  then have "get_code_lead read_string (uint c1) (c2 # c3 # c4 # rest) = Inr (a * 262144 + b * 4096, uint c3, c4 # rest)"
    using assms by (simp add: get_code_lead_def is_continuation_def Let_def bits mod_marks)
  then show ?thesis
    using assms by (simp add: utf8_get_def get_code_def is_continuation_def bits mod_marks)
qed

text \<open>What is written for a code point is read back, and nothing more is read.\<close>

definition utf8_bytes :: "int \<Rightarrow> u8 list" where
  "utf8_bytes c = (case utf8_put c of None \<Rightarrow> [] | Some bs \<Rightarrow> bs)"

lemma utf8_put_Some: "scalar c \<Longrightarrow> utf8_put c = Some (utf8_bytes c)"
  by (simp add: utf8_put_def utf8_bytes_def scalar_def)

lemma code_digits:
  "c div 64 * 64 + c mod 64 = c"
  "c div 4096 * 4096 + c div 64 mod 64 * 64 + c mod 64 = c"
  "c div 262144 * 64 + c div 4096 mod 64 = c div 4096"
  "c div 262144 * 262144 + c div 4096 mod 64 * 4096 + c div 64 mod 64 * 64 + c mod 64 = c" for c :: int
proof -
  have d: "c div 4096 = c div 64 div 64" "c div 262144 = c div 4096 div 64" by (simp_all flip: zdiv_zmult2_eq)
  show "c div 64 * 64 + c mod 64 = c" by (rule div_mult_mod_eq)
  show "c div 4096 * 4096 + c div 64 mod 64 * 64 + c mod 64 = c"
    using d(1) div_mult_mod_eq [of c 64] div_mult_mod_eq [of "c div 64" 64] by linarith
  show "c div 262144 * 64 + c div 4096 mod 64 = c div 4096"
    unfolding d(2) by (rule div_mult_mod_eq)
  show "c div 262144 * 262144 + c div 4096 mod 64 * 4096 + c div 64 mod 64 * 64 + c mod 64 = c"
    using d div_mult_mod_eq [of c 64] div_mult_mod_eq [of "c div 64" 64] div_mult_mod_eq [of "c div 4096" 64] by linarith
qed

lemma utf8_get_digits:
  "2 \<le> a \<Longrightarrow> a < 32 \<Longrightarrow> 0 \<le> b \<Longrightarrow> b < 64 \<Longrightarrow>
    utf8_get (map word_of_int [a + 0xC0, b + 0x80] @ rest) = (a * 64 + b, rest)"
  "0 \<le> a \<Longrightarrow> a < 16 \<Longrightarrow> 0 \<le> b \<Longrightarrow> b < 64 \<Longrightarrow> 0 \<le> d \<Longrightarrow> d < 64 \<Longrightarrow>
    utf8_get (map word_of_int [a + 0xE0, b + 0x80, d + 0x80] @ rest) = (a * 4096 + b * 64 + d, rest)"
  "0 \<le> a \<Longrightarrow> a \<le> 4 \<Longrightarrow> 0 \<le> b \<Longrightarrow> b < 64 \<Longrightarrow> 0 \<le> d \<Longrightarrow> d < 64 \<Longrightarrow> 0 \<le> e \<Longrightarrow> e < 64 \<Longrightarrow> a * 64 + b < 0x110 \<Longrightarrow>
    utf8_get (map word_of_int [a + 0xF0, b + 0x80, d + 0x80, e + 0x80] @ rest) = (a * 262144 + b * 4096 + d * 64 + e, rest)"
  unfolding list.map append.simps
  by ((rule utf8_get_2 [OF uint_byte uint_byte]; linarith), (rule utf8_get_3 [OF uint_byte uint_byte uint_byte]; linarith),
      (rule utf8_get_4 [OF uint_byte uint_byte uint_byte uint_byte]; linarith))

lemma utf8_get_bytes:
  assumes "scalar c"
  shows "utf8_get (utf8_bytes c @ rest) = (c, rest)"
proof -
  have r: "0 \<le> c mod 64" "c mod 64 < 64" "0 \<le> c div 64 mod 64" "c div 64 mod 64 < 64" "0 \<le> c div 4096 mod 64" "c div 4096 mod 64 < 64"
    by simp_all
  consider "c \<le> 0x7F" | "0x7F < c" "c \<le> 0x7FF" | "0x7FF < c" "c < 0x10000" | "0x10000 \<le> c" by linarith
  then show ?thesis
  proof cases
    case 1
    then show ?thesis using assms
      by (simp add: utf8_bytes_def utf8_put_bytes utf8_digits_def utf8_get_def get_code_def uint_byte scalar_def)
  next
    case 2
    then have "2 \<le> c div 64" "c div 64 < 32" by linarith+
    from utf8_get_digits(1) [OF this r(1,2), of rest] show ?thesis
      using 2 by (simp only: utf8_bytes_def utf8_put_bytes [OF assms] utf8_digits_def code_digits) simp
  next
    case 3
    then have "0 \<le> c div 4096" "c div 4096 < 16" by linarith+
    from utf8_get_digits(2) [OF this r(3,4,1,2), of rest] show ?thesis
      using 3 by (simp only: utf8_bytes_def utf8_put_bytes [OF assms] utf8_digits_def code_digits) simp
  next
    case 4
    then have "0 \<le> c div 262144" "c div 262144 \<le> 4" "c div 4096 < 0x110" using assms unfolding scalar_def by linarith+
    from utf8_get_digits(3) [OF this(1,2) r(5,6,3,4,1,2), unfolded code_digits, OF this(3), of rest] show ?thesis
      using 4 by (simp only: utf8_bytes_def utf8_put_bytes [OF assms] utf8_digits_def) simp
  qed
qed

definition utf16_units :: "int \<Rightarrow> u16 list" where
  "utf16_units c = (case utf16_put c of None \<Rightarrow> [] | Some us \<Rightarrow> us)"

lemma utf16_put_Some: "scalar c \<Longrightarrow> utf16_put c = Some (utf16_units c)"
  by (simp add: utf16_put_def utf16_units_def scalar_def Let_def)

text \<open>The code points whose second unit is the first or the last one of its range.\<close>

definition edge :: "int \<Rightarrow> bool" where
  "edge c \<longleftrightarrow> 0x10000 \<le> c \<and> (c mod 1024 = 0 \<or> c mod 1024 = 1023)"

lemma surrogate_digits:
  assumes "scalar c" "0x10000 \<le> c"
  shows "utf16_units c = [word_of_int ((c - 0x10000) div 1024 + 0xD800), word_of_int (c mod 1024 + 0xDC00)]"
    and "0 \<le> (c - 0x10000) div 1024" and "(c - 0x10000) div 1024 < 1024"
    and "(c - 0x10000) div 1024 * 1024 + 0x10000 + c mod 1024 = c"
proof -
  have m: "(c - 0x10000) mod 1024 = c mod 1024" using mod_mult_self1 [of c "- 64" 1024] by simp
  show q: "0 \<le> (c - 0x10000) div 1024" "(c - 0x10000) div 1024 < 1024" using assms unfolding scalar_def by linarith+
  show "(c - 0x10000) div 1024 * 1024 + 0x10000 + c mod 1024 = c"
    using div_mult_mod_eq [of "c - 0x10000" 1024] m by linarith
  show "utf16_units c = [word_of_int ((c - 0x10000) div 1024 + 0xD800), word_of_int (c mod 1024 + 0xDC00)]"
    using assms q m by (simp add: utf16_units_def utf16_put_def scalar_def Let_def bits)
qed

lemma utf16_get_pair:
  assumes "uint c1 = a + 0xD800" "uint c2 = b + 0xDC00" "0 \<le> a" "a < 1024" "0 \<le> b" "b < 1024"
  shows "utf16_get (c1 # c2 # rest) = (if b = 0 \<or> b = 1023 then - 1 else a * 1024 + 0x10000 + b, rest)"
  using assms by (simp add: bits mod_marks Let_def)

lemma utf16_get_units:
  assumes "scalar c"
  shows "utf16_get (utf16_units c @ rest) = (if edge c then - 1 else c, rest)"
proof (cases "c < 0x10000")
  case True
  then show ?thesis using assms
    by (auto simp add: utf16_units_def utf16_put_def scalar_def edge_def uint_unit Let_def)
next
  case False
  then have c: "0x10000 \<le> c" by simp
  note d = surrogate_digits [OF assms c]
  have r: "0 \<le> c mod 1024" "c mod 1024 < 1024" by simp_all
  have "utf16_get (word_of_int ((c - 0x10000) div 1024 + 0xD800) # word_of_int (c mod 1024 + 0xDC00) # rest) =
      (if c mod 1024 = 0 \<or> c mod 1024 = 1023 then - 1 else (c - 0x10000) div 1024 * 1024 + 0x10000 + c mod 1024, rest)"
    by (rule utf16_get_pair [OF uint_unit uint_unit]) (use d(2,3) r in linarith)+
  then show ?thesis using c unfolding d(1,4) edge_def append.simps by simp
qed

section \<open>Strings\<close>

definition utf8_text :: "int list \<Rightarrow> u8 list" where
  "utf8_text cs = concat (map utf8_bytes cs)"

definition utf16_text :: "int list \<Rightarrow> u16 list" where
  "utf16_text cs = concat (map utf16_units cs)"

lemma text_simps [simp]:
  "utf8_text [] = []" "utf8_text (c # cs) = utf8_bytes c @ utf8_text cs"
  "utf16_text [] = []" "utf16_text (c # cs) = utf16_units c @ utf16_text cs"
  by (simp_all add: utf8_text_def utf16_text_def)

lemma not_empty: "scalar c \<Longrightarrow> utf8_bytes c \<noteq> []" "scalar c \<Longrightarrow> utf16_units c \<noteq> []"
  by (auto simp add: utf8_bytes_def utf16_units_def utf8_put_def utf16_put_def scalar_def Let_def)

lemma units_length: "scalar c \<Longrightarrow> length (utf16_units c) = (if c < 0x10000 then 1 else 2)"
  by (simp add: utf16_units_def utf16_put_def scalar_def Let_def)

lemma bytes_length:
  "scalar c \<Longrightarrow> length (utf8_bytes c) = (if c < 0x80 then 1 else if c < 0x800 then 2 else if c < 0x10000 then 3 else 4)"
  by (simp add: utf8_bytes_def utf8_put_def scalar_def)

lemma utf8_utf16_text:
  "list_all scalar cs \<Longrightarrow> utf8_utf16_strncpy (utf8_text cs) n = utf16_text (take n cs) \<and>
    utf8_utf16_strnlen (utf8_text cs) n = length (utf16_text (take n cs))"
proof (induction n arbitrary: cs)
  case (Suc n)
  show ?case
  proof (cases cs)
    case (Cons c cs')
    then have "scalar c" "list_all scalar cs'" using Suc.prems by simp_all
    then show ?thesis using Suc.IH [of cs'] Cons
      by (simp add: not_empty utf8_get_bytes units_length utf16_put_Some) (simp add: scalar_def)
  qed simp
qed simp

text \<open>An edge is replaced by a question mark on the way back.\<close>

definition replaced :: "int \<Rightarrow> int" where
  "replaced c = (if edge c then 63 else c)"

lemma scalar_replaced: "scalar c \<Longrightarrow> scalar (replaced c)"
  by (simp add: replaced_def scalar_def)

lemma utf16_utf8_text:
  "list_all scalar cs \<Longrightarrow> utf16_utf8_strncpy (utf16_text cs) n = utf8_text (map replaced (take n cs)) \<and>
    utf16_utf8_strnlen (utf16_text cs) n = length (utf8_text (map replaced (take n cs))) \<and>
    utf16_strnlen (utf16_text cs) n = min n (length cs)"
proof (induction n arbitrary: cs)
  case (Suc n)
  show ?case
  proof (cases cs)
    case (Cons c cs')
    then have c: "scalar c" "list_all scalar cs'" using Suc.prems by simp_all
    have "utf8_put (if (if edge c then - 1 else c) < 0 then 63 else if edge c then - 1 else c) = Some (utf8_bytes (replaced c))"
      using c(1) utf8_put_Some [OF scalar_replaced [OF c(1)]] by (auto simp: replaced_def scalar_def)
    then show ?thesis using Suc.IH [OF c(2)] Cons c
      by (auto simp add: not_empty utf16_get_units bytes_length scalar_replaced) (auto simp add: replaced_def scalar_def)
  qed simp
qed simp

lemma utf16_to_utf8_step:
  assumes "scalar c"
  shows "utf16_to_utf8_loop (length (utf16_units c) + k) 0 (utf16_units c @ rest) = utf8_bytes c @ utf16_to_utf8_loop k 0 rest"
proof (cases "c < 0x10000")
  case True
  then show ?thesis using assms
    by (auto simp add: utf16_units_def utf16_put_def utf8_bytes_def utf8_put_def utf8_byte_def scalar_def uint_unit Let_def)
next
  case False
  then have c: "0x10000 \<le> c" by simp
  note d = surrogate_digits [OF assms c]
  obtain c1 c2 where u: "utf16_units c = [c1, c2]" "uint c1 = (c - 0x10000) div 1024 + 0xD800" "uint c2 = c mod 1024 + 0xDC00"
    using d(1) uint_unit [of "(c - 0x10000) div 1024 + 0xD800"] uint_unit [of "c mod 1024 + 0xDC00"] d(2,3) by simp
  have "push_bit 10 (uint c1 - 0xD800) + (uint c2 - 0xDC00) + 0x10000 = c"
    using d(4) u by (simp add: push_bit_eq_mult)
  moreover have "c mod 1024 \<le> 1023" using pos_mod_bound [of 1024 c] by linarith
  ultimately show ?thesis using d(2,3) u c assms
    by (simp add: utf8_bytes_def utf8_put_def utf8_byte_def scalar_def numeral_2_eq_2 Let_def)
qed

lemma utf16_to_utf8_text: "list_all scalar cs \<Longrightarrow> utf16_to_utf8 (utf16_text cs) = utf8_text cs"
  unfolding utf16_to_utf8_def
  by (induction cs) (simp_all add: utf16_to_utf8_step)

section \<open>Streams\<close>

lemma utf8_get_part_1:
  assumes "0xc2 \<le> uint c1" "uint c1 \<le> 0xf4"
  shows "utf8_get [c1] = (- 1, [])"
proof -
  have "get_code_lead read_string (uint c1) [] = (if uint c1 \<ge> 0xe0 then Inl [] else Inr (0, uint c1, []))"
    using no_lead_surrogate [of "uint c1 mod 16"]
    by (auto simp add: get_code_lead_def is_continuation_def Let_def bits)
  then show ?thesis using assms by (simp add: utf8_get_def get_code_def is_continuation_def)
qed

lemma utf8_get_part_2:
  assumes "0xe0 \<le> uint c1" "uint c1 \<le> 0xf4"
  shows "utf8_get [c1, c2] = (- 1, [])"
proof -
  have "get_code_lead read_string (uint c1) [c2] = Inl [] \<or> (\<exists>n. get_code_lead read_string (uint c1) [c2] = Inr (n, uint c2, []))"
    using assms no_lead_surrogate [of "uint c1 mod 16"] by (auto simp add: get_code_lead_def is_continuation_def Let_def bits)
  then show ?thesis using assms by (auto simp add: utf8_get_def get_code_def is_continuation_def)
qed

lemma utf8_get_part_3:
  assumes "uint c1 = a + 0xF0" "uint c2 = b + 0x80" "uint c3 = d + 0x80"
    and "0 \<le> a" "a \<le> 4" "0 \<le> b" "b < 64" "0 \<le> d" "d < 64" "a * 64 + b < 0x110"
  shows "utf8_get [c1, c2, c3] = (- 1, [])"
proof -
  have "\<not> (0xD800 \<le> a * 262144 + b * 4096 \<and> a * 262144 + b * 4096 \<le> 0xDFFF)"
    using no_lead_surrogate [of "a * 64 + b"] by (simp add: algebra_simps)
  then have "get_code_lead read_string (uint c1) [c2, c3] = Inr (a * 262144 + b * 4096, uint c3, [])"
    using assms by (simp add: get_code_lead_def is_continuation_def Let_def bits mod_marks)
  then show ?thesis
    using assms by (simp add: utf8_get_def get_code_def is_continuation_def)
qed

lemma utf8_get_single: "snd (utf8_get [c]) = []"
proof (cases "0xc2 \<le> uint c \<and> uint c \<le> 0xf4")
  case True
  then show ?thesis by (simp add: utf8_get_part_1)
next
  case False
  then show ?thesis by (auto simp: utf8_get_def get_code_def Let_def)
qed

text \<open>A byte that is not 0 is dealt with in at most two rounds.\<close>

definition stream_round :: "u8 list \<Rightarrow> int \<times> u8 list" where
  "stream_round bs = (let s = fst (utf8_get bs) in if s > 0 then (s, []) else (0, bs))"

lemma utf32_stream_eq:
  assumes "c \<noteq> 0"
  shows "utf8_to_utf32_stream c buffer =
    Some (if fst (utf8_get (buffer @ [c])) > 0 \<or> snd (utf8_get (buffer @ [c])) = [] then stream_round (buffer @ [c]) else stream_round [c])"
proof -
  have "utf8_to_utf32_stream c [] = Some (stream_round [c])"
    using assms utf8_get_single [of c]
    by (subst utf8_to_utf32_stream.simps) (auto simp: stream_round_def Let_def split: prod.splits)
  then show ?thesis using assms
    by (subst utf8_to_utf32_stream.simps) (auto simp: stream_round_def Let_def split: prod.splits)
qed


text \<open>The bytes of a code point before the last one are kept, the last one gives the code point.\<close>

lemma utf8_get_part:
  assumes "scalar c" "utf8_bytes c = p @ q" "p \<noteq> []" "q \<noteq> []"
  shows "utf8_get p = (- 1, [])"
proof -
  have r: "0 \<le> c mod 64" "c mod 64 < 64" "0 \<le> c div 64 mod 64" "c div 64 mod 64 < 64" "0 \<le> c div 4096 mod 64" "c div 4096 mod 64 < 64"
    by simp_all
  consider "c \<le> 0x7F" | "0x7F < c" "c \<le> 0x7FF" | "0x7FF < c" "c < 0x10000" | "0x10000 \<le> c" by linarith
  then show ?thesis
  proof cases
    case 1
    then show ?thesis using assms by (simp add: utf8_bytes_def utf8_put_bytes utf8_digits_def append_eq_Cons_conv Cons_eq_append_conv)
  next
    case 2
    then have "2 \<le> c div 64" "c div 64 < 32" by linarith+
    then have u: "uint (word_of_int (c div 64 + 0xC0) :: u8) = c div 64 + 0xC0" by (intro uint_byte) linarith+
    have "p = [word_of_int (c div 64 + 0xC0)]"
      using assms(2-4) 2 by (simp only: utf8_bytes_def utf8_put_bytes [OF assms(1)] utf8_digits_def) (auto simp: Cons_eq_append_conv)
    then show ?thesis using u \<open>2 \<le> c div 64\<close> \<open>c div 64 < 32\<close> by (simp only: utf8_get_part_1)
  next
    case 3
    then have d: "0 \<le> c div 4096" "c div 4096 < 16" by linarith+
    then have u: "uint (word_of_int (c div 4096 + 0xE0) :: u8) = c div 4096 + 0xE0" by (intro uint_byte) linarith+
    have "p = [word_of_int (c div 4096 + 0xE0)] \<or> p = [word_of_int (c div 4096 + 0xE0), word_of_int (c div 64 mod 64 + 0x80)]"
      using assms(2-4) 3 by (simp only: utf8_bytes_def utf8_put_bytes [OF assms(1)] utf8_digits_def) (auto simp: Cons_eq_append_conv)
    then show ?thesis using u d by (auto simp only: utf8_get_part_1 utf8_get_part_2)
  next
    case 4
    then have d: "0 \<le> c div 262144" "c div 262144 \<le> 4" "c div 4096 < 0x110" using assms(1) unfolding scalar_def by linarith+
    define c1 c2 c3 :: u8 where w: "c1 = word_of_int (c div 262144 + 0xF0)" "c2 = word_of_int (c div 4096 mod 64 + 0x80)"
      "c3 = word_of_int (c div 64 mod 64 + 0x80)"
    have u: "uint c1 = c div 262144 + 0xF0" "uint c2 = c div 4096 mod 64 + 0x80" "uint c3 = c div 64 mod 64 + 0x80"
      unfolding w using d r by (intro uint_byte; linarith)+
    have "p = [c1] \<or> p = [c1, c2] \<or> p = [c1, c2, c3]" unfolding w
      using assms(2-4) 4 by (simp only: utf8_bytes_def utf8_put_bytes [OF assms(1)] utf8_digits_def) (auto simp: Cons_eq_append_conv)
    moreover have "utf8_get [c1, c2, c3] = (- 1, [])"
      using utf8_get_part_3 [OF u d(1,2) r(5,6,3,4)] d(3) unfolding code_digits by blast
    ultimately show ?thesis using u(1) d by (auto simp only: utf8_get_part_1 utf8_get_part_2)
  qed
qed

primrec utf32_feed :: "u8 list \<Rightarrow> u8 list \<Rightarrow> (int list \<times> u8 list) option" where
  "utf32_feed [] buffer = Some ([], buffer)"
| "utf32_feed (c # cs) buffer =
     (case utf8_to_utf32_stream c buffer of
        None \<Rightarrow> None
      | Some (s, buffer1) \<Rightarrow> map_option (\<lambda>(ss, b). (if s = 0 then ss else s # ss, b)) (utf32_feed cs buffer1))"

lemma mod_mark_bounds: "0 < b mod 64 + 0x80 \<and> b mod 64 + 0x80 < 256" for b :: int
  using pos_mod_sign [of 64 b] pos_mod_bound [of 64 b] by linarith

lemma utf8_digits_bounds:
  "0 < c \<Longrightarrow> c \<le> 0x7F \<Longrightarrow> list_all (\<lambda>x. 0 < x \<and> x < 256) [c]"
  "0 \<le> a \<Longrightarrow> a < 32 \<Longrightarrow> list_all (\<lambda>x. 0 < x \<and> x < 256) [a + 0xC0, b mod 64 + 0x80]"
  "0 \<le> a \<Longrightarrow> a < 16 \<Longrightarrow> list_all (\<lambda>x. 0 < x \<and> x < 256) [a + 0xE0, b mod 64 + 0x80, d mod 64 + 0x80]"
  "0 \<le> a \<Longrightarrow> a < 8 \<Longrightarrow> list_all (\<lambda>x. 0 < x \<and> x < 256) [a + 0xF0, b mod 64 + 0x80, d mod 64 + 0x80, e mod 64 + 0x80]"
  for a b c d e :: int
  by (simp_all only: list.pred_inject mod_mark_bounds) simp_all

lemma utf8_digits_range:
  assumes "scalar c"
  shows "list_all (\<lambda>x. 0 < x \<and> x < 256) (utf8_digits c)"
proof -
  have c: "0 < c" "c < 0x110000" using assms by (simp_all add: scalar_def)
  have "0 \<le> c div 262144" "c div 262144 < 8" "0 \<le> c div 4096" "0 \<le> c div 64" using c by linarith+
  moreover have "c < 0x10000 \<Longrightarrow> c div 4096 < 16" "c \<le> 0x7FF \<Longrightarrow> c div 64 < 32" by linarith+
  ultimately show ?thesis using c(1) utf8_digits_bounds [of c] utf8_digits_bounds(2) [of "c div 64" c]
      utf8_digits_bounds(3) [of "c div 4096" "c div 64" c] utf8_digits_bounds(4) [of "c div 262144" "c div 4096" "c div 64" c]
    unfolding utf8_digits_def by presburger
qed

lemma no_zero_byte:
  assumes "scalar c"
  shows "0 \<notin> set (utf8_bytes c)"
proof
  assume "0 \<in> set (utf8_bytes c)"
  then obtain x where x: "x \<in> set (utf8_digits c)" "word_of_int x = (0 :: u8)"
    using assms by (auto simp: utf8_bytes_def utf8_put_bytes)
  then show False using utf8_digits_range [OF assms] uint_byte [of x] by (auto simp: list_all_iff)
qed

lemma utf32_feed_code:
  assumes "scalar c" "utf8_bytes c = p @ q" "q \<noteq> []"
  shows "utf32_feed (q @ rest) p = map_option (\<lambda>(ss, b). (c # ss, b)) (utf32_feed rest [])"
  using assms(2,3)
proof (induction q arbitrary: p)
  case (Cons b q)
  have "b \<noteq> 0" using no_zero_byte [OF assms(1)] Cons.prems by auto
  show ?case
  proof (cases "q = []")
    case True
    then have "utf8_get (p @ [b]) = (c, [])" using utf8_get_bytes [OF assms(1), of "[]"] Cons.prems by simp
    then show ?thesis using True \<open>b \<noteq> 0\<close> assms(1)
      by (simp add: utf32_stream_eq stream_round_def scalar_def)
  next
    case False
    then have "utf8_get (p @ [b]) = (- 1, [])" using utf8_get_part [OF assms(1), of "p @ [b]" q] Cons.prems by simp
    then show ?thesis using False \<open>b \<noteq> 0\<close> Cons.IH [of "p @ [b]"] Cons.prems
      by (simp add: utf32_stream_eq stream_round_def option.map_comp comp_def case_prod_unfold)
  qed
qed simp

lemma utf32_feed_text: "list_all scalar cs \<Longrightarrow> utf32_feed (utf8_text cs) [] = Some (cs, [])"
proof (induction cs)
  case (Cons c cs)
  then show ?case using utf32_feed_code [of c "[]" "utf8_bytes c"] by (simp add: not_empty)
qed simp

section \<open>Properties\<close>

text \<open>
  C30. Text of any code points survives the conversions: UTF-8 copied to UTF-16 is the UTF-16 form of the
  first \<open>n\<close> code points and the length computed beforehand is the number of units written; the one-pass
  conversion gives the UTF-8 form back. The conversion by single code points gives it back with its length,
  but for the code points whose second unit is the first or the last of its range, which come back as
  question marks.
\<close>

theorem utf_conversions_round_trip:
  assumes "list_all scalar cs"
  shows "utf8_utf16_strncpy (utf8_text cs) n = utf16_text (take n cs) \<and>
    utf8_utf16_strnlen (utf8_text cs) n = length (utf16_text (take n cs)) \<and>
    utf16_to_utf8 (utf16_text cs) = utf8_text cs \<and>
    utf16_utf8_strncpy (utf16_text cs) n = utf8_text (map replaced (take n cs)) \<and>
    utf16_utf8_strnlen (utf16_text cs) n = length (utf8_text (map replaced (take n cs))) \<and>
    utf16_strnlen (utf16_text cs) n = min n (length cs)"
  using utf8_utf16_text [OF assms] utf16_utf8_text [OF assms] utf16_to_utf8_text [OF assms] by blast

theorem utf_conversions_round_trip_witness:
  "utf8_utf16_strncpy (utf8_text [0x41, 0xE9, 0x20AC, 0x1F600]) 4 = utf16_text [0x41, 0xE9, 0x20AC, 0x1F600] \<and>
    utf16_to_utf8 (utf16_text [0x10000]) = utf8_text [0x10000] \<and>
    utf16_utf8_strncpy (utf16_text [0x10000]) 1 = utf8_text [63] \<and>
    utf16_strnlen (utf16_text [0x41, 0xE9, 0x20AC, 0x1F600]) 4 = 4"
  using utf_conversions_round_trip [of "[0x41, 0xE9, 0x20AC, 0x1F600]" 4] utf_conversions_round_trip [of "[0x10000]" 1]
  by (simp add: scalar_def replaced_def edge_def)

text \<open>
  C31. The stream decoder fed with the bytes of a text, one by one and from an empty buffer, gives the code
  points of the text in order and ends with an empty buffer. It returns for every byte but 0 and whatever
  the buffer holds.
\<close>

theorem utf8_stream_decodes:
  assumes "list_all scalar cs" "c \<noteq> 0"
  shows "utf32_feed (utf8_text cs) [] = Some (cs, []) \<and> (\<exists>s b. utf8_to_utf32_stream c buffer = Some (s, b))"
  using utf32_feed_text [OF assms(1)] utf32_stream_eq [OF assms(2), of buffer] by (simp add: stream_round_def Let_def)

theorem utf8_stream_decodes_witness:
  "utf32_feed (utf8_text [0x20AC, 0x1F600]) [] = Some ([0x20AC, 0x1F600], []) \<and> (\<exists>s b. utf8_to_utf32_stream 0xff [0xE2] = Some (s, b))"
  using utf8_stream_decodes [of "[0x20AC, 0x1F600]" "0xff" "[0xE2]"] by (simp add: scalar_def)


end
