(* ===== verification/Spec2Isabelle.thy ===== *)
theory Spec2Isabelle
  imports Lmb_Props Membuf_Props Env_Drivers_Props Rtc Charset_Props
begin

text \<open>
  \<^bold>\<open>A verification development of the U-Boot boot loader\<close>

  The program is a boot loader. Three of its parts carry state that everything else relies on: the
  \<^emph>\<open>environment\<close>, a table of named settings that is loaded from storage at start-up, consulted everywhere
  and written back on demand; the \<^emph>\<open>memory map\<close>, which says which parts of memory are taken while images are
  loaded; and the \<^emph>\<open>console buffer\<close>, a ring of bytes between a producer and a consumer. They stand on a
  library of their own, since there is no C library: strings, sorting, numbers in text, formatted output,
  checksums, 64-bit division, dates and character sets. The development models these three parts and that
  library as functions on explicit states, and proves what they compute.

  \<^bold>\<open>How the parts interact.\<close> \<open>initr_env\<close> (\<open>common/board_r.c\<close>) calls \<open>env_relocate\<close> (\<open>env/common.c\<close>), which calls
  \<open>env_load\<close> (\<open>env/env.c\<close>), which tries the drivers of the storage locations; a driver reads an image and hands
  it to \<open>env_import\<close>, which checks its CRC-32 (\<open>lib/crc32.c\<close>) and calls \<open>himport_r\<close> (\<open>lib/hashtable.c\<close>), which enters
  the variables one by one with \<open>hsearch_r\<close>; every change of a variable is checked by \<open>env_flags_validate\<close>
  (\<open>env/flags.c\<close>) against attributes found by \<open>env/attr.c\<close>, and announced to the callbacks of
  \<open>env/callback.c\<close>. Saving goes the other way through \<open>hexport_r\<close>, which sorts with \<open>qsort\<close>. Numbers pass in
  and out of variables through \<open>lib/strto.c\<close> and \<open>lib/vsprintf.c\<close>. The memory map (\<open>lib/lmb.c\<close>) keeps its
  regions in growable lists (\<open>lib/alist.c\<close>). Every one of these calls is a call of one definition by another
  here.
\<close>

text \<open>
  \<^bold>\<open>Theories and sources.\<close>

  \<^item> \<open>Prelude\<close>: names of the machine integers, error numbers, collections of rewrite rules, and facts on words
    and lists that several components need.
  \<^item> \<open>Alist\<close>: \<open>lib/alist.c\<close>. The record \<open>alist\<close> is \<open>struct alist\<close> with its 16-bit counters; the block behind the
    pointer is a list. The locale \<open>growable\<close> is what users of the list rely on.
  \<^item> \<open>Lmb_Regions\<close>, \<open>Lmb\<close>: \<open>lib/lmb.c\<close>, first the functions on one region list, then the maps of IOMMU drivers
    and the global map, which is passed as the record \<open>lmb\<close>. \<open>Lmb_Effects\<close>, \<open>Lmb_Add\<close>, \<open>Lmb_Cases\<close> and \<open>Lmb_Free\<close>
    show what adding and removing a block does to the list by cases of overlap; \<open>Lmb_Spec\<close> states it on the
    map from addresses to flags (the locale \<open>reservation_store\<close>, interpreted for a region list and for the
    global map); \<open>Lmb_Alloc\<close> treats the search for free memory; \<open>Lmb_Props\<close> holds the properties.
  \<^item> \<open>Membuf\<close>: \<open>lib/membuf.c\<close>, with offsets for pointers. \<open>Membuf_Queue\<close> shows that it meets the contract
    \<open>byte_queue\<close> of a bounded queue; \<open>Membuf_Props\<close> holds the properties.
  \<^item> \<open>Cstring\<close>, \<open>Cstring_Props\<close>: \<open>lib/string.c\<close> and \<open>lib/ctype.c\<close> on a memory of bytes with addresses, so that
    overlapping blocks are seen.
  \<^item> \<open>Qsort\<close>: \<open>lib/qsort.c\<close>, with the locale \<open>comparison\<close> for the function that is passed to it.
  \<^item> \<open>Hashtable\<close>, \<open>Hashtable_Io\<close>: \<open>lib/hashtable.c\<close>; the record \<open>hsearch_data\<close> is the struct of that name.
    \<open>Hashtable_Probe\<close> treats the order of probing and the invariant, \<open>Hashtable_Map\<close> and \<open>Hashtable_Ops\<close> the table as
    a finite map, \<open>Hashtable_Props\<close> the contract \<open>string_store\<close> and its properties, \<open>Hashtable_Roundtrip\<close> export
    and import.
  \<^item> \<open>Env_Attr\<close>, \<open>Env_Flags\<close>, \<open>Env_Callback\<close> with their \<open>_Props\<close>: \<open>env/attr.c\<close>, \<open>env/flags.c\<close>, \<open>env/callback.c\<close>.
  \<^item> \<open>Strto\<close>, \<open>Vsprintf\<close>, \<open>Digits\<close>, \<open>Vsprintf_Props\<close>: \<open>lib/strto.c\<close>, \<open>lib/vsprintf.c\<close> and the digits both are
    compared with.
  \<^item> \<open>Crc32\<close>: \<open>lib/crc32.c\<close> and the bitwise division it is compared with.
  \<^item> \<open>Env_Common\<close>, \<open>Env_Common_Props\<close>: \<open>env/common.c\<close>. The locale \<open>variable_store\<close> is what the functions for
    numbers rely on.
  \<^item> \<open>Env_Drivers\<close>, \<open>Env_Drivers_Props\<close>: \<open>env/env.c\<close>, \<open>env/nvram.c\<close>, \<open>env/nowhere.c\<close> and the step of start-up. The
    record \<open>machine\<close> holds the fields of the global data, the environment and the storage. The locale
    \<open>persistent_storage\<close> is the contract of a driver, interpreted for NVRAM.
  \<^item> \<open>Div64\<close>: \<open>lib/div64.c\<close> with \<open>include/div64.h\<close> and \<open>include/linux/math64.h\<close>.
  \<^item> \<open>Rtc\<close>: \<open>lib/rtc-lib.c\<close> and \<open>lib/date.c\<close>.
  \<^item> \<open>Charset\<close>, \<open>Charset_Props\<close>: \<open>lib/charset.c\<close>.
\<close>

text \<open>
  \<^bold>\<open>What is shown.\<close>

  \<^item> Environment: what is saved is there after a restart, in the early reader and in the table; of two
    copies one survives a write that is cut off; a damaged image is refused by its checksum; export and
    import are inverse on variables that can be written; protected variables stay as they are and every
    value conforms to the type of its variable; loading takes the first location that works.
  \<^item> Hash table: it refines a finite map under searching, entering and deleting, with errors that leave the
    map alone; a search in a table of prime size ends, and creating a table gives a prime size.
  \<^item> Memory map: reserving, freeing and allocating refine the map from addresses to flags; allocation gives
    the highest block that fits; two requests are shown on which the code does not do what it is meant to.
  \<^item> Buffer: it is a queue of bytes for every sequence of operations, and enlarging it ends and keeps them.
  \<^item> Library: overlapping copies are copies, sorting sorts, the fast checksum and the division by shifting
    are the plain ones, output never leaves its buffer and is the beginning of the full text, printed
    numbers, dates and texts are read back. The errors found in 64-bit division, in the conversion from
    UTF-16 and in the stream decoder are theorems too.

  \<^bold>\<open>Machine.\<close> Integers that can wrap around are words of their width, or integers with the reduction written
  out. The processor is little-endian with 32-bit \<open>long\<close> and \<open>size_t\<close> where that matters (hash table, numbers in
  text, division, calendar); \<open>Cstring\<close> has the eight-byte \<open>long\<close> of a 64-bit one for its word-wise copies, and
  physical addresses have 64 bits.

  \<^bold>\<open>Loops.\<close> Most loops are total functions with a measure. A loop that need not end (looking for a
  terminator, doubling a size, probing a table, the stream decoder) is a partial function whose value None
  stands for not returning, and where the properties speak of a result they show that there is one. No
  definition uses a bound on the number of steps.

  \<^bold>\<open>Parameters.\<close> The allocator is a function that says whether a request succeeds; the bytes of fresh memory, the
  compiler of regular expressions, the callbacks, the default environment, the device tree and the console
  are parameters as well. Options of the build are fields of records.
\<close>

text \<open>
  \<^bold>\<open>Not modelled.\<close>

  \<^item> Device drivers, architectures and boards (\<open>drivers\<close>, \<open>arch\<close>, \<open>board\<close>, \<open>post\<close>), most of start-up and the console:
    accesses to registers and tables of their values, whose meaning is that of the hardware.
  \<^item> The drivers of the environment for other media (\<open>env/mmc.c\<close>, \<open>env/fat.c\<close> and so on): calls of a device or a
    file system around \<open>env_import\<close>, \<open>env_import_redund\<close> and \<open>env_export\<close>, which are modelled.
  \<^item> File systems, partitions, the network and boot methods: built on block and network devices.
  \<^item> The command shell and the commands: driven by the console, and front ends of the other parts.
  \<^item> The heap: a parameter, as above. Regular expressions: a parameter, and off in most builds.
  \<^item> Device trees, EFI, compression and cryptography: imported libraries and an interface of their own.
  \<^item> Host tools, tests and documentation: not part of the image.
  \<^item> Inside modelled files: messages, the printing functions \<open>lmb_dump_*\<close>, the conversions of \<open>vsprintf\<close> for EFI and
    UUIDs, \<open>print_grouped_ull\<close>, and the reciprocal that \<open>do_div\<close> uses for a constant divisor.
\<close>

end
